(* ===== verification/Prelude.thy ===== *)
theory Prelude
  imports Main "HOL-Library.Word"
begin

text \<open>
  Shared vocabulary of the development: the machine integers of the C sources, the outcome
  of running a piece of kernel code, the combinators the models are written with, and the
  generic lemmas on them.

  C code is modelled as a state transformer with three ways to end:
  \<^item> \<open>Ret x s\<close>: the call returned \<open>x\<close>;
  \<^item> \<open>Stop c s\<close>: the call does not return, because control left this call stack (another
    thread was started, the CPU went idle, or the kernel aborted);
  \<^item> \<open>Crash e\<close>: the C program has no defined behaviour or hangs (a NULL or dangling pointer,
    an array index out of range, a non-recursive spinlock taken twice, a loop that never ends).

  A loop of the C code is \<open>kwhile\<close>, which runs its body at most \<open>2 ^ 64\<close> times and is
  \<open>Crash Diverges\<close> after that. Every pointer-chasing loop visits distinct non-null 64-bit
  addresses when its list is well formed, so this bound is never the reason why a
  well-formed list is not walked to its end (lemma \<open>distinct_addr_length\<close>).
\<close>

type_synonym u8 = "8 word"
type_synonym u16 = "16 word"
type_synonym u32 = "32 word"
type_synonym u64 = "64 word"

text \<open>Pointers are 64-bit addresses; NULL is 0.\<close>

type_synonym addr = u64

abbreviation NULL :: addr where
  "NULL \<equiv> 0"

named_theorems kern \<open>equations for running kernel code symbolically\<close>

datatype ('e, 'c, 'a, 's) outcome =
    Ret 'a 's
  | Stop 'c 's
  | Crash 'e

definition ret :: "'a \<Rightarrow> 's \<Rightarrow> ('e, 'c, 'a, 's) outcome" where
  "ret x s = Ret x s"

definition skip :: "'s \<Rightarrow> ('e, 'c, unit, 's) outcome" where
  "skip s = Ret () s"

definition bnd ::
  "('s \<Rightarrow> ('e, 'c, 'a, 's) outcome) \<Rightarrow> ('a \<Rightarrow> 's \<Rightarrow> ('e, 'c, 'b, 's) outcome) \<Rightarrow>
   's \<Rightarrow> ('e, 'c, 'b, 's) outcome" where
  "bnd m f s = (case m s of Ret x s' \<Rightarrow> f x s' | Stop c s' \<Rightarrow> Stop c s' | Crash e \<Rightarrow> Crash e)"

definition crash :: "'e \<Rightarrow> 's \<Rightarrow> ('e, 'c, 'a, 's) outcome" where
  "crash e s = Crash e"

definition stop :: "'c \<Rightarrow> 's \<Rightarrow> ('e, 'c, 'a, 's) outcome" where
  "stop c s = Stop c s"

definition gets :: "('s \<Rightarrow> 'a) \<Rightarrow> 's \<Rightarrow> ('e, 'c, 'a, 's) outcome" where
  "gets f s = Ret (f s) s"

definition modify :: "('s \<Rightarrow> 's) \<Rightarrow> 's \<Rightarrow> ('e, 'c, unit, 's) outcome" where
  "modify f s = Ret () (f s)"

text \<open>An \<open>if\<close> without \<open>else\<close>, and a block of statements.\<close>

definition cond :: "bool \<Rightarrow> ('s \<Rightarrow> ('e, 'c, unit, 's) outcome) \<Rightarrow> 's \<Rightarrow> ('e, 'c, unit, 's) outcome" where
  "cond b m = (if b then m else skip)"

fun block :: "('s \<Rightarrow> ('e, 'c, unit, 's) outcome) list \<Rightarrow> 's \<Rightarrow> ('e, 'c, unit, 's) outcome" where
  "block [] = skip"
| "block (m # ms) = bnd m (\<lambda>_. block ms)"

text \<open>
  \<open>kloop n d body x\<close> iterates \<open>body\<close> from \<open>x\<close>: \<open>Inl x'\<close> goes round again with
  \<open>x'\<close>, \<open>Inr y\<close> leaves the loop with \<open>y\<close>; \<open>d\<close> is the crash that stands for a
  loop which is still running after \<open>n\<close> rounds.
\<close>

fun kloop ::
  "nat \<Rightarrow> 'e \<Rightarrow> ('x \<Rightarrow> 's \<Rightarrow> ('e, 'c, 'x + 'a, 's) outcome) \<Rightarrow> 'x \<Rightarrow> 's \<Rightarrow> ('e, 'c, 'a, 's) outcome" where
  "kloop 0 d body x = crash d"
| "kloop (Suc n) d body x =
     bnd (body x) (\<lambda>r. case r of Inl x' \<Rightarrow> kloop n d body x' | Inr y \<Rightarrow> ret y)"

definition max_steps :: nat where
  "max_steps = 2 ^ 64"

text \<open>\<open>kfor i n f\<close> is the C loop \<open>for (; i < n; i++) f(i)\<close> over a body that does not break.\<close>

function kfor :: "nat \<Rightarrow> nat \<Rightarrow> (nat \<Rightarrow> 's \<Rightarrow> ('e, 'c, unit, 's) outcome) \<Rightarrow> 's \<Rightarrow> ('e, 'c, unit, 's) outcome" where
  "kfor i n f = (if i < n then bnd (f i) (\<lambda>_. kfor (Suc i) n f) else skip)"
  by pat_completeness auto
termination
  by (relation "measure (\<lambda>(i, n, f). n - i)") auto

text \<open>Did the call come back?\<close>

fun returns :: "('e, 'c, 'a, 's) outcome \<Rightarrow> bool" where
  "returns (Ret x s) = True"
| "returns (Stop c s) = False"
| "returns (Crash e) = False"

declare kfor.simps [simp del]
declare kloop.simps [simp del]

subsection \<open>Running code\<close>

lemma bnd_Ret [kern]: "m s = Ret x s' \<Longrightarrow> bnd m f s = f x s'"
  by (simp add: bnd_def)

lemma bnd_Ret_bool [kern]: "m s = Ret True s' \<Longrightarrow> bnd m f s = f True s'" "m s = Ret False s' \<Longrightarrow> bnd m f s = f False s'"
  by (simp_all add: bnd_def)

lemma bnd_Stop [kern]: "m s = Stop c s' \<Longrightarrow> bnd m f s = Stop c s'"
  by (simp add: bnd_def)

lemma bnd_Crash [kern]: "m s = Crash e \<Longrightarrow> bnd m f s = Crash e"
  by (simp add: bnd_def)

lemma ret_apply [kern]: "ret x s = Ret x s"
  by (simp add: ret_def)

lemma skip_apply [kern]: "skip s = Ret () s"
  by (simp add: skip_def)

lemma gets_apply [kern]: "gets f s = Ret (f s) s"
  by (simp add: gets_def)

lemma modify_apply [kern]: "modify f s = Ret () (f s)"
  by (simp add: modify_def)

lemma crash_apply [kern]: "crash e s = Crash e"
  by (simp add: crash_def)

lemma stop_apply [kern]: "stop c s = Stop c s"
  by (simp add: stop_def)

lemma when_apply [kern]: "cond b m s = (if b then m s else Ret () s)"
  by (simp add: cond_def skip_def)

lemma block_Nil_apply [kern]: "block [] s = Ret () s"
  by (simp add: skip_def)

lemma block_Cons_apply [kern]: "m s = Ret x s' \<Longrightarrow> block (m # ms) s = block ms s'"
  by (simp add: bnd_def)

declare block.simps [simp del]

lemma kfor_done [kern]: "n \<le> i \<Longrightarrow> kfor i n f s = Ret () s"
  by (subst kfor.simps) (simp add: skip_def)

lemma kfor_step: "i < n \<Longrightarrow> f i s = Ret () s' \<Longrightarrow> kfor i n f s = kfor (Suc i) n f s'"
  by (subst kfor.simps) (simp add: bnd_def)

lemma kloop_next: "body x s = Ret (Inl x') s' \<Longrightarrow> kloop (Suc n) d body x s = kloop n d body x' s'"
  by (simp add: bnd_def kloop.simps)

lemma kloop_done: "body x s = Ret (Inr y) s' \<Longrightarrow> kloop (Suc n) d body x s = Ret y s'"
  by (simp add: bnd_def kloop.simps ret_def)

text \<open>A body that always goes round again on the same values never leaves the loop.\<close>

lemma kloop_stuck:
  assumes "body x s = Ret (Inl x) s"
  shows "kloop n d body x s = Crash d"
  by (induction n) (simp_all add: kloop.simps assms bnd_def crash_def)

text \<open>A loop invariant for \<open>for\<close> loops.\<close>

lemma kfor_invariant:
  assumes "\<And>j s. i \<le> j \<Longrightarrow> j < n \<Longrightarrow> I j s \<Longrightarrow> \<exists>s'. f j s = Ret () s' \<and> I (Suc j) s'"
    and "I i s" and "i \<le> n"
  shows "\<exists>s'. kfor i n f s = Ret () s' \<and> I n s'"
  using assms
proof (induction "n - i" arbitrary: i s)
  case 0
  then have "i = n" by simp
  with 0 show ?case by (auto simp: kern)
next
  case (Suc k)
  then have lt: "i < n" by simp
  from Suc.prems(1)[of i s] Suc.prems(2) lt
  obtain s1 where s1: "f i s = Ret () s1" "I (Suc i) s1" by auto
  have "\<exists>s'. kfor (Suc i) n f s1 = Ret () s' \<and> I n s'"
    by (rule Suc.hyps(1)) (use Suc.hyps(2) Suc.prems lt s1 in auto)
  with s1 lt show ?case by (simp add: kfor_step)
qed

subsection \<open>Addresses\<close>

lemma card_addr: "card (UNIV :: addr set) = 2 ^ 64"
  by (simp add: card_word)

lemma distinct_addr_length:
  assumes "distinct (xs :: addr list)" and "NULL \<notin> set xs"
  shows "length xs < max_steps"
proof -
  have "card (set xs) \<le> card (UNIV - {NULL :: addr})"
    using assms(2) by (intro card_mono) auto
  also have "\<dots> = 2 ^ 64 - 1"
    by (simp add: card_Diff_singleton card_addr)
  finally show ?thesis
    using assms(1) by (simp add: distinct_card max_steps_def)
qed

lemma max_steps_Suc: "max_steps = Suc (2 ^ 64 - 1)"
  by (simp add: max_steps_def)

end
