(* ===== verification/Anlock.thy ===== *)
theory Anlock
  imports Prelude
begin

unbundle bit_operations_syntax

text \<open>
  The ticket lock of \<open>lib/anlock\<close>, which backs \<open>anscheduler_lock\<close> in the reference port.

  The lock is one 64-bit word: the lower 32 bits count the clients that use the lock (the
  owner included), the upper 32 bits count the releases. The operations on the word are
  modelled as the C code computes them, with the wrap-around of 64-bit and 32-bit
  arithmetic. The clients of one lock are a step relation in which every atomic access to
  the word is a step of its own, so all interleavings of up to \<open>2 ^ 32 - 1\<close> clients are
  covered. The list \<open>arrivals\<close> is a history variable: the clients that have seized the
  lock and not released it, in the order in which they executed the fetch-and-add.
\<close>

type_synonym anlock = u64

definition lower_half :: "anlock \<Rightarrow> u32" where
  "lower_half v = ucast (v AND 0xffffffff)"

definition upper_half :: "anlock \<Rightarrow> u32" where
  "upper_half v = ucast (drop_bit 32 v)"

definition anlock_initialize :: anlock where
  "anlock_initialize = 0"

text \<open>
  The first part of \<open>anlock_lock_waiting\<close>: the fetch-and-add and what is computed from the
  old value. \<open>None\<close> means that the lock is seized at once, \<open>Some w\<close> that the caller has to
  wait until the upper half is \<open>w\<close>.
\<close>

definition anlock_enter :: "anlock \<Rightarrow> u32 option \<times> anlock" where
  "anlock_enter v =
     (let oldValue = v; lower = lower_half oldValue
      in if lower = 0 then (None, v + 1)
         else let upper = upper_half oldValue; waitUntil = upper + lower
              in (Some waitUntil, v + 1))"

text \<open>One round of the waiting loop: does the caller own the lock now?\<close>

definition anlock_poll :: "u32 \<Rightarrow> anlock \<Rightarrow> bool" where
  "anlock_poll waitUntil v = (let nowUpper = drop_bit 32 v in nowUpper = (ucast waitUntil :: u64))"

definition anlock_unlock :: "anlock \<Rightarrow> anlock" where
  "anlock_unlock v = v + 0xffffffff"

subsection \<open>Clients\<close>

datatype client = Out | Waiting u32 | Owner

record lock_sys =
  lword :: anlock
  clients :: "nat \<Rightarrow> client"
  arrivals :: "nat list"

definition lock_init :: lock_sys where
  "lock_init = \<lparr>lword = anlock_initialize, clients = (\<lambda>_. Out), arrivals = []\<rparr>"

text \<open>The steps of \<open>n\<close> clients.\<close>

inductive lock_step :: "nat \<Rightarrow> lock_sys \<Rightarrow> lock_sys \<Rightarrow> bool" for n where
  enter_free: "i < n \<Longrightarrow> clients s i = Out \<Longrightarrow> anlock_enter (lword s) = (None, v) \<Longrightarrow>
     lock_step n s (s\<lparr>lword := v, clients := (clients s)(i := Owner), arrivals := arrivals s @ [i]\<rparr>)"
| enter_busy: "i < n \<Longrightarrow> clients s i = Out \<Longrightarrow> anlock_enter (lword s) = (Some w, v) \<Longrightarrow>
     lock_step n s (s\<lparr>lword := v, clients := (clients s)(i := Waiting w), arrivals := arrivals s @ [i]\<rparr>)"
| poll_hit: "clients s i = Waiting w \<Longrightarrow> anlock_poll w (lword s) \<Longrightarrow>
     lock_step n s (s\<lparr>clients := (clients s)(i := Owner)\<rparr>)"
| poll_miss: "clients s i = Waiting w \<Longrightarrow> \<not> anlock_poll w (lword s) \<Longrightarrow> lock_step n s s"
| release: "clients s i = Owner \<Longrightarrow>
     lock_step n s (s\<lparr>lword := anlock_unlock (lword s), clients := (clients s)(i := Out),
                      arrivals := remove1 i (arrivals s)\<rparr>)"

inductive lock_reachable :: "nat \<Rightarrow> lock_sys \<Rightarrow> bool" for n where
  start: "lock_reachable n lock_init"
| step: "lock_reachable n s \<Longrightarrow> lock_step n s t \<Longrightarrow> lock_reachable n t"

text \<open>The two halves of the word as natural numbers.\<close>

definition two32 :: nat where
  "two32 = 2 ^ 32"

definition users_of :: "anlock \<Rightarrow> nat" where
  "users_of v = unat v mod two32"

definition releases_of :: "anlock \<Rightarrow> nat" where
  "releases_of v = unat v div two32"

text \<open>
  The arrival order determines every client: the one in front owns the lock or holds the
  ticket that is being called; the \<open>j\<close>-th one waits for the \<open>j\<close>-th release from now.
\<close>

definition lock_inv :: "nat \<Rightarrow> lock_sys \<Rightarrow> bool" where
  "lock_inv n s \<longleftrightarrow>
     distinct (arrivals s) \<and> set (arrivals s) \<subseteq> {..<n} \<and>
     (\<forall>i. clients s i = Out \<longleftrightarrow> i \<notin> set (arrivals s)) \<and>
     users_of (lword s) = length (arrivals s) \<and>
     (\<forall>j < length (arrivals s).
        clients s (arrivals s ! j) = Waiting (of_nat (releases_of (lword s) + j)) \<or>
        (j = 0 \<and> clients s (arrivals s ! j) = Owner))"

text \<open>Three steps of two clients: 0 seizes the lock, 1 queues up behind it, 0 releases it.\<close>

definition lock_ex1 :: lock_sys where
  "lock_ex1 = \<lparr>lword = 1, clients = (\<lambda>_. Out)(0 := Owner), arrivals = [0]\<rparr>"

definition lock_ex2 :: lock_sys where
  "lock_ex2 = \<lparr>lword = 2, clients = (\<lambda>_. Out)(0 := Owner, 1 := Waiting 1), arrivals = [0, 1]\<rparr>"

definition lock_ex3 :: lock_sys where
  "lock_ex3 = \<lparr>lword = 0x100000001, clients = (\<lambda>_. Out)(1 := Waiting 1), arrivals = [1]\<rparr>"

subsection \<open>The halves of the word\<close>

lemma unat_drop32: "unat (drop_bit 32 (v :: u64)) = unat v div 2 ^ 32"
  using unat_drop_bit_eq[of 32 v] drop_bit_eq_div[of 32 "unat v"] by (simp only:)

lemma unat_low32: "unat (v AND 0xffffffff :: u64) = unat v mod 2 ^ 32"
proof -
  have "v AND 0xffffffff = take_bit 32 v"
    by (simp add: take_bit_eq_mask mask_eq_exp_minus_1)
  also have "\<dots> = v mod 2 ^ 32" by (rule take_bit_eq_mod)
  finally show ?thesis by (simp add: unat_mod_distrib)
qed

lemma ucast_of_unat: "(ucast (v :: u64) :: u32) = of_nat (unat v)"
  by simp

lemma lower_half_eq: "lower_half v = of_nat (users_of v)"
  by (simp only: lower_half_def ucast_of_unat unat_low32 users_of_def two32_def)

lemma upper_half_eq: "upper_half v = of_nat (releases_of v)"
  by (simp only: upper_half_def ucast_of_unat unat_drop32 releases_of_def two32_def)

lemma unat_of_nat32: "unat (of_nat k :: u32) = k mod two32"
  by (simp add: unat_of_nat two32_def)

lemma of_nat32_mod: "(of_nat (k mod two32) :: u32) = of_nat k"
  by (simp add: word_unat_eq_iff unat_of_nat32)

lemma users_of_bound: "users_of v < two32"
  by (simp add: users_of_def two32_def)

lemma releases_of_bound: "releases_of v < two32"
  using unsigned_less[of v, where 'a = nat]
  by (simp add: releases_of_def two32_def less_mult_imp_div_less)

lemma lower_half_0: "lower_half v = 0 \<longleftrightarrow> users_of v = 0"
  using users_of_bound[of v] by (simp add: lower_half_eq word_unat_eq_iff unat_of_nat32)

lemma anlock_poll_iff: "anlock_poll w v \<longleftrightarrow> releases_of v = unat w"
proof -
  have "anlock_poll w v \<longleftrightarrow> unat (drop_bit 32 v) = unat (ucast w :: u64)"
    by (simp add: anlock_poll_def word_unat_eq_iff)
  also have "unat (ucast w :: u64) = unat w"
    using unsigned_less[of w, where 'a = nat] by (simp add: unsigned_ucast_eq take_bit_eq_mod)
  finally show ?thesis by (simp only: unat_drop32 releases_of_def two32_def)
qed

text \<open>Two-digit numbers in base \<open>m\<close>.\<close>

lemma two_digits:
  fixes m :: nat
  assumes "k < m"
  shows "(u * m + k) mod (m * m) = (u mod m) * m + k"
  using assms by (simp add: mod_mult2_eq)

lemma unat_digits: "unat v = releases_of v * two32 + users_of v"
  by (simp add: releases_of_def users_of_def)

lemma digits_unat:
  assumes "unat v = (u * two32 + k) mod (two32 * two32)" and "k < two32"
  shows "users_of v = k" and "releases_of v = u mod two32"
  using assms by (simp_all add: users_of_def releases_of_def two_digits)

text \<open>Entering increments the lower half, unless that would overflow it.\<close>

lemma enter_word:
  assumes "Suc (users_of v) < two32"
  shows "users_of (v + 1) = Suc (users_of v)" and "releases_of (v + 1) = releases_of v"
proof -
  have "unat (v + 1) = Suc (unat v) mod (two32 * two32)"
    by (simp add: unat_word_ariths two32_def)
  then have eq: "unat (v + 1) = (releases_of v * two32 + Suc (users_of v)) mod (two32 * two32)"
    by (simp only: unat_digits[of v] add_Suc_right)
  from digits_unat[OF eq assms]
  show "users_of (v + 1) = Suc (users_of v)" "releases_of (v + 1) = releases_of v"
    by (simp_all add: releases_of_bound)
qed

text \<open>Releasing decrements the lower half and increments the upper half, modulo \<open>2 ^ 32\<close>.\<close>

lemma unlock_word:
  assumes "0 < users_of v"
  shows "users_of (anlock_unlock v) = users_of v - 1"
    and "releases_of (anlock_unlock v) = Suc (releases_of v) mod two32"
proof -
  have "unat (anlock_unlock v) = (unat v + (two32 - 1)) mod (two32 * two32)"
    by (simp add: anlock_unlock_def unat_word_ariths two32_def)
  also have "unat v + (two32 - 1) = Suc (releases_of v) * two32 + (users_of v - 1)"
    using assms users_of_bound[of v] by (simp add: unat_digits[of v])
  finally have eq: "unat (anlock_unlock v) =
    (Suc (releases_of v) * two32 + (users_of v - 1)) mod (two32 * two32)" .
  have "users_of v - 1 < two32" using users_of_bound[of v] by simp
  from digits_unat[OF eq this]
  show "users_of (anlock_unlock v) = users_of v - 1"
    "releases_of (anlock_unlock v) = Suc (releases_of v) mod two32" .
qed

subsection \<open>The invariant\<close>

lemma lock_inv_init: "lock_inv n lock_init"
  by (simp add: lock_inv_def lock_init_def anlock_initialize_def users_of_def)

lemma lock_inv_nth:
  assumes "lock_inv n s" and "j < length (arrivals s)"
  shows "clients s (arrivals s ! j) = Waiting (of_nat (releases_of (lword s) + j)) \<or>
    (j = 0 \<and> clients s (arrivals s ! j) = Owner)"
  using assms by (simp only: lock_inv_def)

lemma lock_inv_length:
  assumes "lock_inv n s"
  shows "length (arrivals s) \<le> n"
proof -
  have "card (set (arrivals s)) \<le> card {..<n}"
    using assms by (intro card_mono) (auto simp: lock_inv_def)
  with assms show ?thesis by (simp add: lock_inv_def distinct_card)
qed

lemma lock_inv_arrived:
  assumes "lock_inv n s" and "clients s i \<noteq> Out"
  obtains j where "j < length (arrivals s)" and "arrivals s ! j = i"
  using assms by (auto simp: lock_inv_def in_set_conv_nth)

text \<open>Only the client in front can own the lock, and only its ticket is called.\<close>

lemma lock_inv_owner:
  assumes "lock_inv n s" and "clients s i = Owner"
  shows "arrivals s \<noteq> []" and "hd (arrivals s) = i"
proof -
  obtain j where j: "j < length (arrivals s)" "arrivals s ! j = i"
    by (rule lock_inv_arrived [OF assms(1), of i]) (use assms(2) in auto)
  with lock_inv_nth[OF assms(1) j(1)] assms(2) have "j = 0" by auto
  with j show "arrivals s \<noteq> []" "hd (arrivals s) = i"
    by (auto simp: hd_conv_nth)
qed

lemma ticket_called_iff:
  assumes "u < two32" and "j < two32"
  shows "u = unat (of_nat (u + j) :: u32) \<longleftrightarrow> j = 0"
  using assms unfolding unat_of_nat32
  by (cases "u + j < two32") (auto simp: mod_if)

lemma lock_inv_poll:
  assumes "lock_inv n s" and "n < two32"
    and "j < length (arrivals s)" and "clients s (arrivals s ! j) = Waiting w"
  shows "anlock_poll w (lword s) \<longleftrightarrow> j = 0"
proof -
  have w: "w = of_nat (releases_of (lword s) + j)"
    using lock_inv_nth[OF assms(1,3)] assms(4) by auto
  have "j < two32"
    using assms(2,3) lock_inv_length[OF assms(1)] by simp
  then show ?thesis
    unfolding anlock_poll_iff w by (rule ticket_called_iff [OF releases_of_bound])
qed

subsection \<open>Every step keeps the invariant\<close>

lemma lock_inv_enter:
  assumes inv: "lock_inv n s" and n: "n < two32" and i: "i < n" "clients s i = Out"
    and c: "c = Waiting (of_nat (releases_of (lword s) + length (arrivals s)))
            \<or> (arrivals s = [] \<and> c = Owner)"
  shows "lock_inv n (s\<lparr>lword := lword s + 1, clients := (clients s)(i := c),
                       arrivals := arrivals s @ [i]\<rparr>)"
proof -
  have i': "i \<notin> set (arrivals s)" using inv i by (simp add: lock_inv_def)
  have "card (insert i (set (arrivals s))) \<le> card {..<n}"
    using inv i by (intro card_mono) (auto simp: lock_inv_def)
  then have "Suc (length (arrivals s)) \<le> n"
    using inv i' by (simp add: lock_inv_def distinct_card)
  then have ov: "Suc (users_of (lword s)) < two32"
    using inv n by (simp add: lock_inv_def)
  have pos: "clients s (arrivals s ! j) = Waiting (of_nat (releases_of (lword s) + j)) \<or>
      (j = 0 \<and> clients s (arrivals s ! j) = Owner)" "arrivals s ! j \<noteq> i"
    if "j < length (arrivals s)" for j
    using lock_inv_nth[OF inv that] i' that by (auto simp: in_set_conv_nth)
  have last: "c = Waiting (of_nat (releases_of (lword s) + j)) \<or> j = 0 \<and> c = Owner"
    if "j = length (arrivals s)" for j
    using c that by auto
  have "c \<noteq> Out" using c by auto
  with inv i i' have out: "((clients s)(i := c)) k = Out \<longleftrightarrow> k \<notin> set (arrivals s @ [i])" for k
    by (simp add: lock_inv_def)
  have fields: "lword (s\<lparr>lword := v, clients := f, arrivals := as\<rparr>) = v"
    "clients (s\<lparr>lword := v, clients := f, arrivals := as\<rparr>) = f"
    "arrivals (s\<lparr>lword := v, clients := f, arrivals := as\<rparr>) = as" for v f as
    by simp_all
  show ?thesis
    unfolding lock_inv_def fields enter_word[OF ov]
  proof (intro conjI allI impI)
    fix j assume "j < length (arrivals s @ [i])"
    then show "((clients s)(i := c)) ((arrivals s @ [i]) ! j) = Waiting (of_nat (releases_of (lword s) + j)) \<or>
        j = 0 \<and> ((clients s)(i := c)) ((arrivals s @ [i]) ! j) = Owner"
      using pos[of j] last[of j] by (cases "j = length (arrivals s)") (auto simp: nth_append)
  qed (use inv i i' out in \<open>simp_all add: lock_inv_def\<close>)
qed

lemma lock_inv_release:
  assumes inv: "lock_inv n s" and i: "clients s i = Owner"
  shows "lock_inv n (s\<lparr>lword := anlock_unlock (lword s), clients := (clients s)(i := Out),
                       arrivals := remove1 i (arrivals s)\<rparr>)"
proof -
  obtain as where as: "arrivals s = i # as"
    using lock_inv_owner[OF inv i] by (cases "arrivals s") auto
  let ?u = "releases_of (lword s)"
  have len: "users_of (lword s) = Suc (length as)"
    using inv as by (simp add: lock_inv_def)
  then have pos: "0 < users_of (lword s)" by (simp only:)
  have d: "distinct as" "i \<notin> set as" using inv as by (auto simp: lock_inv_def)
  have wait: "clients s (as ! j) = Waiting (of_nat (Suc ?u mod two32 + j))" "as ! j \<noteq> i"
    if "j < length as" for j
  proof -
    have "clients s (as ! j) = Waiting (of_nat (?u + Suc j))"
      using lock_inv_nth[OF inv, of "Suc j"] as that by simp
    moreover have "(of_nat (?u + Suc j) :: u32) = of_nat (Suc ?u mod two32 + j)"
      using of_nat32_mod[of "Suc ?u"] by simp
    ultimately show "clients s (as ! j) = Waiting (of_nat (Suc ?u mod two32 + j))" by simp
    show "as ! j \<noteq> i" using d that by (auto simp: in_set_conv_nth)
  qed
  show ?thesis
    using inv as d wait len by (auto simp: lock_inv_def unlock_word[OF pos])
qed

lemma lock_inv_step:
  assumes "lock_step n s t" and "lock_inv n s" and n: "n < two32"
  shows "lock_inv n t"
  using assms(1,2)
proof (induction rule: lock_step.induct)
  case (enter_free i s v)
  have "users_of (lword s) = 0" and v: "v = lword s + 1"
    using enter_free(3) lower_half_0[of "lword s"]
    by (simp_all add: anlock_enter_def Let_def split: if_splits)
  then have "arrivals s = []" using enter_free(4) by (simp add: lock_inv_def)
  then show ?case
    unfolding v by (intro lock_inv_enter[OF enter_free(4) n enter_free(1,2)]) simp
next
  case (enter_busy i s w v)
  have v: "v = lword s + 1" and "w = upper_half (lword s) + lower_half (lword s)"
    using enter_busy(3) by (auto simp: anlock_enter_def Let_def split: if_splits)
  then have "w = of_nat (releases_of (lword s) + length (arrivals s))"
    using enter_busy(4) by (simp add: upper_half_eq lower_half_eq lock_inv_def)
  then show ?case
    unfolding v by (intro lock_inv_enter[OF enter_busy(4) n enter_busy(1,2)]) simp
next
  case (poll_hit s i w)
  obtain j where j: "j < length (arrivals s)" "arrivals s ! j = i"
    by (rule lock_inv_arrived [OF poll_hit(3), of i]) (use poll_hit(1) in auto)
  then have "j = 0"
    using lock_inv_poll[OF poll_hit(3) n j(1), of w] poll_hit(1,2) by simp
  with j have "arrivals s \<noteq> []" "hd (arrivals s) = i" by (auto simp: hd_conv_nth)
  then obtain as where as: "arrivals s = i # as" by (cases "arrivals s") auto
  then have "as ! j \<noteq> i" if "j < length as" for j
    using poll_hit(3) that by (auto simp: lock_inv_def in_set_conv_nth)
  then show ?case
    using poll_hit(3) as by (auto simp: lock_inv_def nth_Cons split: nat.splits)
next
  case (release s i)
  then show ?case by (simp add: lock_inv_release)
qed

lemma lock_reachable_inv: "lock_reachable n s \<Longrightarrow> n < two32 \<Longrightarrow> lock_inv n s"
  by (induction rule: lock_reachable.induct) (auto intro: lock_inv_init lock_inv_step)

subsection \<open>What the lock guarantees\<close>

text \<open>C1: The ticket lock gives first-in-first-out mutual exclusion. In every state that up to
  \<open>2 ^ 32 - 1\<close> clients can reach by any interleaving of their atomic accesses, a client that
  owns the lock is the one that executed its fetch-and-add first among all that have not
  released the lock yet, and there is no second owner.
\<close>

theorem anlock_fifo_mutual_exclusion:
  assumes "lock_reachable n s" and "n < 2 ^ 32" and "clients s i = Owner"
  shows "arrivals s \<noteq> [] \<and> i = hd (arrivals s) \<and> (\<forall>j. clients s j = Owner \<longrightarrow> j = i)"
proof -
  have inv: "lock_inv n s"
    using assms(1,2) by (simp add: lock_reachable_inv two32_def)
  show ?thesis
    using lock_inv_owner[OF inv] assms(3) by auto
qed

text \<open>C25: The lock is always handed on. Whenever clients use the lock, the earliest arrival
  owns it or its next look at the lock word succeeds, while every later arrival is waiting
  and its look at the word fails; and the lower half of the word is zero (so that the
  next client seizes the lock without waiting) exactly when no client uses the lock.
\<close>

theorem anlock_handover:
  assumes "lock_reachable n s" and "n < 2 ^ 32"
  shows "(arrivals s \<noteq> [] \<longrightarrow>
            clients s (hd (arrivals s)) = Owner \<or>
            (\<exists>w. clients s (hd (arrivals s)) = Waiting w \<and> anlock_poll w (lword s))) \<and>
         (\<forall>i \<in> set (tl (arrivals s)). \<exists>w. clients s i = Waiting w \<and> \<not> anlock_poll w (lword s)) \<and>
         (lower_half (lword s) = 0 \<longleftrightarrow> (\<forall>i. clients s i = Out))"
proof -
  have n: "n < two32" using assms(2) by (simp add: two32_def)
  have inv: "lock_inv n s" using assms(1) n by (rule lock_reachable_inv)
  have free: "lower_half (lword s) = 0 \<longleftrightarrow> (\<forall>i. clients s i = Out)"
  proof -
    have "lower_half (lword s) = 0 \<longleftrightarrow> arrivals s = []"
      using inv by (simp add: lower_half_0 lock_inv_def)
    also have "\<dots> \<longleftrightarrow> (\<forall>i. clients s i = Out)"
      using inv by (cases "arrivals s") (auto simp: lock_inv_def)
    finally show ?thesis .
  qed
  show ?thesis
  proof (cases "arrivals s")
    case Nil
    with free show ?thesis by simp
  next
    case (Cons i as)
    have head: "clients s i = Owner \<or> (\<exists>w. clients s i = Waiting w \<and> anlock_poll w (lword s))"
      using lock_inv_nth[OF inv, of 0] lock_inv_poll[OF inv n, of 0] Cons by auto
    have "\<exists>w. clients s k = Waiting w \<and> \<not> anlock_poll w (lword s)" if "k \<in> set as" for k
    proof -
      from that obtain j where "j < length as" "as ! j = k" by (auto simp: in_set_conv_nth)
      with Cons show ?thesis
        using lock_inv_nth[OF inv, of "Suc j"] lock_inv_poll[OF inv n, of "Suc j"] by auto
    qed
    with head free Cons show ?thesis by simp
  qed
qed

lemma lock_ex1_reachable: "lock_reachable 2 lock_ex1"
proof -
  have "anlock_enter (lword lock_init) = (None, 1)"
    by (simp add: anlock_enter_def lock_init_def anlock_initialize_def lower_half_def)
  from lock_step.enter_free[of 0 2 lock_init, OF _ _ this]
  have "lock_step 2 lock_init lock_ex1"
    by (simp add: lock_init_def lock_ex1_def)
  then show ?thesis by (rule lock_reachable.step [OF lock_reachable.start])
qed

lemma lock_ex2_reachable: "lock_reachable 2 lock_ex2"
proof -
  have "anlock_enter (lword lock_ex1) = (Some 1, 2)"
    by (simp add: anlock_enter_def lock_ex1_def lower_half_def upper_half_def)
  from lock_step.enter_busy[of 1 2 lock_ex1, OF _ _ this]
  have "lock_step 2 lock_ex1 lock_ex2"
    by (simp add: lock_ex1_def lock_ex2_def)
  then show ?thesis by (rule lock_reachable.step [OF lock_ex1_reachable])
qed

lemma lock_ex3_reachable: "lock_reachable 2 lock_ex3"
proof -
  have "lock_step 2 lock_ex2 lock_ex3"
    using lock_step.release[of lock_ex2 0 2]
    by (simp add: lock_ex2_def lock_ex3_def anlock_unlock_def fun_upd_twist fun_upd_idem)
  then show ?thesis by (rule lock_reachable.step [OF lock_ex2_reachable])
qed

theorem anlock_fifo_mutual_exclusion_witness:
  "lock_reachable 2 lock_ex2 \<and> clients lock_ex2 0 = Owner \<and> hd (arrivals lock_ex2) = 0 \<and>
   clients lock_ex2 1 \<noteq> Owner"
proof -
  have own: "clients lock_ex2 0 = Owner" by (simp add: lock_ex2_def)
  have "(2 :: nat) < 2 ^ 32" by simp
  from anlock_fifo_mutual_exclusion[OF lock_ex2_reachable this own]
  have "0 = hd (arrivals lock_ex2)" and "\<forall>j. clients lock_ex2 j = Owner \<longrightarrow> j = 0" by simp_all
  moreover from this(2) have "clients lock_ex2 1 \<noteq> Owner" by (metis zero_neq_one)
  ultimately show ?thesis using own lock_ex2_reachable by simp
qed

theorem anlock_handover_witness:
  "lock_reachable 2 lock_ex3 \<and> lower_half (lword lock_ex3) \<noteq> 0 \<and>
   (\<exists>w. clients lock_ex3 1 = Waiting w \<and> anlock_poll w (lword lock_ex3))"
proof -
  have "(2 :: nat) < 2 ^ 32" by simp
  note h = anlock_handover[OF lock_ex3_reachable this]
  have "arrivals lock_ex3 = [1]" "clients lock_ex3 1 = Waiting 1" by (simp_all add: lock_ex3_def)
  with h lock_ex3_reachable show ?thesis by auto
qed

end
