(* ===== verification/Linked_Lists.thy ===== *)
theory Linked_Lists
  imports Prelude
begin

text \<open>
  Linked lists as the kernel stores them: intrusive \<open>next\<close> and \<open>last\<close> links inside the
  elements. A list is described by the two functions that read the links of an address, so
  the same lemmas serve the run queue, the PID buckets, the socket buckets, the thread
  lists and the pending lists: each component supplies the functions for its own fields.

  \<open>dll nx pv p xs q\<close> says that \<open>xs\<close> is a chain of non-null addresses whose first element
  points back to \<open>p\<close> and whose last element points forward to \<open>q\<close>; \<open>sll nx xs q\<close> is
  the singly linked version.
\<close>

definition first_of :: "addr list \<Rightarrow> addr" where
  "first_of xs = (case xs of [] \<Rightarrow> NULL | x # _ \<Rightarrow> x)"

definition last_of :: "addr list \<Rightarrow> addr" where
  "last_of xs = (if xs = [] then NULL else last xs)"

fun dll :: "(addr \<Rightarrow> addr) \<Rightarrow> (addr \<Rightarrow> addr) \<Rightarrow> addr \<Rightarrow> addr list \<Rightarrow> addr \<Rightarrow> bool" where
  "dll nx pv p [] q = True"
| "dll nx pv p (x # xs) q =
     (x \<noteq> NULL \<and> pv x = p \<and> nx x = (case xs of [] \<Rightarrow> q | y # _ \<Rightarrow> y) \<and> dll nx pv x xs q)"

fun sll :: "(addr \<Rightarrow> addr) \<Rightarrow> addr list \<Rightarrow> addr \<Rightarrow> bool" where
  "sll nx [] q = True"
| "sll nx (x # xs) q =
     (x \<noteq> NULL \<and> nx x = (case xs of [] \<Rightarrow> q | y # _ \<Rightarrow> y) \<and> sll nx xs q)"

text \<open>A whole list, from NULL to NULL.\<close>

definition dlist :: "(addr \<Rightarrow> addr) \<Rightarrow> (addr \<Rightarrow> addr) \<Rightarrow> addr list \<Rightarrow> bool" where
  "dlist nx pv xs \<longleftrightarrow> distinct xs \<and> dll nx pv NULL xs NULL"

definition slist :: "(addr \<Rightarrow> addr) \<Rightarrow> addr list \<Rightarrow> bool" where
  "slist nx xs \<longleftrightarrow> distinct xs \<and> sll nx xs NULL"

lemma first_of_simps [simp]: "first_of [] = NULL" "first_of (x # xs) = x"
  by (simp_all add: first_of_def)

lemma last_of_simps [simp]: "last_of [] = NULL" "last_of (xs @ [x]) = x" "last_of [x] = x"
  "last_of (x # y # ys) = last_of (y # ys)"
  by (simp_all add: last_of_def)

lemma first_of_append: "first_of (xs @ ys) = (if xs = [] then first_of ys else first_of xs)"
  by (cases xs) simp_all

lemma last_of_append: "last_of (xs @ ys) = (if ys = [] then last_of xs else last_of ys)"
  by (simp add: last_of_def)

lemma case_first_of: "(case xs of [] \<Rightarrow> NULL | y # _ \<Rightarrow> y) = first_of xs"
  by (simp add: first_of_def)

lemma dll_append:
  "dll nx pv p (xs @ ys) q \<longleftrightarrow>
     dll nx pv p xs (case ys of [] \<Rightarrow> q | y # _ \<Rightarrow> y) \<and> dll nx pv (last (p # xs)) ys q"
proof (induction xs arbitrary: p)
  case (Cons x xs)
  then show ?case by (cases xs) (auto split: list.splits)
qed simp

lemma dll_cong:
  assumes "\<And>x. x \<in> set xs \<Longrightarrow> nx x = nx' x" and "\<And>x. x \<in> set xs \<Longrightarrow> pv x = pv' x"
  shows "dll nx pv p xs q = dll nx' pv' p xs q"
  using assms by (induction xs arbitrary: p) (auto split: list.splits)

lemma sll_cong:
  assumes "\<And>x. x \<in> set xs \<Longrightarrow> nx x = nx' x"
  shows "sll nx xs q = sll nx' xs q"
  using assms by (induction xs) (auto split: list.splits)

lemma dll_nonnull: "dll nx pv p xs q \<Longrightarrow> NULL \<notin> set xs"
  by (induction xs arbitrary: p) auto

lemma sll_nonnull: "sll nx xs q \<Longrightarrow> NULL \<notin> set xs"
  by (induction xs) auto

lemma dlist_Nil [simp]: "dlist nx pv []"
  by (simp add: dlist_def)

lemma slist_Nil [simp]: "slist nx []"
  by (simp add: slist_def)

lemma dlist_cong:
  assumes "\<And>x. x \<in> set xs \<Longrightarrow> nx x = nx' x" and "\<And>x. x \<in> set xs \<Longrightarrow> pv x = pv' x"
  shows "dlist nx pv xs = dlist nx' pv' xs"
  unfolding dlist_def using dll_cong[OF assms] by simp

lemma slist_cong:
  assumes "\<And>x. x \<in> set xs \<Longrightarrow> nx x = nx' x"
  shows "slist nx xs = slist nx' xs"
  unfolding slist_def using sll_cong[OF assms] by simp

lemma dlist_distinct: "dlist nx pv xs \<Longrightarrow> distinct xs"
  by (simp add: dlist_def)

lemma slist_distinct: "slist nx xs \<Longrightarrow> distinct xs"
  by (simp add: slist_def)

lemma dlist_nonnull: "dlist nx pv xs \<Longrightarrow> NULL \<notin> set xs"
  by (auto simp: dlist_def dest: dll_nonnull)

lemma slist_nonnull: "slist nx xs \<Longrightarrow> NULL \<notin> set xs"
  by (auto simp: slist_def dest: sll_nonnull)

lemma dlist_length: "dlist nx pv xs \<Longrightarrow> length xs < max_steps"
  by (simp add: dlist_distinct dlist_nonnull distinct_addr_length)

lemma slist_length: "slist nx xs \<Longrightarrow> length xs < max_steps"
  by (simp add: slist_distinct slist_nonnull distinct_addr_length)

lemma first_of_eq_NULL: "NULL \<notin> set xs \<Longrightarrow> (first_of xs = NULL) = (xs = [])"
  by (cases xs) auto

lemma last_of_eq_NULL: "NULL \<notin> set xs \<Longrightarrow> (last_of xs = NULL) = (xs = [])"
  by (cases xs rule: rev_cases) auto

lemma last_of_in: "last_of xs \<noteq> NULL \<Longrightarrow> last_of xs \<in> set xs"
  by (cases xs rule: rev_cases) auto

lemma first_of_in: "first_of xs \<noteq> NULL \<Longrightarrow> first_of xs \<in> set xs"
  by (cases xs) auto

text \<open>The links of an element in the middle, and whether an address is in the list at all.\<close>

lemma dlist_at:
  assumes "dlist nx pv (as @ x # bs)"
  shows "pv x = last_of as" and "nx x = first_of bs"
  using assms by (auto simp: dlist_def dll_append last_of_def first_of_def split: list.splits)

lemma slist_at:
  assumes "slist nx (x # xs)"
  shows "nx x = first_of xs" "slist nx xs" "x \<noteq> NULL" "x \<notin> set xs"
  using assms by (auto simp: slist_def first_of_def)

lemma slist_Cons:
  "slist nx (x # xs) \<longleftrightarrow> x \<noteq> NULL \<and> x \<notin> set xs \<and> nx x = first_of xs \<and> slist nx xs"
  by (auto simp: slist_def case_first_of)

lemma slist_ConsI:
  "x \<noteq> NULL \<Longrightarrow> x \<notin> set xs \<Longrightarrow> nx x = first_of xs \<Longrightarrow> slist nx xs \<Longrightarrow> slist nx (x # xs)"
  by (auto simp: slist_def first_of_def)

lemma dlist_isolated_iff:
  assumes "dlist nx pv xs" and "x \<in> set xs"
  shows "nx x = NULL \<and> pv x = NULL \<longleftrightarrow> xs = [x]"
proof -
  obtain as bs where xs: "xs = as @ x # bs"
    using assms(2) by (auto dest: split_list)
  have "NULL \<notin> set as" "NULL \<notin> set bs"
    using dlist_nonnull[OF assms(1)] xs by auto
  then show ?thesis
    using dlist_at[of nx pv as x bs] assms(1) xs
    by (auto simp: first_of_eq_NULL last_of_eq_NULL append_eq_Cons_conv)
qed

subsection \<open>Insertion and removal\<close>

lemma dlist_push_front:
  assumes "dlist nx pv xs" and "x \<noteq> NULL" and "x \<notin> set xs"
    and "\<And>y. y \<in> set xs \<Longrightarrow> nx' y = nx y" and "nx' x = first_of xs"
    and "\<And>y. y \<in> set (tl xs) \<Longrightarrow> pv' y = pv y" and "pv' x = NULL"
    and "xs \<noteq> [] \<Longrightarrow> pv' (hd xs) = x"
  shows "dlist nx' pv' (x # xs)"
proof (cases xs)
  case Nil
  then show ?thesis using assms by (simp add: dlist_def)
next
  case (Cons y ys)
  have "dll nx' pv' y ys NULL = dll nx pv y ys NULL"
    by (rule dll_cong) (use assms Cons in \<open>auto simp: dlist_def\<close>)
  then show ?thesis
    using assms Cons by (auto simp: dlist_def)
qed

lemma dlist_push_back:
  assumes "dlist nx pv xs" and "x \<noteq> NULL" and "x \<notin> set xs"
    and "\<And>y. y \<in> set xs \<Longrightarrow> pv' y = pv y" and "pv' x = last_of xs"
    and "\<And>y. y \<in> set (butlast xs) \<Longrightarrow> nx' y = nx y" and "nx' x = NULL"
    and "xs \<noteq> [] \<Longrightarrow> nx' (last xs) = x"
  shows "dlist nx' pv' (xs @ [x])"
proof (cases xs rule: rev_cases)
  case Nil
  then show ?thesis using assms by (simp add: dlist_def)
next
  case (snoc ys y)
  have "dll nx' pv' NULL ys y = dll nx pv NULL ys y"
    by (rule dll_cong) (use assms snoc in \<open>auto simp: dlist_def\<close>)
  then show ?thesis
    using assms snoc by (auto simp: dlist_def dll_append last_of_def)
qed

lemma slist_push_back:
  assumes "slist nx xs" and "x \<noteq> NULL" and "x \<notin> set xs"
    and "\<And>y. y \<in> set (butlast xs) \<Longrightarrow> nx' y = nx y" and "nx' x = NULL"
    and "xs \<noteq> [] \<Longrightarrow> nx' (last xs) = x"
  shows "slist nx' (xs @ [x])"
  using assms
proof (induction xs)
  case Nil
  then show ?case by (simp add: slist_Cons)
next
  case (Cons y ys)
  show ?case
  proof (cases ys)
    case Nil
    then show ?thesis using Cons.prems by (simp add: slist_Cons)
  next
    case (Cons z zs)
    have "slist nx' (ys @ [x])" using Cons.prems Cons by (intro Cons.IH) (auto simp: slist_Cons)
    then show ?thesis using Cons.prems Cons by (auto simp: slist_Cons)
  qed
qed

lemma dlist_unlink:
  assumes l: "dlist nx pv (as @ x # bs)"
    and nx: "\<And>y. y \<in> set bs \<union> set (butlast as) \<Longrightarrow> nx' y = nx y"
    and pv: "\<And>y. y \<in> set as \<union> set (tl bs) \<Longrightarrow> pv' y = pv y"
    and nx_last: "as \<noteq> [] \<Longrightarrow> nx' (last as) = first_of bs"
    and pv_hd: "bs \<noteq> [] \<Longrightarrow> pv' (hd bs) = last_of as"
  shows "dlist nx' pv' (as @ bs)"
proof -
  have d: "distinct (as @ bs)" and as: "dll nx pv NULL as x" and bs: "dll nx pv x bs NULL"
    using l by (auto simp: dlist_def dll_append)
  have "dll nx' pv' NULL as (first_of bs)"
  proof (cases as rule: rev_cases)
    case (snoc ys y)
    have "dll nx' pv' NULL ys y = dll nx pv NULL ys y"
      by (rule dll_cong) (use nx pv snoc in auto)
    then show ?thesis using as nx_last pv snoc by (auto simp: dll_append)
  qed simp
  moreover have "dll nx' pv' (last_of as) bs NULL"
  proof (cases bs)
    case (Cons y ys)
    have "dll nx' pv' y ys NULL = dll nx pv y ys NULL"
      by (rule dll_cong) (use nx pv Cons in auto)
    then show ?thesis using bs nx pv_hd Cons by auto
  qed simp
  ultimately show ?thesis
    using d by (simp add: dlist_def dll_append last_of_def first_of_def)
qed

end
