(* ===== verification/Kernel_State.thy ===== *)
theory Kernel_State
  imports Linked_Lists
begin

text \<open>
  The data of the scheduler (\<open>include/anscheduler/types.h\<close> and the static variables of the
  C files) and the primitive accesses to it.

  Every C struct is a record. Memory is split by type: one partial map per struct, from the
  addresses of its live objects to their contents, and \<open>raws\<close> for the allocated blocks
  that carry no struct (stacks, and blocks the code has not initialised yet). Reading or
  writing through a pointer that does not point to a live object of the pointer's type (a
  NULL pointer, a freed object) is \<open>Crash (BadPtr p)\<close>.

  The lock words of the structs are not fields here: a spinlock is a name (\<open>lockid\<close>) and the
  state keeps the list of the locks this CPU holds. \<open>anscheduler_lock\<close> on a lock which the
  same CPU holds already spins forever and is \<open>Crash (SelfDeadlock l)\<close>. The lock word itself
  is the subject of theory \<open>Anlock\<close>.

  The state is the view of one CPU: the memory shared by all CPUs and the context of the
  CPU that runs the code. \<open>'v\<close> is the state of the platform's virtual memory subsystem.
\<close>

subsection \<open>Structs\<close>

record anidxset_node_t =
  nd_count :: u64
  nd_indexes :: "nat \<Rightarrow> u64"
  nd_next :: addr

record anidxset_root_t =
  ix_used :: u64
  ix_first :: addr

record task_t =
  t_next :: addr
  t_last :: addr
  t_pid :: u64
  t_uid :: u64
  t_vm :: addr
  t_sockets :: "u8 \<Rightarrow> addr"
  t_firstPending :: addr
  t_firstThread :: addr
  t_stacks :: anidxset_root_t
  t_descriptors :: anidxset_root_t
  t_refCount :: u64
  t_isKilled :: u64
  t_killReason :: u64

text \<open>
  The machine context of a thread. The functions a kernel thread can be started with are
  the three that the sources pass to \<open>anscheduler_loop_push_kernel\<close>.
\<close>

datatype kfun = Free_task_method | Socket_hangup | Async_msg

datatype tstate =
    TsZero
  | TsEntry kfun addr addr \<comment> \<open>function, argument, stack pointer\<close>
  | TsSaved bool \<comment> \<open>saved by \<open>anscheduler_save_return_state\<close>, with the CPU lock flag\<close>

record thread_t =
  th_next :: addr
  th_last :: addr
  th_queueNext :: addr
  th_queueLast :: addr
  th_task :: addr
  th_nextTimestamp :: u64
  th_stack :: u64
  th_isPolling :: bool
  th_state :: tstate

record socket_t =
  sk_connector :: addr
  sk_receiver :: addr
  sk_forConnectorCount :: u64
  sk_forConnectorFirst :: addr
  sk_forConnectorLast :: addr
  sk_forReceiverCount :: u64
  sk_forReceiverFirst :: addr
  sk_forReceiverLast :: addr
  sk_hasBeenConnected :: u64

record socket_desc_t =
  d_next :: addr
  d_last :: addr
  d_pendingNext :: addr
  d_pendingLast :: addr
  d_socket :: addr
  d_descriptor :: u64
  d_isConnector :: u64
  d_task :: addr
  d_isClosed :: u64
  d_refCount :: u64
  d_closeCode :: u64

record socket_msg_t =
  m_next :: addr
  m_type :: u64
  m_len :: u64
  m_message :: "nat \<Rightarrow> u8"

record page_fault_t =
  pf_next :: addr
  pf_task :: addr
  pf_thread :: addr
  pf_ptr :: addr
  pf_flags :: u64

record msginfo_t =
  mi_message :: addr
  mi_descriptor :: addr

datatype lockid =
    LoopLock | PmLock | PpLock | IntdLock | PagerLock
  | VmLock addr | SocketsLock addr | PendingLock addr | ThreadsLock addr
  | StacksLock addr | DescriptorsLock addr | KillLock addr
  | ConnRecLock addr | ForConnectorLock addr | ForReceiverLock addr
  | CloseLock addr

subsection \<open>The state\<close>

record 'v sched =
  \<comment> \<open>memory\<close>
  raws :: "addr \<rightharpoonup> u64" \<comment> \<open>blocks without a struct, with their size\<close>
  tasks :: "addr \<rightharpoonup> task_t"
  threads :: "addr \<rightharpoonup> thread_t"
  sockets :: "addr \<rightharpoonup> socket_t"
  descs :: "addr \<rightharpoonup> socket_desc_t"
  msgs :: "addr \<rightharpoonup> socket_msg_t"
  faults :: "addr \<rightharpoonup> page_fault_t"
  infos :: "addr \<rightharpoonup> msginfo_t"
  nodes :: "addr \<rightharpoonup> anidxset_node_t"
  allocs :: nat \<comment> \<open>calls of \<open>anscheduler_alloc\<close> so far\<close>
  vmst :: 'v
  held :: "lockid list"
  now :: u64 \<comment> \<open>what \<open>anscheduler_get_time\<close> returns\<close>
  \<comment> \<open>the context of this CPU\<close>
  cpu_task :: addr
  cpu_thread :: addr
  cpu_locked :: bool
  cpu_nextInterrupt :: u64
  \<comment> \<open>loop.c\<close>
  queueCount :: u64
  firstThread :: addr
  lastThread :: addr
  \<comment> \<open>pidmap.c\<close>
  pidHashmap :: "u8 \<Rightarrow> addr"
  pidPool :: anidxset_root_t
  ppInitialized :: bool
  \<comment> \<open>interrupts.c\<close>
  interruptThread :: addr
  irqMask :: u32
  \<comment> \<open>paging.c\<close>
  pagerThread :: addr
  firstFault :: addr
  lastFault :: addr

datatype crash =
    BadPtr addr
  | BadFree addr
  | BadAlloc addr
  | BadIndex
  | BadShift
  | SelfDeadlock lockid
  | NotHeld lockid
  | NotCritical
  | NestedCritical
  | Diverges

datatype ctl =
    RunThread addr addr \<comment> \<open>\<open>anscheduler_thread_run(task, thread)\<close>\<close>
  | Idle \<comment> \<open>\<open>while (1) anscheduler_cpu_halt();\<close>\<close>
  | Aborted string \<comment> \<open>\<open>anscheduler_abort(error)\<close>\<close>

type_synonym ('v, 'a) kern = "'v sched \<Rightarrow> (crash, ctl, 'a, 'v sched) outcome"

definition kwhile :: "('x \<Rightarrow> ('v, 'x + 'a) kern) \<Rightarrow> 'x \<Rightarrow> ('v, 'a) kern" where
  "kwhile body x = kloop max_steps Diverges body x"

subsection \<open>Reading and writing through pointers\<close>

definition rd_task :: "addr \<Rightarrow> ('v, task_t) kern" where
  "rd_task p s = (case tasks s p of Some x \<Rightarrow> Ret x s | None \<Rightarrow> Crash (BadPtr p))"

definition rd_thread :: "addr \<Rightarrow> ('v, thread_t) kern" where
  "rd_thread p s = (case threads s p of Some x \<Rightarrow> Ret x s | None \<Rightarrow> Crash (BadPtr p))"

definition rd_socket :: "addr \<Rightarrow> ('v, socket_t) kern" where
  "rd_socket p s = (case sockets s p of Some x \<Rightarrow> Ret x s | None \<Rightarrow> Crash (BadPtr p))"

definition rd_desc :: "addr \<Rightarrow> ('v, socket_desc_t) kern" where
  "rd_desc p s = (case descs s p of Some x \<Rightarrow> Ret x s | None \<Rightarrow> Crash (BadPtr p))"

definition rd_msg :: "addr \<Rightarrow> ('v, socket_msg_t) kern" where
  "rd_msg p s = (case msgs s p of Some x \<Rightarrow> Ret x s | None \<Rightarrow> Crash (BadPtr p))"

definition rd_fault :: "addr \<Rightarrow> ('v, page_fault_t) kern" where
  "rd_fault p s = (case faults s p of Some x \<Rightarrow> Ret x s | None \<Rightarrow> Crash (BadPtr p))"

definition rd_info :: "addr \<Rightarrow> ('v, msginfo_t) kern" where
  "rd_info p s = (case infos s p of Some x \<Rightarrow> Ret x s | None \<Rightarrow> Crash (BadPtr p))"

definition rd_node :: "addr \<Rightarrow> ('v, anidxset_node_t) kern" where
  "rd_node p s = (case nodes s p of Some x \<Rightarrow> Ret x s | None \<Rightarrow> Crash (BadPtr p))"

definition wr_task :: "addr \<Rightarrow> (task_t \<Rightarrow> task_t) \<Rightarrow> ('v, unit) kern" where
  "wr_task p f s = (case tasks s p of
       Some x \<Rightarrow> Ret () (s\<lparr>tasks := (tasks s)(p \<mapsto> f x)\<rparr>) | None \<Rightarrow> Crash (BadPtr p))"

definition wr_thread :: "addr \<Rightarrow> (thread_t \<Rightarrow> thread_t) \<Rightarrow> ('v, unit) kern" where
  "wr_thread p f s = (case threads s p of
       Some x \<Rightarrow> Ret () (s\<lparr>threads := (threads s)(p \<mapsto> f x)\<rparr>) | None \<Rightarrow> Crash (BadPtr p))"

definition wr_socket :: "addr \<Rightarrow> (socket_t \<Rightarrow> socket_t) \<Rightarrow> ('v, unit) kern" where
  "wr_socket p f s = (case sockets s p of
       Some x \<Rightarrow> Ret () (s\<lparr>sockets := (sockets s)(p \<mapsto> f x)\<rparr>) | None \<Rightarrow> Crash (BadPtr p))"

definition wr_desc :: "addr \<Rightarrow> (socket_desc_t \<Rightarrow> socket_desc_t) \<Rightarrow> ('v, unit) kern" where
  "wr_desc p f s = (case descs s p of
       Some x \<Rightarrow> Ret () (s\<lparr>descs := (descs s)(p \<mapsto> f x)\<rparr>) | None \<Rightarrow> Crash (BadPtr p))"

definition wr_msg :: "addr \<Rightarrow> (socket_msg_t \<Rightarrow> socket_msg_t) \<Rightarrow> ('v, unit) kern" where
  "wr_msg p f s = (case msgs s p of
       Some x \<Rightarrow> Ret () (s\<lparr>msgs := (msgs s)(p \<mapsto> f x)\<rparr>) | None \<Rightarrow> Crash (BadPtr p))"

definition wr_fault :: "addr \<Rightarrow> (page_fault_t \<Rightarrow> page_fault_t) \<Rightarrow> ('v, unit) kern" where
  "wr_fault p f s = (case faults s p of
       Some x \<Rightarrow> Ret () (s\<lparr>faults := (faults s)(p \<mapsto> f x)\<rparr>) | None \<Rightarrow> Crash (BadPtr p))"

definition wr_node :: "addr \<Rightarrow> (anidxset_node_t \<Rightarrow> anidxset_node_t) \<Rightarrow> ('v, unit) kern" where
  "wr_node p f s = (case nodes s p of
       Some x \<Rightarrow> Ret () (s\<lparr>nodes := (nodes s)(p \<mapsto> f x)\<rparr>) | None \<Rightarrow> Crash (BadPtr p))"

text \<open>Laying a struct over a block that was just allocated.\<close>

definition new_task :: "addr \<Rightarrow> task_t \<Rightarrow> ('v, unit) kern" where
  "new_task p x s = (case raws s p of
       Some n \<Rightarrow> Ret () (s\<lparr>raws := (raws s)(p := None), tasks := (tasks s)(p \<mapsto> x)\<rparr>)
     | None \<Rightarrow> Crash (BadPtr p))"

definition new_thread :: "addr \<Rightarrow> thread_t \<Rightarrow> ('v, unit) kern" where
  "new_thread p x s = (case raws s p of
       Some n \<Rightarrow> Ret () (s\<lparr>raws := (raws s)(p := None), threads := (threads s)(p \<mapsto> x)\<rparr>)
     | None \<Rightarrow> Crash (BadPtr p))"

definition new_socket :: "addr \<Rightarrow> socket_t \<Rightarrow> ('v, unit) kern" where
  "new_socket p x s = (case raws s p of
       Some n \<Rightarrow> Ret () (s\<lparr>raws := (raws s)(p := None), sockets := (sockets s)(p \<mapsto> x)\<rparr>)
     | None \<Rightarrow> Crash (BadPtr p))"

definition new_desc :: "addr \<Rightarrow> socket_desc_t \<Rightarrow> ('v, unit) kern" where
  "new_desc p x s = (case raws s p of
       Some n \<Rightarrow> Ret () (s\<lparr>raws := (raws s)(p := None), descs := (descs s)(p \<mapsto> x)\<rparr>)
     | None \<Rightarrow> Crash (BadPtr p))"

definition new_msg :: "addr \<Rightarrow> socket_msg_t \<Rightarrow> ('v, unit) kern" where
  "new_msg p x s = (case raws s p of
       Some n \<Rightarrow> Ret () (s\<lparr>raws := (raws s)(p := None), msgs := (msgs s)(p \<mapsto> x)\<rparr>)
     | None \<Rightarrow> Crash (BadPtr p))"

definition new_fault :: "addr \<Rightarrow> page_fault_t \<Rightarrow> ('v, unit) kern" where
  "new_fault p x s = (case raws s p of
       Some n \<Rightarrow> Ret () (s\<lparr>raws := (raws s)(p := None), faults := (faults s)(p \<mapsto> x)\<rparr>)
     | None \<Rightarrow> Crash (BadPtr p))"

definition new_info :: "addr \<Rightarrow> msginfo_t \<Rightarrow> ('v, unit) kern" where
  "new_info p x s = (case raws s p of
       Some n \<Rightarrow> Ret () (s\<lparr>raws := (raws s)(p := None), infos := (infos s)(p \<mapsto> x)\<rparr>)
     | None \<Rightarrow> Crash (BadPtr p))"

definition new_node :: "addr \<Rightarrow> anidxset_node_t \<Rightarrow> ('v, unit) kern" where
  "new_node p x s = (case raws s p of
       Some n \<Rightarrow> Ret () (s\<lparr>raws := (raws s)(p := None), nodes := (nodes s)(p \<mapsto> x)\<rparr>)
     | None \<Rightarrow> Crash (BadPtr p))"

text \<open>The all-zero structs that \<open>anscheduler_zero\<close> leaves.\<close>

definition zero_root :: anidxset_root_t where
  "zero_root = \<lparr>ix_used = 0, ix_first = NULL\<rparr>"

definition zero_task :: task_t where
  "zero_task = \<lparr>t_next = NULL, t_last = NULL, t_pid = 0, t_uid = 0, t_vm = NULL,
     t_sockets = (\<lambda>_. NULL), t_firstPending = NULL, t_firstThread = NULL,
     t_stacks = zero_root, t_descriptors = zero_root, t_refCount = 0, t_isKilled = 0,
     t_killReason = 0\<rparr>"

definition zero_thread :: thread_t where
  "zero_thread = \<lparr>th_next = NULL, th_last = NULL, th_queueNext = NULL, th_queueLast = NULL,
     th_task = NULL, th_nextTimestamp = 0, th_stack = 0, th_isPolling = False,
     th_state = TsZero\<rparr>"

definition zero_socket :: socket_t where
  "zero_socket = \<lparr>sk_connector = NULL, sk_receiver = NULL, sk_forConnectorCount = 0,
     sk_forConnectorFirst = NULL, sk_forConnectorLast = NULL, sk_forReceiverCount = 0,
     sk_forReceiverFirst = NULL, sk_forReceiverLast = NULL, sk_hasBeenConnected = 0\<rparr>"

definition zero_desc :: socket_desc_t where
  "zero_desc = \<lparr>d_next = NULL, d_last = NULL, d_pendingNext = NULL, d_pendingLast = NULL,
     d_socket = NULL, d_descriptor = 0, d_isConnector = 0, d_task = NULL, d_isClosed = 0,
     d_refCount = 0, d_closeCode = 0\<rparr>"

subsection \<open>Live addresses and locks\<close>

definition live :: "'v sched \<Rightarrow> addr \<Rightarrow> bool" where
  "live s p \<longleftrightarrow> raws s p \<noteq> None \<or> tasks s p \<noteq> None \<or> threads s p \<noteq> None \<or> sockets s p \<noteq> None
     \<or> descs s p \<noteq> None \<or> msgs s p \<noteq> None \<or> faults s p \<noteq> None \<or> infos s p \<noteq> None \<or> nodes s p \<noteq> None"

text \<open>A lock inside a struct exists while the struct does.\<close>

fun lock_live :: "'v sched \<Rightarrow> lockid \<Rightarrow> bool" where
  "lock_live s LoopLock = True"
| "lock_live s PmLock = True"
| "lock_live s PpLock = True"
| "lock_live s IntdLock = True"
| "lock_live s PagerLock = True"
| "lock_live s (VmLock p) = (tasks s p \<noteq> None)"
| "lock_live s (SocketsLock p) = (tasks s p \<noteq> None)"
| "lock_live s (PendingLock p) = (tasks s p \<noteq> None)"
| "lock_live s (ThreadsLock p) = (tasks s p \<noteq> None)"
| "lock_live s (StacksLock p) = (tasks s p \<noteq> None)"
| "lock_live s (DescriptorsLock p) = (tasks s p \<noteq> None)"
| "lock_live s (KillLock p) = (tasks s p \<noteq> None)"
| "lock_live s (ConnRecLock p) = (sockets s p \<noteq> None)"
| "lock_live s (ForConnectorLock p) = (sockets s p \<noteq> None)"
| "lock_live s (ForReceiverLock p) = (sockets s p \<noteq> None)"
| "lock_live s (CloseLock p) = (descs s p \<noteq> None)"

text \<open>The struct that holds a lock, for the crash of locking a dead one.\<close>

fun lock_addr :: "lockid \<Rightarrow> addr" where
  "lock_addr (VmLock p) = p"
| "lock_addr (SocketsLock p) = p"
| "lock_addr (PendingLock p) = p"
| "lock_addr (ThreadsLock p) = p"
| "lock_addr (StacksLock p) = p"
| "lock_addr (DescriptorsLock p) = p"
| "lock_addr (KillLock p) = p"
| "lock_addr (ConnRecLock p) = p"
| "lock_addr (ForConnectorLock p) = p"
| "lock_addr (ForReceiverLock p) = p"
| "lock_addr (CloseLock p) = p"
| "lock_addr _ = NULL"

subsection \<open>Symbolic execution of the primitives\<close>

text \<open>A loop that is left in its first round, and one that never is.\<close>

lemma kwhile_done: "body x s = Ret (Inr y) s' \<Longrightarrow> kwhile body x s = Ret y s'"
  unfolding kwhile_def max_steps_Suc by (rule kloop_done)

lemma kwhile_stuck: "body x s = Ret (Inl x) s \<Longrightarrow> kwhile body x s = Crash Diverges"
  unfolding kwhile_def by (rule kloop_stuck)

lemma rd_task_apply [kern]: "tasks s p = Some x \<Longrightarrow> rd_task p s = Ret x s"
  by (simp add: rd_task_def)

lemma rd_thread_apply [kern]: "threads s p = Some x \<Longrightarrow> rd_thread p s = Ret x s"
  by (simp add: rd_thread_def)

lemma rd_socket_apply [kern]: "sockets s p = Some x \<Longrightarrow> rd_socket p s = Ret x s"
  by (simp add: rd_socket_def)

lemma rd_desc_apply [kern]: "descs s p = Some x \<Longrightarrow> rd_desc p s = Ret x s"
  by (simp add: rd_desc_def)

lemma rd_msg_apply [kern]: "msgs s p = Some x \<Longrightarrow> rd_msg p s = Ret x s"
  by (simp add: rd_msg_def)

lemma rd_fault_apply [kern]: "faults s p = Some x \<Longrightarrow> rd_fault p s = Ret x s"
  by (simp add: rd_fault_def)

lemma rd_info_apply [kern]: "infos s p = Some x \<Longrightarrow> rd_info p s = Ret x s"
  by (simp add: rd_info_def)

lemma rd_node_apply [kern]: "nodes s p = Some x \<Longrightarrow> rd_node p s = Ret x s"
  by (simp add: rd_node_def)

lemma wr_task_apply [kern]:
  "tasks s p = Some x \<Longrightarrow> wr_task p f s = Ret () (s\<lparr>tasks := (tasks s)(p \<mapsto> f x)\<rparr>)"
  by (simp add: wr_task_def)

lemma wr_thread_apply [kern]:
  "threads s p = Some x \<Longrightarrow> wr_thread p f s = Ret () (s\<lparr>threads := (threads s)(p \<mapsto> f x)\<rparr>)"
  by (simp add: wr_thread_def)

lemma wr_socket_apply [kern]:
  "sockets s p = Some x \<Longrightarrow> wr_socket p f s = Ret () (s\<lparr>sockets := (sockets s)(p \<mapsto> f x)\<rparr>)"
  by (simp add: wr_socket_def)

lemma wr_desc_apply [kern]:
  "descs s p = Some x \<Longrightarrow> wr_desc p f s = Ret () (s\<lparr>descs := (descs s)(p \<mapsto> f x)\<rparr>)"
  by (simp add: wr_desc_def)

lemma wr_msg_apply [kern]:
  "msgs s p = Some x \<Longrightarrow> wr_msg p f s = Ret () (s\<lparr>msgs := (msgs s)(p \<mapsto> f x)\<rparr>)"
  by (simp add: wr_msg_def)

lemma wr_fault_apply [kern]:
  "faults s p = Some x \<Longrightarrow> wr_fault p f s = Ret () (s\<lparr>faults := (faults s)(p \<mapsto> f x)\<rparr>)"
  by (simp add: wr_fault_def)

lemma wr_node_apply [kern]:
  "nodes s p = Some x \<Longrightarrow> wr_node p f s = Ret () (s\<lparr>nodes := (nodes s)(p \<mapsto> f x)\<rparr>)"
  by (simp add: wr_node_def)

lemma new_task_apply [kern]:
  "raws s p = Some n \<Longrightarrow>
     new_task p x s = Ret () (s\<lparr>raws := (raws s)(p := None), tasks := (tasks s)(p \<mapsto> x)\<rparr>)"
  by (simp add: new_task_def)

lemma new_thread_apply [kern]:
  "raws s p = Some n \<Longrightarrow>
     new_thread p x s = Ret () (s\<lparr>raws := (raws s)(p := None), threads := (threads s)(p \<mapsto> x)\<rparr>)"
  by (simp add: new_thread_def)

lemma new_socket_apply [kern]:
  "raws s p = Some n \<Longrightarrow>
     new_socket p x s = Ret () (s\<lparr>raws := (raws s)(p := None), sockets := (sockets s)(p \<mapsto> x)\<rparr>)"
  by (simp add: new_socket_def)

lemma new_desc_apply [kern]:
  "raws s p = Some n \<Longrightarrow>
     new_desc p x s = Ret () (s\<lparr>raws := (raws s)(p := None), descs := (descs s)(p \<mapsto> x)\<rparr>)"
  by (simp add: new_desc_def)

lemma new_msg_apply [kern]:
  "raws s p = Some n \<Longrightarrow>
     new_msg p x s = Ret () (s\<lparr>raws := (raws s)(p := None), msgs := (msgs s)(p \<mapsto> x)\<rparr>)"
  by (simp add: new_msg_def)

lemma new_fault_apply [kern]:
  "raws s p = Some n \<Longrightarrow>
     new_fault p x s = Ret () (s\<lparr>raws := (raws s)(p := None), faults := (faults s)(p \<mapsto> x)\<rparr>)"
  by (simp add: new_fault_def)

lemma new_info_apply [kern]:
  "raws s p = Some n \<Longrightarrow>
     new_info p x s = Ret () (s\<lparr>raws := (raws s)(p := None), infos := (infos s)(p \<mapsto> x)\<rparr>)"
  by (simp add: new_info_def)

lemma new_node_apply [kern]:
  "raws s p = Some n \<Longrightarrow>
     new_node p x s = Ret () (s\<lparr>raws := (raws s)(p := None), nodes := (nodes s)(p \<mapsto> x)\<rparr>)"
  by (simp add: new_node_def)

text \<open>
  Updates of different fields commute. Used as rewrite rules, these equations bring the
  memory updates of a state into the order of the fields.
\<close>

lemma sched_order:
  "s\<lparr>tasks := a1, raws := b1\<rparr> = s\<lparr>raws := b1, tasks := a1\<rparr>"
  "s\<lparr>threads := a2, raws := b2\<rparr> = s\<lparr>raws := b2, threads := a2\<rparr>"
  "s\<lparr>sockets := a3, raws := b3\<rparr> = s\<lparr>raws := b3, sockets := a3\<rparr>"
  "s\<lparr>descs := a4, raws := b4\<rparr> = s\<lparr>raws := b4, descs := a4\<rparr>"
  "s\<lparr>msgs := a5, raws := b5\<rparr> = s\<lparr>raws := b5, msgs := a5\<rparr>"
  "s\<lparr>faults := a6, raws := b6\<rparr> = s\<lparr>raws := b6, faults := a6\<rparr>"
  "s\<lparr>infos := a7, raws := b7\<rparr> = s\<lparr>raws := b7, infos := a7\<rparr>"
  "s\<lparr>nodes := a8, raws := b8\<rparr> = s\<lparr>raws := b8, nodes := a8\<rparr>"
  "s\<lparr>allocs := a9, raws := b9\<rparr> = s\<lparr>raws := b9, allocs := a9\<rparr>"
  "s\<lparr>vmst := a10, raws := b10\<rparr> = s\<lparr>raws := b10, vmst := a10\<rparr>"
  "s\<lparr>held := a11, raws := b11\<rparr> = s\<lparr>raws := b11, held := a11\<rparr>"
  "s\<lparr>threads := a12, tasks := b12\<rparr> = s\<lparr>tasks := b12, threads := a12\<rparr>"
  "s\<lparr>sockets := a13, tasks := b13\<rparr> = s\<lparr>tasks := b13, sockets := a13\<rparr>"
  "s\<lparr>descs := a14, tasks := b14\<rparr> = s\<lparr>tasks := b14, descs := a14\<rparr>"
  "s\<lparr>msgs := a15, tasks := b15\<rparr> = s\<lparr>tasks := b15, msgs := a15\<rparr>"
  "s\<lparr>faults := a16, tasks := b16\<rparr> = s\<lparr>tasks := b16, faults := a16\<rparr>"
  "s\<lparr>infos := a17, tasks := b17\<rparr> = s\<lparr>tasks := b17, infos := a17\<rparr>"
  "s\<lparr>nodes := a18, tasks := b18\<rparr> = s\<lparr>tasks := b18, nodes := a18\<rparr>"
  "s\<lparr>allocs := a19, tasks := b19\<rparr> = s\<lparr>tasks := b19, allocs := a19\<rparr>"
  "s\<lparr>vmst := a20, tasks := b20\<rparr> = s\<lparr>tasks := b20, vmst := a20\<rparr>"
  "s\<lparr>held := a21, tasks := b21\<rparr> = s\<lparr>tasks := b21, held := a21\<rparr>"
  "s\<lparr>sockets := a22, threads := b22\<rparr> = s\<lparr>threads := b22, sockets := a22\<rparr>"
  "s\<lparr>descs := a23, threads := b23\<rparr> = s\<lparr>threads := b23, descs := a23\<rparr>"
  "s\<lparr>msgs := a24, threads := b24\<rparr> = s\<lparr>threads := b24, msgs := a24\<rparr>"
  "s\<lparr>faults := a25, threads := b25\<rparr> = s\<lparr>threads := b25, faults := a25\<rparr>"
  "s\<lparr>infos := a26, threads := b26\<rparr> = s\<lparr>threads := b26, infos := a26\<rparr>"
  "s\<lparr>nodes := a27, threads := b27\<rparr> = s\<lparr>threads := b27, nodes := a27\<rparr>"
  "s\<lparr>allocs := a28, threads := b28\<rparr> = s\<lparr>threads := b28, allocs := a28\<rparr>"
  "s\<lparr>vmst := a29, threads := b29\<rparr> = s\<lparr>threads := b29, vmst := a29\<rparr>"
  "s\<lparr>held := a30, threads := b30\<rparr> = s\<lparr>threads := b30, held := a30\<rparr>"
  "s\<lparr>descs := a31, sockets := b31\<rparr> = s\<lparr>sockets := b31, descs := a31\<rparr>"
  "s\<lparr>msgs := a32, sockets := b32\<rparr> = s\<lparr>sockets := b32, msgs := a32\<rparr>"
  "s\<lparr>faults := a33, sockets := b33\<rparr> = s\<lparr>sockets := b33, faults := a33\<rparr>"
  "s\<lparr>infos := a34, sockets := b34\<rparr> = s\<lparr>sockets := b34, infos := a34\<rparr>"
  "s\<lparr>nodes := a35, sockets := b35\<rparr> = s\<lparr>sockets := b35, nodes := a35\<rparr>"
  "s\<lparr>allocs := a36, sockets := b36\<rparr> = s\<lparr>sockets := b36, allocs := a36\<rparr>"
  "s\<lparr>vmst := a37, sockets := b37\<rparr> = s\<lparr>sockets := b37, vmst := a37\<rparr>"
  "s\<lparr>held := a38, sockets := b38\<rparr> = s\<lparr>sockets := b38, held := a38\<rparr>"
  "s\<lparr>msgs := a39, descs := b39\<rparr> = s\<lparr>descs := b39, msgs := a39\<rparr>"
  "s\<lparr>faults := a40, descs := b40\<rparr> = s\<lparr>descs := b40, faults := a40\<rparr>"
  "s\<lparr>infos := a41, descs := b41\<rparr> = s\<lparr>descs := b41, infos := a41\<rparr>"
  "s\<lparr>nodes := a42, descs := b42\<rparr> = s\<lparr>descs := b42, nodes := a42\<rparr>"
  "s\<lparr>allocs := a43, descs := b43\<rparr> = s\<lparr>descs := b43, allocs := a43\<rparr>"
  "s\<lparr>vmst := a44, descs := b44\<rparr> = s\<lparr>descs := b44, vmst := a44\<rparr>"
  "s\<lparr>held := a45, descs := b45\<rparr> = s\<lparr>descs := b45, held := a45\<rparr>"
  "s\<lparr>faults := a46, msgs := b46\<rparr> = s\<lparr>msgs := b46, faults := a46\<rparr>"
  "s\<lparr>infos := a47, msgs := b47\<rparr> = s\<lparr>msgs := b47, infos := a47\<rparr>"
  "s\<lparr>nodes := a48, msgs := b48\<rparr> = s\<lparr>msgs := b48, nodes := a48\<rparr>"
  "s\<lparr>allocs := a49, msgs := b49\<rparr> = s\<lparr>msgs := b49, allocs := a49\<rparr>"
  "s\<lparr>vmst := a50, msgs := b50\<rparr> = s\<lparr>msgs := b50, vmst := a50\<rparr>"
  "s\<lparr>held := a51, msgs := b51\<rparr> = s\<lparr>msgs := b51, held := a51\<rparr>"
  "s\<lparr>infos := a52, faults := b52\<rparr> = s\<lparr>faults := b52, infos := a52\<rparr>"
  "s\<lparr>nodes := a53, faults := b53\<rparr> = s\<lparr>faults := b53, nodes := a53\<rparr>"
  "s\<lparr>allocs := a54, faults := b54\<rparr> = s\<lparr>faults := b54, allocs := a54\<rparr>"
  "s\<lparr>vmst := a55, faults := b55\<rparr> = s\<lparr>faults := b55, vmst := a55\<rparr>"
  "s\<lparr>held := a56, faults := b56\<rparr> = s\<lparr>faults := b56, held := a56\<rparr>"
  "s\<lparr>nodes := a57, infos := b57\<rparr> = s\<lparr>infos := b57, nodes := a57\<rparr>"
  "s\<lparr>allocs := a58, infos := b58\<rparr> = s\<lparr>infos := b58, allocs := a58\<rparr>"
  "s\<lparr>vmst := a59, infos := b59\<rparr> = s\<lparr>infos := b59, vmst := a59\<rparr>"
  "s\<lparr>held := a60, infos := b60\<rparr> = s\<lparr>infos := b60, held := a60\<rparr>"
  "s\<lparr>allocs := a61, nodes := b61\<rparr> = s\<lparr>nodes := b61, allocs := a61\<rparr>"
  "s\<lparr>vmst := a62, nodes := b62\<rparr> = s\<lparr>nodes := b62, vmst := a62\<rparr>"
  "s\<lparr>held := a63, nodes := b63\<rparr> = s\<lparr>nodes := b63, held := a63\<rparr>"
  "s\<lparr>vmst := a64, allocs := b64\<rparr> = s\<lparr>allocs := b64, vmst := a64\<rparr>"
  "s\<lparr>held := a65, allocs := b65\<rparr> = s\<lparr>allocs := b65, held := a65\<rparr>"
  "s\<lparr>held := a66, vmst := b66\<rparr> = s\<lparr>vmst := b66, held := a66\<rparr>"
  by (rule sched.equality; simp)+

text \<open>The same for the context of the CPU, which comes after the memory.\<close>

lemma cpu_order:
  "s\<lparr>cpu_task := a1, raws := b1\<rparr> = s\<lparr>raws := b1, cpu_task := a1\<rparr>"
  "s\<lparr>cpu_task := a2, tasks := b2\<rparr> = s\<lparr>tasks := b2, cpu_task := a2\<rparr>"
  "s\<lparr>cpu_task := a3, threads := b3\<rparr> = s\<lparr>threads := b3, cpu_task := a3\<rparr>"
  "s\<lparr>cpu_task := a4, sockets := b4\<rparr> = s\<lparr>sockets := b4, cpu_task := a4\<rparr>"
  "s\<lparr>cpu_task := a5, descs := b5\<rparr> = s\<lparr>descs := b5, cpu_task := a5\<rparr>"
  "s\<lparr>cpu_task := a6, msgs := b6\<rparr> = s\<lparr>msgs := b6, cpu_task := a6\<rparr>"
  "s\<lparr>cpu_task := a7, faults := b7\<rparr> = s\<lparr>faults := b7, cpu_task := a7\<rparr>"
  "s\<lparr>cpu_task := a8, infos := b8\<rparr> = s\<lparr>infos := b8, cpu_task := a8\<rparr>"
  "s\<lparr>cpu_task := a9, nodes := b9\<rparr> = s\<lparr>nodes := b9, cpu_task := a9\<rparr>"
  "s\<lparr>cpu_task := a10, allocs := b10\<rparr> = s\<lparr>allocs := b10, cpu_task := a10\<rparr>"
  "s\<lparr>cpu_task := a11, vmst := b11\<rparr> = s\<lparr>vmst := b11, cpu_task := a11\<rparr>"
  "s\<lparr>cpu_task := a12, held := b12\<rparr> = s\<lparr>held := b12, cpu_task := a12\<rparr>"
  "s\<lparr>cpu_thread := a13, raws := b13\<rparr> = s\<lparr>raws := b13, cpu_thread := a13\<rparr>"
  "s\<lparr>cpu_thread := a14, tasks := b14\<rparr> = s\<lparr>tasks := b14, cpu_thread := a14\<rparr>"
  "s\<lparr>cpu_thread := a15, threads := b15\<rparr> = s\<lparr>threads := b15, cpu_thread := a15\<rparr>"
  "s\<lparr>cpu_thread := a16, sockets := b16\<rparr> = s\<lparr>sockets := b16, cpu_thread := a16\<rparr>"
  "s\<lparr>cpu_thread := a17, descs := b17\<rparr> = s\<lparr>descs := b17, cpu_thread := a17\<rparr>"
  "s\<lparr>cpu_thread := a18, msgs := b18\<rparr> = s\<lparr>msgs := b18, cpu_thread := a18\<rparr>"
  "s\<lparr>cpu_thread := a19, faults := b19\<rparr> = s\<lparr>faults := b19, cpu_thread := a19\<rparr>"
  "s\<lparr>cpu_thread := a20, infos := b20\<rparr> = s\<lparr>infos := b20, cpu_thread := a20\<rparr>"
  "s\<lparr>cpu_thread := a21, nodes := b21\<rparr> = s\<lparr>nodes := b21, cpu_thread := a21\<rparr>"
  "s\<lparr>cpu_thread := a22, allocs := b22\<rparr> = s\<lparr>allocs := b22, cpu_thread := a22\<rparr>"
  "s\<lparr>cpu_thread := a23, vmst := b23\<rparr> = s\<lparr>vmst := b23, cpu_thread := a23\<rparr>"
  "s\<lparr>cpu_thread := a24, held := b24\<rparr> = s\<lparr>held := b24, cpu_thread := a24\<rparr>"
  "s\<lparr>cpu_locked := a25, raws := b25\<rparr> = s\<lparr>raws := b25, cpu_locked := a25\<rparr>"
  "s\<lparr>cpu_locked := a26, tasks := b26\<rparr> = s\<lparr>tasks := b26, cpu_locked := a26\<rparr>"
  "s\<lparr>cpu_locked := a27, threads := b27\<rparr> = s\<lparr>threads := b27, cpu_locked := a27\<rparr>"
  "s\<lparr>cpu_locked := a28, sockets := b28\<rparr> = s\<lparr>sockets := b28, cpu_locked := a28\<rparr>"
  "s\<lparr>cpu_locked := a29, descs := b29\<rparr> = s\<lparr>descs := b29, cpu_locked := a29\<rparr>"
  "s\<lparr>cpu_locked := a30, msgs := b30\<rparr> = s\<lparr>msgs := b30, cpu_locked := a30\<rparr>"
  "s\<lparr>cpu_locked := a31, faults := b31\<rparr> = s\<lparr>faults := b31, cpu_locked := a31\<rparr>"
  "s\<lparr>cpu_locked := a32, infos := b32\<rparr> = s\<lparr>infos := b32, cpu_locked := a32\<rparr>"
  "s\<lparr>cpu_locked := a33, nodes := b33\<rparr> = s\<lparr>nodes := b33, cpu_locked := a33\<rparr>"
  "s\<lparr>cpu_locked := a34, allocs := b34\<rparr> = s\<lparr>allocs := b34, cpu_locked := a34\<rparr>"
  "s\<lparr>cpu_locked := a35, vmst := b35\<rparr> = s\<lparr>vmst := b35, cpu_locked := a35\<rparr>"
  "s\<lparr>cpu_locked := a36, held := b36\<rparr> = s\<lparr>held := b36, cpu_locked := a36\<rparr>"
  "s\<lparr>cpu_thread := a37, cpu_task := b37\<rparr> = s\<lparr>cpu_task := b37, cpu_thread := a37\<rparr>"
  "s\<lparr>cpu_locked := a38, cpu_task := b38\<rparr> = s\<lparr>cpu_task := b38, cpu_locked := a38\<rparr>"
  "s\<lparr>cpu_locked := a39, cpu_thread := b39\<rparr> = s\<lparr>cpu_thread := b39, cpu_locked := a39\<rparr>"
  by (rule sched.equality; simp)+

end
