(* ===== verification/Platform.thy ===== *)
theory Platform
  imports Kernel_State
begin

text \<open>
  The platform interface of \<open>include/anscheduler/functions.h\<close>.

  What a port of the scheduler supplies is a parameter of the models: the record \<open>'v plat\<close>
  holds the allocator's choice of addresses, the contents of fresh memory, the sizes of the
  two platform structs, the length of a second, and the virtual memory functions over a
  state \<open>'v\<close>. What the header says of the allocator and of the virtual memory is the
  locales \<open>allocator\<close> and \<open>vm_platform\<close>.

  The functions that only handle the CPU's own context are modelled as the reference port
  under \<open>test/env\<close> implements them. Two of its checks are part of the model: memory may be
  allocated and freed in critical sections only, and critical sections do not nest.
  \<open>anscheduler_cpu_stack_run(arg, fn)\<close> switches stacks and calls \<open>fn(arg)\<close>, so it is just
  the call. \<open>anscheduler_free\<close> is one function per struct, since memory is split by type.
  The notifications \<open>anscheduler_cpu_notify_invlpg\<close> and \<open>anscheduler_cpu_notify_dead\<close> only
  concern other CPUs and do not change the state.
\<close>

record 'v plat =
  pf_alloc :: "nat \<Rightarrow> u64 \<Rightarrow> (addr \<Rightarrow> bool) \<Rightarrow> addr" \<comment> \<open>call number, size, live addresses\<close>
  pf_junk :: "addr \<Rightarrow> u64" \<comment> \<open>contents of memory nobody has written\<close>
  pf_sizeof_state :: u64
  pf_sizeof_ui :: u64
  pf_second_length :: u64
  pf_vm_physical :: "u64 \<Rightarrow> u64"
  pf_vm_virtual :: "u64 \<Rightarrow> u64"
  pf_vm_root_alloc :: "'v \<Rightarrow> addr \<times> 'v"
  pf_vm_map :: "'v \<Rightarrow> addr \<Rightarrow> u64 \<Rightarrow> u64 \<Rightarrow> u16 \<Rightarrow> bool \<times> 'v"
  pf_vm_unmap :: "'v \<Rightarrow> addr \<Rightarrow> u64 \<Rightarrow> 'v"
  pf_vm_lookup :: "'v \<Rightarrow> addr \<Rightarrow> u64 \<Rightarrow> u64 \<times> u16"
  pf_vm_root_free :: "'v \<Rightarrow> addr \<Rightarrow> 'v"
  pf_vm_root_free_async :: "'v \<Rightarrow> addr \<Rightarrow> 'v"
  pf_task_cleanup :: "'v \<Rightarrow> addr \<Rightarrow> 'v"

subsection \<open>Constants\<close>

definition PAGE_FLAG_PRESENT :: u16 where "PAGE_FLAG_PRESENT = 1"
definition PAGE_FLAG_WRITE :: u16 where "PAGE_FLAG_WRITE = 2"
definition PAGE_FLAG_USER :: u16 where "PAGE_FLAG_USER = 4"
definition PAGE_FLAG_GLOBAL :: u16 where "PAGE_FLAG_GLOBAL = 0x100"
definition PAGE_FLAG_UNALLOC :: u16 where "PAGE_FLAG_UNALLOC = 0x200"

text \<open>The sizes of the packed structs; two of them contain a struct of the platform.\<close>

definition sizeof_task_t :: "'v plat \<Rightarrow> u64" where "sizeof_task_t P = 0x148 + pf_sizeof_ui P"
definition sizeof_thread_t :: "'v plat \<Rightarrow> u64" where "sizeof_thread_t P = 0x40 + pf_sizeof_state P"
definition sizeof_socket_t :: u64 where "sizeof_socket_t = 0x60"
definition sizeof_socket_desc_t :: u64 where "sizeof_socket_desc_t = 0x60"
definition sizeof_socket_msg_t :: u64 where "sizeof_socket_msg_t = 0x1000"
definition sizeof_page_fault_t :: u64 where "sizeof_page_fault_t = 0x28"
definition sizeof_msginfo_t :: u64 where "sizeof_msginfo_t = 0x10"

subsection \<open>Memory\<close>

definition anscheduler_alloc :: "'v plat \<Rightarrow> u64 \<Rightarrow> ('v, addr) kern" where
  "anscheduler_alloc P sz s =
     (if \<not> cpu_locked s then Crash NotCritical
      else let p = pf_alloc P (allocs s) sz (live s); s1 = s\<lparr>allocs := Suc (allocs s)\<rparr>
           in if p = NULL then Ret NULL s1
              else if live s p then Crash (BadAlloc p)
              else Ret p (s1\<lparr>raws := (raws s)(p \<mapsto> sz)\<rparr>))"

definition anscheduler_free_raw :: "addr \<Rightarrow> ('v, unit) kern" where
  "anscheduler_free_raw p s =
     (if \<not> cpu_locked s then Crash NotCritical
      else if raws s p = None then Crash (BadFree p)
      else Ret () (s\<lparr>raws := (raws s)(p := None)\<rparr>))"

definition anscheduler_free_task :: "addr \<Rightarrow> ('v, unit) kern" where
  "anscheduler_free_task p s =
     (if \<not> cpu_locked s then Crash NotCritical
      else if tasks s p = None then Crash (BadFree p)
      else Ret () (s\<lparr>tasks := (tasks s)(p := None)\<rparr>))"

definition anscheduler_free_thread :: "addr \<Rightarrow> ('v, unit) kern" where
  "anscheduler_free_thread p s =
     (if \<not> cpu_locked s then Crash NotCritical
      else if threads s p = None then Crash (BadFree p)
      else Ret () (s\<lparr>threads := (threads s)(p := None)\<rparr>))"

definition anscheduler_free_socket :: "addr \<Rightarrow> ('v, unit) kern" where
  "anscheduler_free_socket p s =
     (if \<not> cpu_locked s then Crash NotCritical
      else if sockets s p = None then Crash (BadFree p)
      else Ret () (s\<lparr>sockets := (sockets s)(p := None)\<rparr>))"

definition anscheduler_free_desc :: "addr \<Rightarrow> ('v, unit) kern" where
  "anscheduler_free_desc p s =
     (if \<not> cpu_locked s then Crash NotCritical
      else if descs s p = None then Crash (BadFree p)
      else Ret () (s\<lparr>descs := (descs s)(p := None)\<rparr>))"

definition anscheduler_free_msg :: "addr \<Rightarrow> ('v, unit) kern" where
  "anscheduler_free_msg p s =
     (if \<not> cpu_locked s then Crash NotCritical
      else if msgs s p = None then Crash (BadFree p)
      else Ret () (s\<lparr>msgs := (msgs s)(p := None)\<rparr>))"

definition anscheduler_free_info :: "addr \<Rightarrow> ('v, unit) kern" where
  "anscheduler_free_info p s =
     (if \<not> cpu_locked s then Crash NotCritical
      else if infos s p = None then Crash (BadFree p)
      else Ret () (s\<lparr>infos := (infos s)(p := None)\<rparr>))"

definition anscheduler_free_node :: "addr \<Rightarrow> ('v, unit) kern" where
  "anscheduler_free_node p s =
     (if \<not> cpu_locked s then Crash NotCritical
      else if nodes s p = None then Crash (BadFree p)
      else Ret () (s\<lparr>nodes := (nodes s)(p := None)\<rparr>))"

subsection \<open>Locks, aborts and the CPU context\<close>

definition anscheduler_lock :: "lockid \<Rightarrow> ('v, unit) kern" where
  "anscheduler_lock l s =
     (if \<not> lock_live s l then Crash (BadPtr (lock_addr l))
      else if l \<in> set (held s) then Crash (SelfDeadlock l)
      else Ret () (s\<lparr>held := l # held s\<rparr>))"

definition anscheduler_unlock :: "lockid \<Rightarrow> ('v, unit) kern" where
  "anscheduler_unlock l s =
     (if \<not> lock_live s l then Crash (BadPtr (lock_addr l))
      else if l \<notin> set (held s) then Crash (NotHeld l)
      else Ret () (s\<lparr>held := remove1 l (held s)\<rparr>))"

definition anscheduler_abort :: "string \<Rightarrow> ('v, 'a) kern" where
  "anscheduler_abort error = stop (Aborted error)"

definition anscheduler_cpu_lock :: "('v, unit) kern" where
  "anscheduler_cpu_lock s =
     (if cpu_locked s then Crash NestedCritical else Ret () (s\<lparr>cpu_locked := True\<rparr>))"

definition anscheduler_cpu_unlock :: "('v, unit) kern" where
  "anscheduler_cpu_unlock s =
     (if \<not> cpu_locked s then Crash NotCritical else Ret () (s\<lparr>cpu_locked := False\<rparr>))"

definition anscheduler_cpu_get_task :: "('v, addr) kern" where
  "anscheduler_cpu_get_task = gets cpu_task"

definition anscheduler_cpu_get_thread :: "('v, addr) kern" where
  "anscheduler_cpu_get_thread = gets cpu_thread"

definition anscheduler_cpu_set_task :: "addr \<Rightarrow> ('v, unit) kern" where
  "anscheduler_cpu_set_task task = modify (\<lambda>s. s\<lparr>cpu_task := task\<rparr>)"

definition anscheduler_cpu_set_thread :: "addr \<Rightarrow> ('v, unit) kern" where
  "anscheduler_cpu_set_thread thread = modify (\<lambda>s. s\<lparr>cpu_thread := thread\<rparr>)"

definition anscheduler_timer_set :: "u32 \<Rightarrow> ('v, unit) kern" where
  "anscheduler_timer_set ticks = modify (\<lambda>s. s\<lparr>cpu_nextInterrupt := now s + ucast ticks\<rparr>)"

definition anscheduler_get_time :: "('v, u64) kern" where
  "anscheduler_get_time = gets now"

text \<open>Whether a thread resumes inside a critical section is part of its saved context.\<close>

fun cpuLocked :: "tstate \<Rightarrow> bool" where
  "cpuLocked TsZero = False"
| "cpuLocked (TsEntry f a st) = False"
| "cpuLocked (TsSaved b) = b"

definition anscheduler_thread_run :: "addr \<Rightarrow> addr \<Rightarrow> ('v, 'a) kern" where
  "anscheduler_thread_run task thread =
     bnd (rd_thread thread) (\<lambda>th.
     bnd (modify (\<lambda>s. s\<lparr>cpu_locked := cpuLocked (th_state th)\<rparr>)) (\<lambda>_.
     stop (RunThread task thread)))"

definition anscheduler_set_state :: "addr \<Rightarrow> addr \<Rightarrow> kfun \<Rightarrow> addr \<Rightarrow> ('v, unit) kern" where
  "anscheduler_set_state thread stack ip arg1 =
     wr_thread thread (\<lambda>t. t\<lparr>th_state := TsEntry ip arg1 stack\<rparr>)"

definition anscheduler_save_return_state ::
  "addr \<Rightarrow> addr \<Rightarrow> (addr \<Rightarrow> ('v, 'a) kern) \<Rightarrow> ('v, 'a) kern" where
  "anscheduler_save_return_state thread arg fn =
     bnd (gets cpu_locked) (\<lambda>locked.
     bnd (wr_thread thread (\<lambda>t. t\<lparr>th_state := TsSaved locked\<rparr>)) (\<lambda>_.
     fn arg))"

definition anscheduler_or_32 :: "u32 \<Rightarrow> ('v, unit) kern" where
  "anscheduler_or_32 flag = modify (\<lambda>s. s\<lparr>irqMask := or (irqMask s) flag\<rparr>)"

subsection \<open>Virtual memory\<close>

definition anscheduler_vm_root_alloc :: "'v plat \<Rightarrow> ('v, addr) kern" where
  "anscheduler_vm_root_alloc P s =
     (let (r, v) = pf_vm_root_alloc P (vmst s) in Ret r (s\<lparr>vmst := v\<rparr>))"

definition anscheduler_vm_map :: "'v plat \<Rightarrow> addr \<Rightarrow> u64 \<Rightarrow> u64 \<Rightarrow> u16 \<Rightarrow> ('v, bool) kern" where
  "anscheduler_vm_map P root vpage dpage flags s =
     (let (ok, v) = pf_vm_map P (vmst s) root vpage dpage flags in Ret ok (s\<lparr>vmst := v\<rparr>))"

definition anscheduler_vm_unmap :: "'v plat \<Rightarrow> addr \<Rightarrow> u64 \<Rightarrow> ('v, unit) kern" where
  "anscheduler_vm_unmap P root vpage = modify (\<lambda>s. s\<lparr>vmst := pf_vm_unmap P (vmst s) root vpage\<rparr>)"

definition anscheduler_vm_lookup :: "'v plat \<Rightarrow> addr \<Rightarrow> u64 \<Rightarrow> ('v, u64 \<times> u16) kern" where
  "anscheduler_vm_lookup P root vpage = gets (\<lambda>s. pf_vm_lookup P (vmst s) root vpage)"

definition anscheduler_vm_root_free :: "'v plat \<Rightarrow> addr \<Rightarrow> ('v, unit) kern" where
  "anscheduler_vm_root_free P root = modify (\<lambda>s. s\<lparr>vmst := pf_vm_root_free P (vmst s) root\<rparr>)"

definition anscheduler_vm_root_free_async :: "'v plat \<Rightarrow> addr \<Rightarrow> ('v, unit) kern" where
  "anscheduler_vm_root_free_async P root =
     modify (\<lambda>s. s\<lparr>vmst := pf_vm_root_free_async P (vmst s) root\<rparr>)"

definition anscheduler_task_cleanup :: "'v plat \<Rightarrow> addr \<Rightarrow> ('v, unit) kern" where
  "anscheduler_task_cleanup P task = modify (\<lambda>s. s\<lparr>vmst := pf_task_cleanup P (vmst s) task\<rparr>)"

subsection \<open>A concrete platform\<close>

text \<open>
  A small platform to evaluate the models on: blocks of at most a page at the addresses
  0x1000, 0x2000, ..., an identity translation between physical and virtual pages, and
  address spaces that are plain functions from pages to entries.
\<close>

type_synonym flatvm = "addr \<times> (addr \<Rightarrow> u64 \<Rightarrow> u64 \<times> u16)"

definition flat_alloc :: "nat \<Rightarrow> u64 \<Rightarrow> (addr \<Rightarrow> bool) \<Rightarrow> addr" where
  "flat_alloc n sz lv =
     (let p = 0x1000 * (of_nat n + 1)
      in if 0x1000 < sz \<or> p = NULL \<or> lv p then NULL else p)"

definition flat_plat :: "flatvm plat" where
  "flat_plat = \<lparr>pf_alloc = flat_alloc, pf_junk = (\<lambda>_. 0xAAAA), pf_sizeof_state = 0x98,
     pf_sizeof_ui = 8, pf_second_length = 1000000,
     pf_vm_physical = (\<lambda>x. x), pf_vm_virtual = (\<lambda>x. x),
     pf_vm_root_alloc = (\<lambda>(r, m). if r < r + 0x1000
        then (r + 0x1000, (r + 0x1000, m(r + 0x1000 := (\<lambda>_. (0, 0))))) else (NULL, (r, m))),
     pf_vm_map = (\<lambda>(r, m) root p d f. (True, (r, m(root := (m root)(p := (d, f)))))),
     pf_vm_unmap = (\<lambda>(r, m) root p. (r, m(root := (m root)(p := (0, 0))))),
     pf_vm_lookup = (\<lambda>(r, m) root p. m root p),
     pf_vm_root_free = (\<lambda>v root. v), pf_vm_root_free_async = (\<lambda>v root. v),
     pf_task_cleanup = (\<lambda>v task. v)\<rparr>"

text \<open>The state at power on, before any CPU has run.\<close>

definition boot :: "'v \<Rightarrow> 'v sched" where
  "boot v = \<lparr>raws = Map.empty, tasks = Map.empty, threads = Map.empty, sockets = Map.empty,
     descs = Map.empty, msgs = Map.empty, faults = Map.empty, infos = Map.empty,
     nodes = Map.empty, allocs = 0, vmst = v, held = [], now = 0, cpu_task = NULL,
     cpu_thread = NULL, cpu_locked = True, cpu_nextInterrupt = - 1, queueCount = 0,
     firstThread = NULL, lastThread = NULL, pidHashmap = (\<lambda>_. NULL), pidPool = zero_root,
     ppInitialized = False, interruptThread = NULL, irqMask = 0, pagerThread = NULL,
     firstFault = NULL, lastFault = NULL\<rparr>"

definition flat_boot :: "flatvm sched" where
  "flat_boot = boot (0, \<lambda>_ _. (0, 0))"

subsection \<open>Contracts\<close>

text \<open>An allocated address is non-null (else the allocation failed) and was not live.\<close>

locale allocator =
  fixes P :: "'v plat"
  assumes alloc_fresh: "pf_alloc P n sz lv \<noteq> NULL \<Longrightarrow> \<not> lv (pf_alloc P n sz lv)"
begin

text \<open>An allocation in a critical section fails cleanly or yields a fresh raw block.\<close>

lemma alloc_result:
  assumes "cpu_locked s"
  shows "anscheduler_alloc P sz s = Ret NULL (s\<lparr>allocs := Suc (allocs s)\<rparr>) \<or>
    (\<exists>p. p \<noteq> NULL \<and> \<not> live s p \<and>
       anscheduler_alloc P sz s = Ret p (s\<lparr>allocs := Suc (allocs s), raws := (raws s)(p \<mapsto> sz)\<rparr>))"
  using assms alloc_fresh[of "allocs s" sz "live s"]
  by (cases "pf_alloc P (allocs s) sz (live s) = NULL") (simp_all add: anscheduler_alloc_def Let_def)

text \<open>The same with the block named: it is the one that the platform hands out.\<close>

lemma alloc_value:
  assumes "cpu_locked s" and "pf_alloc P (allocs s) sz (live s) = p"
  shows "anscheduler_alloc P sz s = (if p = NULL then Ret NULL (s\<lparr>allocs := Suc (allocs s)\<rparr>)
      else Ret p (s\<lparr>allocs := Suc (allocs s), raws := (raws s)(p \<mapsto> sz)\<rparr>))"
    and "p \<noteq> NULL \<Longrightarrow> \<not> live s p"
  using assms alloc_fresh[of "allocs s" sz "live s"] by (auto simp: anscheduler_alloc_def Let_def)

end

interpretation flat: allocator flat_plat
  by unfold_locales (simp add: flat_plat_def flat_alloc_def Let_def split: if_splits)

text \<open>Addresses are aligned to pages, so that a block can be found again from its page number.\<close>

locale page_allocator = allocator +
  assumes alloc_aligned: "take_bit 12 (pf_alloc P n sz lv) = 0"
begin

lemma alloc_page_result:
  assumes "cpu_locked s"
  shows "anscheduler_alloc P sz s = Ret NULL (s\<lparr>allocs := Suc (allocs s)\<rparr>) \<or>
    (\<exists>p. p \<noteq> NULL \<and> \<not> live s p \<and> push_bit 12 (drop_bit 12 p) = p \<and>
       anscheduler_alloc P sz s = Ret p (s\<lparr>allocs := Suc (allocs s), raws := (raws s)(p \<mapsto> sz)\<rparr>))"
proof -
  let ?p = "pf_alloc P (allocs s) sz (live s)"
  have "push_bit 12 (drop_bit 12 ?p) + take_bit 12 ?p = ?p" by (rule bits_ident)
  then have "push_bit 12 (drop_bit 12 ?p) = ?p" by (simp only: alloc_aligned add_0_right)
  then show ?thesis
    using assms alloc_fresh[of "allocs s" sz "live s"]
    by (cases "?p = NULL") (simp_all add: anscheduler_alloc_def Let_def)
qed

end

lemma take_bit_page: "take_bit 12 (0x1000 * x :: addr) = 0"
proof -
  have "0x1000 * x = push_bit 12 x" by (simp add: push_bit_eq_mult mult.commute)
  then show ?thesis by (simp add: take_bit_push_bit)
qed

interpretation flat_pages: page_allocator flat_plat
  by unfold_locales (simp add: flat_plat_def flat_alloc_def Let_def take_bit_page del: distrib_left_numeral)

lemma drop_bit_page_less: "drop_bit 12 (p :: addr) < 2 ^ 52"
proof -
  have "unat (drop_bit 12 p) = unat p div 2 ^ 12" by (simp add: drop_bit_eq_div unat_div)
  also have "\<dots> < 2 ^ 52" using unsigned_less[where ?'a = nat, of p] by simp
  finally show ?thesis by (simp add: word_less_nat_alt)
qed

text \<open>
  What the header says of the virtual memory. \<open>spaces v R\<close>: in the state \<open>v\<close> the roots in \<open>R\<close> are
  those of distinct address spaces. Mapping a page sets its entry if it succeeds, and never
  changes another page or another address space; it fails only for lack of memory for a page table,
  so never on a page that is mapped. A page that is not mapped has the entry 0 and no flags. An entry holds a 52-bit page number and 12 bits of flags, and \<open>vp\<close> are the pages that the
  platform can translate.
\<close>

locale vm_platform =
  fixes P :: "'v plat" and spaces :: "'v \<Rightarrow> addr set \<Rightarrow> bool" and vp :: "u64 \<Rightarrow> bool"
  assumes map_spaces: "spaces v R \<Longrightarrow> root \<in> R \<Longrightarrow> vp p \<Longrightarrow> spaces (snd (pf_vm_map P v root p d f)) R"
    and map_lookup: "spaces v R \<Longrightarrow> root \<in> R \<Longrightarrow> root' \<in> R \<Longrightarrow> vp p \<Longrightarrow> vp q \<Longrightarrow> d < 2 ^ 52 \<Longrightarrow> f < 0x1000 \<Longrightarrow>
      pf_vm_lookup P (snd (pf_vm_map P v root p d f)) root' q =
        (if root' = root \<and> q = p \<and> fst (pf_vm_map P v root p d f) then (d, f) else pf_vm_lookup P v root' q)"
    and remap: "spaces v R \<Longrightarrow> root \<in> R \<Longrightarrow> vp p \<Longrightarrow> pf_vm_lookup P v root p \<noteq> (0, 0) \<Longrightarrow> fst (pf_vm_map P v root p d f)"
    and unmap_spaces: "spaces v R \<Longrightarrow> root \<in> R \<Longrightarrow> vp p \<Longrightarrow> spaces (pf_vm_unmap P v root p) R"
    and unmap_lookup: "spaces v R \<Longrightarrow> root \<in> R \<Longrightarrow> root' \<in> R \<Longrightarrow> vp p \<Longrightarrow> vp q \<Longrightarrow>
      pf_vm_lookup P (pf_vm_unmap P v root p) root' q =
        (if root' = root \<and> q = p then (0, 0) else pf_vm_lookup P v root' q)"
    and root_alloc: "spaces v R \<Longrightarrow> pf_vm_root_alloc P v = (r, v') \<Longrightarrow>
      (r \<noteq> NULL \<longrightarrow> r \<notin> R \<and> spaces v' (insert r R) \<and> (\<forall>q. vp q \<longrightarrow> pf_vm_lookup P v' r q = (0, 0))) \<and>
      spaces v' R \<and> (\<forall>root \<in> R. \<forall>q. vp q \<longrightarrow> pf_vm_lookup P v' root q = pf_vm_lookup P v root q)"
    and physical_page: "x < 2 ^ 52 \<Longrightarrow> pf_vm_physical P x < 2 ^ 52"
    and virtual_physical: "x < 2 ^ 52 \<Longrightarrow> pf_vm_virtual P (pf_vm_physical P x) = x"
begin

lemma physical_block [simp]: "pf_vm_physical P (drop_bit 12 (p :: addr)) < 2 ^ 52"
  by (rule physical_page[OF drop_bit_page_less])

text \<open>Looking a page up after it was mapped, and after another one was.\<close>

lemma lookup_mapped:
  assumes "spaces v R" and "root \<in> R" and "vp p" and "d < 2 ^ 52" and "f < 0x1000"
    and "pf_vm_map P v root p d f = (True, v')"
  shows "pf_vm_lookup P v' root p = (d, f)"
  using map_lookup[OF assms(1,2,2,3,3,4,5)] assms(6) by simp

lemma lookup_other:
  assumes "spaces v R" and "root \<in> R" and "root' \<in> R" and "vp p" and "vp q" and "d < 2 ^ 52" and "f < 0x1000"
    and "root' \<noteq> root \<or> q \<noteq> p"
  shows "pf_vm_lookup P (snd (pf_vm_map P v root p d f)) root' q = pf_vm_lookup P v root' q"
  using map_lookup[OF assms(1-7)] assms(8) by auto

end

text \<open>
  A platform that can run tasks: it translates every page up to the data page of a task
  (\<open>ANSCHEDULER_TASK_DATA_PAGE\<close>), so the first 4MB, the code and all the stacks.
\<close>

locale task_spaces = vm_platform +
  assumes vp_task: "p < 0x10200000 \<Longrightarrow> vp p"

definition flat_spaces :: "flatvm \<Rightarrow> addr set \<Rightarrow> bool" where
  "flat_spaces v R \<longleftrightarrow> (\<forall>r \<in> R. r \<le> fst v)"

interpretation flatvm: vm_platform flat_plat flat_spaces "\<lambda>_. True"
proof
  fix v :: flatvm and R r v'
  assume "flat_spaces v R" "pf_vm_root_alloc flat_plat v = (r, v')"
  then show "(r \<noteq> NULL \<longrightarrow> r \<notin> R \<and> flat_spaces v' (insert r R) \<and>
        (\<forall>q. True \<longrightarrow> pf_vm_lookup flat_plat v' r q = (0, 0))) \<and>
      flat_spaces v' R \<and> (\<forall>root \<in> R. \<forall>q. True \<longrightarrow> pf_vm_lookup flat_plat v' root q = pf_vm_lookup flat_plat v root q)"
    by (cases v) (auto simp: flat_plat_def flat_spaces_def split: if_splits dest: leD)
qed (auto simp: flat_plat_def flat_spaces_def)

interpretation flat_tasks: task_spaces flat_plat flat_spaces "\<lambda>_. True"
  by unfold_locales simp

subsection \<open>Symbolic execution of the platform functions\<close>

lemma anscheduler_lock_apply [kern]:
  "lock_live s l \<Longrightarrow> l \<notin> set (held s) \<Longrightarrow> anscheduler_lock l s = Ret () (s\<lparr>held := l # held s\<rparr>)"
  by (simp add: anscheduler_lock_def)

lemma anscheduler_unlock_apply [kern]:
  "lock_live s l \<Longrightarrow> l \<in> set (held s) \<Longrightarrow>
     anscheduler_unlock l s = Ret () (s\<lparr>held := remove1 l (held s)\<rparr>)"
  by (simp add: anscheduler_unlock_def)

lemma anscheduler_lock_held:
  "lock_live s l \<Longrightarrow> l \<in> set (held s) \<Longrightarrow> anscheduler_lock l s = Crash (SelfDeadlock l)"
  by (simp add: anscheduler_lock_def)

lemma anscheduler_cpu_lock_apply [kern]:
  "\<not> cpu_locked s \<Longrightarrow> anscheduler_cpu_lock s = Ret () (s\<lparr>cpu_locked := True\<rparr>)"
  by (simp add: anscheduler_cpu_lock_def)

lemma anscheduler_cpu_unlock_apply [kern]:
  "cpu_locked s \<Longrightarrow> anscheduler_cpu_unlock s = Ret () (s\<lparr>cpu_locked := False\<rparr>)"
  by (simp add: anscheduler_cpu_unlock_def)

lemma anscheduler_thread_run_apply [kern]:
  "threads s thread = Some th \<Longrightarrow>
     anscheduler_thread_run task thread s =
       Stop (RunThread task thread) (s\<lparr>cpu_locked := cpuLocked (th_state th)\<rparr>)"
  by (simp add: anscheduler_thread_run_def kern)

lemma anscheduler_save_return_state_apply [kern]:
  "threads s thread = Some th \<Longrightarrow>
     anscheduler_save_return_state thread arg fn s =
       fn arg (s\<lparr>threads := (threads s)(thread \<mapsto> th\<lparr>th_state := TsSaved (cpu_locked s)\<rparr>)\<rparr>)"
  by (simp add: anscheduler_save_return_state_def kern)

lemma anscheduler_set_state_apply [kern]:
  "threads s thread = Some th \<Longrightarrow>
     anscheduler_set_state thread stack ip arg1 s =
       Ret () (s\<lparr>threads := (threads s)(thread \<mapsto> th\<lparr>th_state := TsEntry ip arg1 stack\<rparr>)\<rparr>)"
  by (simp add: anscheduler_set_state_def kern)

lemma anscheduler_free_raw_apply [kern]:
  "cpu_locked s \<Longrightarrow> raws s p = Some n \<Longrightarrow>
     anscheduler_free_raw p s = Ret () (s\<lparr>raws := (raws s)(p := None)\<rparr>)"
  by (simp add: anscheduler_free_raw_def)

lemma anscheduler_free_task_apply [kern]:
  "cpu_locked s \<Longrightarrow> tasks s p = Some x \<Longrightarrow>
     anscheduler_free_task p s = Ret () (s\<lparr>tasks := (tasks s)(p := None)\<rparr>)"
  by (simp add: anscheduler_free_task_def)

lemma anscheduler_free_thread_apply [kern]:
  "cpu_locked s \<Longrightarrow> threads s p = Some x \<Longrightarrow>
     anscheduler_free_thread p s = Ret () (s\<lparr>threads := (threads s)(p := None)\<rparr>)"
  by (simp add: anscheduler_free_thread_def)

lemma anscheduler_free_socket_apply [kern]:
  "cpu_locked s \<Longrightarrow> sockets s p = Some x \<Longrightarrow>
     anscheduler_free_socket p s = Ret () (s\<lparr>sockets := (sockets s)(p := None)\<rparr>)"
  by (simp add: anscheduler_free_socket_def)

lemma anscheduler_free_desc_apply [kern]:
  "cpu_locked s \<Longrightarrow> descs s p = Some x \<Longrightarrow>
     anscheduler_free_desc p s = Ret () (s\<lparr>descs := (descs s)(p := None)\<rparr>)"
  by (simp add: anscheduler_free_desc_def)

lemma anscheduler_free_msg_apply [kern]:
  "cpu_locked s \<Longrightarrow> msgs s p = Some x \<Longrightarrow>
     anscheduler_free_msg p s = Ret () (s\<lparr>msgs := (msgs s)(p := None)\<rparr>)"
  by (simp add: anscheduler_free_msg_def)

lemma anscheduler_free_info_apply [kern]:
  "cpu_locked s \<Longrightarrow> infos s p = Some x \<Longrightarrow>
     anscheduler_free_info p s = Ret () (s\<lparr>infos := (infos s)(p := None)\<rparr>)"
  by (simp add: anscheduler_free_info_def)

lemma anscheduler_free_node_apply [kern]:
  "cpu_locked s \<Longrightarrow> nodes s p = Some x \<Longrightarrow>
     anscheduler_free_node p s = Ret () (s\<lparr>nodes := (nodes s)(p := None)\<rparr>)"
  by (simp add: anscheduler_free_node_def)

lemmas cpu_simps [kern] =
  anscheduler_cpu_get_task_def anscheduler_cpu_get_thread_def
  anscheduler_cpu_set_task_def anscheduler_cpu_set_thread_def
  anscheduler_timer_set_def anscheduler_get_time_def anscheduler_or_32_def
  anscheduler_abort_def

lemmas vm_simps [kern] =
  anscheduler_vm_unmap_def anscheduler_vm_lookup_def anscheduler_vm_root_free_def
  anscheduler_vm_root_free_async_def anscheduler_task_cleanup_def

lemma live_simps [simp]:
  "live (s\<lparr>held := a\<rparr>) = live s" "live (s\<lparr>allocs := b\<rparr>) = live s"
  "live (s\<lparr>vmst := c\<rparr>) = live s" "live (s\<lparr>cpu_locked := d\<rparr>) = live s"
  "live (s\<lparr>cpu_task := e\<rparr>) = live s" "live (s\<lparr>cpu_thread := f\<rparr>) = live s"
  "live (s\<lparr>irqMask := g\<rparr>) = live s" "live (s\<lparr>pidPool := h\<rparr>) = live s"
  by (simp_all add: live_def fun_eq_iff)

lemma live_raws [simp]:
  "live (s\<lparr>raws := (raws s)(p \<mapsto> n)\<rparr>) q \<longleftrightarrow> q = p \<or> live s q"
  "live (s\<lparr>allocs := k, raws := (raws s)(p \<mapsto> n)\<rparr>) q \<longleftrightarrow> q = p \<or> live s q"
  by (cases "q = p"; simp add: live_def)+

text \<open>Writing to an object does not change which addresses are live.\<close>

lemma live_update [simp]:
  "tasks s p = Some x0 \<Longrightarrow> live (s\<lparr>tasks := (tasks s)(p \<mapsto> y0)\<rparr>) = live s"
  "threads s p = Some x1 \<Longrightarrow> live (s\<lparr>threads := (threads s)(p \<mapsto> y1)\<rparr>) = live s"
  "sockets s p = Some x2 \<Longrightarrow> live (s\<lparr>sockets := (sockets s)(p \<mapsto> y2)\<rparr>) = live s"
  "descs s p = Some x3 \<Longrightarrow> live (s\<lparr>descs := (descs s)(p \<mapsto> y3)\<rparr>) = live s"
  "msgs s p = Some x4 \<Longrightarrow> live (s\<lparr>msgs := (msgs s)(p \<mapsto> y4)\<rparr>) = live s"
  "faults s p = Some x5 \<Longrightarrow> live (s\<lparr>faults := (faults s)(p \<mapsto> y5)\<rparr>) = live s"
  "nodes s p = Some x6 \<Longrightarrow> live (s\<lparr>nodes := (nodes s)(p \<mapsto> y6)\<rparr>) = live s"
  by (rule ext, rename_tac q, case_tac "q = p"; simp add: live_def)+

lemma not_live [simp]:
  assumes "\<not> live s p"
  shows "raws s p = None" "tasks s p = None" "threads s p = None" "sockets s p = None"
    "descs s p = None" "msgs s p = None" "faults s p = None" "infos s p = None" "nodes s p = None"
  using assms by (auto simp: live_def)

end
