(* ===== verification/Step_Rules.thy ===== *)
theory Step_Rules
  imports Platform
begin

text \<open>
  Relations that every run of a piece of code respects. \<open>steps R m\<close> says that the state in which \<open>m\<close> returns or
  gives up control is related by \<open>R\<close> to the state in which it started. If \<open>R\<close> is a preorder, this follows from
  the structure of the code: the locale \<open>step_logic\<close> has the rules for the control structure. It is
  interpreted for the relations of this development: what calm code leaves alone (theory \<open>Wakeup_Rules\<close>),
  the ranges of the fields (theory \<open>Field_Ranges\<close>) and the ends of a socket (theory \<open>Socket_Hangup\<close>).
\<close>

definition steps :: "('v sched \<Rightarrow> 'v sched \<Rightarrow> bool) \<Rightarrow> ('v, 'a) kern \<Rightarrow> bool" where
  "steps R m \<longleftrightarrow> (\<forall>s. case m s of Ret x s' \<Rightarrow> R s s' | Stop c s' \<Rightarrow> R s s' | Crash e \<Rightarrow> True)"

lemma stepsD:
  assumes "steps R m"
  shows "m s = Ret x s' \<Longrightarrow> R s s'" and "m s = Stop c s' \<Longrightarrow> R s s'"
proof -
  have *: "case m s of Ret x s' \<Rightarrow> R s s' | Stop c s' \<Rightarrow> R s s' | Crash e \<Rightarrow> True"
    using assms unfolding steps_def by (elim allE)
  show "m s = Ret x s' \<Longrightarrow> R s s'" and "m s = Stop c s' \<Longrightarrow> R s s'" using * by simp_all
qed

locale step_logic =
  fixes R :: "'v sched \<Rightarrow> 'v sched \<Rightarrow> bool"
  assumes step_refl: "R s s"
    and step_trans: "R s s1 \<Longrightarrow> R s1 s2 \<Longrightarrow> R s s2"
begin

lemma seq:
  assumes "steps R m" and "\<And>x. steps R (f x)"
  shows "steps R (bnd m f)"
  unfolding steps_def
proof
  fix s
  show "case bnd m f s of Ret x s' \<Rightarrow> R s s' | Stop c s' \<Rightarrow> R s s' | Crash e \<Rightarrow> True"
  proof (cases "m s")
    case (Ret x s1)
    note s1 = stepsD(1)[OF assms(1) Ret]
    show ?thesis
      using Ret step_trans[OF s1] stepsD[OF assms(2)[of x], of s1] by (cases "f x s1") (simp_all add: bnd_def)
  next
    case (Stop c s1)
    then show ?thesis using stepsD(2)[OF assms(1) Stop] by (simp add: bnd_def)
  qed (simp add: bnd_def)
qed

lemma basic:
  "steps R (ret x)" "steps R skip" "steps R (gets f)" "steps R (crash e)" "steps R (stop c)" "steps R (anscheduler_abort a)"
  by (simp_all add: steps_def ret_def skip_def gets_def crash_def stop_def anscheduler_abort_def step_refl)

lemma branch: "steps R m \<Longrightarrow> steps R m' \<Longrightarrow> steps R (if b then m else m')"
  by simp

lemma pair: "(\<And>x y. steps R (f x y)) \<Longrightarrow> steps R (case p of (x, y) \<Rightarrow> f x y)"
  by (cases p) simp

lemma guard: "steps R m \<Longrightarrow> steps R (cond b m)"
  by (simp add: cond_def basic)

lemma assign: "(\<And>s. R s (f s)) \<Longrightarrow> steps R (modify f)"
  by (simp add: steps_def modify_def)

lemma loop_n: "(\<And>x. steps R (body x)) \<Longrightarrow> steps R (kloop n d body x)"
proof (induction n arbitrary: x)
  case 0
  show ?case by (simp add: kloop.simps basic)
next
  case (Suc n)
  show ?case
    unfolding kloop.simps
  proof (rule seq[OF Suc.prems])
    fix r
    show "steps R (case r of Inl x' \<Rightarrow> kloop n d body x' | Inr y \<Rightarrow> ret y)"
      using Suc by (cases r) (simp_all add: basic)
  qed
qed

lemma loop: "(\<And>x. steps R (body x)) \<Longrightarrow> steps R (kwhile body x)"
  unfolding kwhile_def by (rule loop_n)

lemma for_loop:
  assumes "\<And>i. steps R (f i)"
  shows "steps R (kfor i n f)"
proof (induction "n - i" arbitrary: i)
  case 0
  then show ?case by (subst kfor.simps) (simp add: basic)
next
  case (Suc k)
  then show ?case by (subst kfor.simps) (auto intro!: seq[OF assms] basic)
qed

lemma reads:
  "steps R (rd_task p)" "steps R (rd_thread p)" "steps R (rd_socket p)" "steps R (rd_desc p)" "steps R (rd_msg p)"
  "steps R (rd_fault p)" "steps R (rd_info p)" "steps R (rd_node p)"
  by (simp_all add: steps_def rd_task_def rd_thread_def rd_socket_def rd_desc_def rd_msg_def rd_fault_def
      rd_info_def rd_node_def step_refl split: option.split)

end

end
