(* ===== verification/Wakeup_Rules.thy ===== *)
theory Wakeup_Rules
  imports Step_Rules
begin

text \<open>
  Rules for the threads that wait for events. The interrupt thread and the pager poll: they sleep until
  \<open>isPolling\<close> is cleared and they are run again. Nearly all code leaves the two threads, the pending interrupts and
  the first fault alone and makes no thread poll: it is \<open>calm\<close>. The rules show this for a function by the structure of its
  code. The few functions that handle events are proved with triples on \<open>no_lost_wakeup\<close>.
\<close>

named_theorems calm_rules \<open>code that does not touch the event threads\<close>

definition polls :: "'v sched \<Rightarrow> addr \<Rightarrow> bool" where
  "polls s p \<longleftrightarrow> (\<exists>t. threads s p = Some t \<and> th_isPolling t)"

definition calm_step :: "'v sched \<Rightarrow> 'v sched \<Rightarrow> bool" where
  "calm_step s s' \<longleftrightarrow> interruptThread s' = interruptThread s \<and> irqMask s' = irqMask s \<and>
     pagerThread s' = pagerThread s \<and> firstFault s' = firstFault s \<and> (\<forall>p. polls s' p \<longrightarrow> polls s p)"

abbreviation calm :: "('v, 'a) kern \<Rightarrow> bool" where
  "calm m \<equiv> steps calm_step m"

text \<open>
  No wake-up is lost: a polling interrupt thread has no interrupt to read, a polling pager has no fault to
  serve, and the two are different threads.
\<close>

definition no_lost_wakeup :: "'v sched \<Rightarrow> bool" where
  "no_lost_wakeup s \<longleftrightarrow>
     (interruptThread s \<noteq> NULL \<longrightarrow> polls s (interruptThread s) \<longrightarrow> irqMask s = 0) \<and>
     (pagerThread s \<noteq> NULL \<longrightarrow> polls s (pagerThread s) \<longrightarrow> firstFault s = NULL) \<and>
     (interruptThread s = pagerThread s \<longrightarrow> pagerThread s = NULL)"

lemma calm_step_refl [simp]: "calm_step s s"
  by (simp add: calm_step_def)

lemma calm_step_trans: "calm_step s s1 \<Longrightarrow> calm_step s1 s2 \<Longrightarrow> calm_step s s2"
  by (simp add: calm_step_def)

lemma calm_keeps: "calm_step s s' \<Longrightarrow> no_lost_wakeup s \<Longrightarrow> no_lost_wakeup s'"
  by (auto simp: calm_step_def no_lost_wakeup_def)

subsection \<open>Control structure\<close>

interpretation calm: step_logic calm_step
  by unfold_locales (simp, rule calm_step_trans)

lemmas calm_bnd = calm.seq
lemmas calm_basic = calm.basic
lemmas calm_control [calm_rules] = calm.seq calm.basic calm.branch calm.pair calm.guard calm.assign calm.loop calm.for_loop calm.reads

subsection \<open>Primitives\<close>

text \<open>Updates of everything but the threads and the event variables.\<close>

lemma polls_cong: "threads s' = threads s \<Longrightarrow> polls s' = polls s"
  by (simp add: polls_def fun_eq_iff)

lemma calm_step_fields:
  assumes "threads s' = threads s" and "interruptThread s' = interruptThread s" and "irqMask s' = irqMask s"
    and "pagerThread s' = pagerThread s" and "firstFault s' = firstFault s"
  shows "calm_step s s'"
  using assms polls_cong[OF assms(1)] by (simp add: calm_step_def)

lemma calm_writes [calm_rules]:
  "calm (wr_task p f0)" "calm (wr_socket p f2)" "calm (wr_desc p f3)" "calm (wr_msg p f4)" "calm (wr_fault p f5)" "calm (wr_node p f6)"
  "calm (new_task p x0)" "calm (new_socket p x2)" "calm (new_desc p x3)" "calm (new_msg p x4)" "calm (new_fault p x5)"
  "calm (new_info p x6)" "calm (new_node p x7)"
  by (simp_all add: steps_def wr_task_def wr_socket_def wr_desc_def wr_msg_def wr_fault_def wr_node_def
      new_task_def new_socket_def new_desc_def new_msg_def new_fault_def new_info_def new_node_def calm_step_fields
      split: option.split)

lemma calm_step_thread:
  assumes "threads s p = Some t" and "th_isPolling t' \<Longrightarrow> th_isPolling t"
  shows "calm_step s (s\<lparr>threads := (threads s)(p \<mapsto> t')\<rparr>)"
  using assms by (auto simp: calm_step_def polls_def split: if_split_asm)

lemma calm_wr_thread [calm_rules]: "(\<And>t. th_isPolling (f t) \<Longrightarrow> th_isPolling t) \<Longrightarrow> calm (wr_thread p f)"
  by (simp add: steps_def wr_thread_def calm_step_thread split: option.split)

lemma calm_new_thread [calm_rules]: "\<not> th_isPolling x \<Longrightarrow> calm (new_thread p x)"
  by (auto simp: steps_def new_thread_def calm_step_def polls_def split: option.split if_split_asm)

lemma zero_thread_rests [simp]: "\<not> th_isPolling zero_thread"
  by (simp add: zero_thread_def)

lemma calm_free_thread [calm_rules]: "calm (anscheduler_free_thread p)"
  by (auto simp: steps_def anscheduler_free_thread_def calm_step_def polls_def split: if_split_asm)

lemma calm_memory [calm_rules]:
  "calm (anscheduler_alloc P sz)" "calm (anscheduler_free_raw p)" "calm (anscheduler_free_task p)" "calm (anscheduler_free_socket p)"
  "calm (anscheduler_free_desc p)" "calm (anscheduler_free_msg p)" "calm (anscheduler_free_info p)" "calm (anscheduler_free_node p)"
  by (simp_all add: steps_def anscheduler_alloc_def anscheduler_free_raw_def anscheduler_free_task_def
      anscheduler_free_socket_def anscheduler_free_desc_def anscheduler_free_msg_def
      anscheduler_free_info_def anscheduler_free_node_def calm_step_fields Let_def)

lemma calm_cpu [calm_rules]:
  "calm anscheduler_cpu_lock" "calm anscheduler_cpu_unlock" "calm anscheduler_cpu_get_task" "calm anscheduler_cpu_get_thread"
  "calm (anscheduler_cpu_set_task p)" "calm (anscheduler_cpu_set_thread p)" "calm (anscheduler_timer_set n)"
  "calm anscheduler_get_time" "calm (anscheduler_lock l)" "calm (anscheduler_unlock l)"
  by (simp_all add: steps_def anscheduler_cpu_lock_def anscheduler_cpu_unlock_def anscheduler_cpu_get_task_def
      anscheduler_cpu_get_thread_def anscheduler_cpu_set_task_def anscheduler_cpu_set_thread_def
      anscheduler_timer_set_def anscheduler_get_time_def anscheduler_lock_def anscheduler_unlock_def gets_def modify_def
      calm_step_fields)

lemma calm_vm [calm_rules]:
  "calm (anscheduler_vm_root_alloc P)" "calm (anscheduler_vm_map P r p d f)" "calm (anscheduler_vm_unmap P r p)"
  "calm (anscheduler_vm_lookup P r p)" "calm (anscheduler_vm_root_free P r)" "calm (anscheduler_vm_root_free_async P r)"
  "calm (anscheduler_task_cleanup P r)"
  by (simp_all add: steps_def anscheduler_vm_root_alloc_def anscheduler_vm_map_def anscheduler_vm_unmap_def
      anscheduler_vm_lookup_def anscheduler_vm_root_free_def anscheduler_vm_root_free_async_def
      anscheduler_task_cleanup_def gets_def modify_def calm_step_fields Let_def split: prod.split)

lemma calm_thread_run [calm_rules]: "calm (anscheduler_thread_run task thread)"
  unfolding anscheduler_thread_run_def by (rule calm_rules calm_step_fields | simp)+

lemma calm_set_state [calm_rules]: "calm (anscheduler_set_state thread stack ip arg)"
  unfolding anscheduler_set_state_def by (rule calm_rules | simp)+

lemma calm_save [calm_rules]: "calm (fn arg) \<Longrightarrow> calm (anscheduler_save_return_state thread arg fn)"
  unfolding anscheduler_save_return_state_def by (rule calm_rules | simp)+

end
