(* ===== verification/Lock_Rules.thy ===== *)
theory Lock_Rules
  imports Platform
begin

text \<open>
  Rules for the locks that a piece of code holds and for the critical section of the CPU that it runs in.
  \<open>bals H0 m l L\<close> reads: started with the locks \<open>fst l\<close>, in a critical section iff \<open>snd l\<close>, \<open>m\<close> returns
  with the locks and in the section \<open>L x\<close>, where \<open>x\<close> is its result, and if it gives up the CPU (to a
  thread or to the idle loop) it does so with the locks \<open>h\<close> for an \<open>h \<in> H0\<close>; \<open>bal h\<close> is the case of one \<open>h\<close>.
  Applied as introduction rules to the code, the rules compute the locks held at every point.
\<close>

named_theorems bal \<open>locks held by kernel code\<close>

fun gives_up :: "ctl \<Rightarrow> bool" where
  "gives_up (RunThread task thread) = True"
| "gives_up Idle = True"
| "gives_up (Aborted e) = False"

definition locks :: "'v sched \<Rightarrow> lockid list \<times> bool" where
  "locks s = (held s, cpu_locked s)"

definition bals ::
  "lockid list set \<Rightarrow> ('v, 'a) kern \<Rightarrow> lockid list \<times> bool \<Rightarrow> ('a \<Rightarrow> lockid list \<times> bool) \<Rightarrow> bool" where
  "bals H0 m l L \<longleftrightarrow> (\<forall>s. locks s = l \<longrightarrow>
     (case m s of Ret x s' \<Rightarrow> locks s' = L x | Stop c s' \<Rightarrow> gives_up c \<longrightarrow> held s' \<in> H0 | Crash e \<Rightarrow> True))"

abbreviation bal :: "lockid list \<Rightarrow> ('v, 'a) kern \<Rightarrow> lockid list \<times> bool \<Rightarrow> ('a \<Rightarrow> lockid list \<times> bool) \<Rightarrow> bool" where
  "bal h \<equiv> bals {h}"

lemma balsD:
  assumes "bals H0 m h H" and "locks s = h"
  shows "m s = Ret x s' \<Longrightarrow> locks s' = H x" and "m s = Stop c s' \<Longrightarrow> gives_up c \<Longrightarrow> held s' \<in> H0"
proof -
  have *: "case m s of Ret x s' \<Rightarrow> locks s' = H x | Stop c s' \<Rightarrow> gives_up c \<longrightarrow> held s' \<in> H0 | Crash e \<Rightarrow> True"
    using assms unfolding bals_def by (elim allE[of _ s]) simp
  show "m s = Ret x s' \<Longrightarrow> locks s' = H x" and "m s = Stop c s' \<Longrightarrow> gives_up c \<Longrightarrow> held s' \<in> H0"
    using * by simp_all
qed

lemma balD:
  assumes "bal h0 m h H" and "locks s = h"
  shows "m s = Ret x s' \<Longrightarrow> locks s' = H x" and "m s = Stop c s' \<Longrightarrow> gives_up c \<Longrightarrow> held s' = h0"
  using balsD[OF assms] by simp_all

lemma bals_mono:
  assumes "bals H0 m l L" and "H0 \<subseteq> H1"
  shows "bals H1 m l L"
  unfolding bals_def
proof (intro allI impI)
  fix s :: "'a sched" assume s: "locks s = l"
  show "case m s of Ret x s' \<Rightarrow> locks s' = L x | Stop c s' \<Rightarrow> gives_up c \<longrightarrow> held s' \<in> H1 | Crash e \<Rightarrow> True"
    using balsD[OF assms(1) s] assms(2) by (cases "m s") auto
qed

subsection \<open>Control structure\<close>

lemma bal_bnd [bal]:
  assumes "bals H0 m h (\<lambda>_. h1)" and "\<And>x. bals H0 (f x) h1 H"
  shows "bals H0 (bnd m f) h H"
  unfolding bals_def
proof (intro allI impI)
  fix s :: "'a sched" assume s: "locks s = h"
  show "case bnd m f s of Ret x s' \<Rightarrow> locks s' = H x | Stop c s' \<Rightarrow> gives_up c \<longrightarrow> held s' \<in> H0 | Crash e \<Rightarrow> True"
  proof (cases "m s")
    case (Ret y s1)
    then have "locks s1 = h1" using balsD(1)[OF assms(1) s] by simp
    then show ?thesis using assms(2)[of y] Ret by (simp add: bals_def locks_def bnd_def)
  next
    case (Stop c s1)
    then show ?thesis using balsD(2)[OF assms(1) s] by (simp add: bnd_def)
  qed (simp add: bnd_def)
qed

lemma bal_ret [bal]: "bals H0 (ret x) h (\<lambda>_. h)"
  by (simp add: bals_def locks_def ret_def)

lemma bal_skip [bal]: "bals H0 skip h (\<lambda>_. h)"
  by (simp add: bals_def locks_def skip_def)

lemma bal_gets [bal]: "bals H0 (gets f) h (\<lambda>_. h)"
  by (simp add: bals_def locks_def gets_def)

lemma bal_crash [bal]: "bals H0 (crash e) h H"
  by (simp add: bals_def locks_def crash_def)

lemma bal_abort [bal]: "bals H0 (anscheduler_abort e) h H"
  by (simp add: bals_def locks_def anscheduler_abort_def stop_def)

lemma bal_stop [bal]: "bal h (stop c) (h, b) H"
  by (simp add: bals_def locks_def stop_def)

lemma bal_if [bal]: "bals H0 m h H \<Longrightarrow> bals H0 m' h H \<Longrightarrow> bals H0 (if b then m else m') h H"
  by simp

lemma bal_split [bal]: "(\<And>x y. bals H0 (f x y) h H) \<Longrightarrow> bals H0 (case p of (x, y) \<Rightarrow> f x y) h H"
  by (cases p) simp

lemma bal_cond [bal]: "bals H0 m h (\<lambda>_. h) \<Longrightarrow> bals H0 (cond b m) h (\<lambda>_. h)"
  by (simp add: cond_def bal_skip)

lemma bal_modify: "(\<And>s. locks (f s) = locks s) \<Longrightarrow> bals H0 (modify f) h (\<lambda>_. h)"
  by (simp add: bals_def locks_def modify_def)

text \<open>The body of a loop goes round with the locks of its start, and leaves with the locks of the loop's end.\<close>

definition round_locks :: "'l \<Rightarrow> 'l \<Rightarrow> 'x + 'a \<Rightarrow> 'l" where
  "round_locks h h' r = (case r of Inl x \<Rightarrow> h | Inr y \<Rightarrow> h')"

lemma bal_Inl [bal]: "bals H0 (ret (Inl x)) h (round_locks h h')"
  by (simp add: bals_def locks_def ret_def round_locks_def)

lemma bal_Inr [bal]: "bals H0 (ret (Inr x)) h' (round_locks h h')"
  by (simp add: bals_def locks_def ret_def round_locks_def)

lemma bal_round:
  assumes "bals H0 m h (round_locks h h')" and "\<And>x. bals H0 (f x) h (\<lambda>_. h')"
  shows "bals H0 (bnd m (\<lambda>r. case r of Inl x \<Rightarrow> f x | Inr y \<Rightarrow> ret y)) h (\<lambda>_. h')"
  unfolding bals_def
proof (intro allI impI)
  fix s :: "'a sched" assume s: "locks s = h"
  let ?m = "bnd m (\<lambda>r. case r of Inl x \<Rightarrow> f x | Inr y \<Rightarrow> ret y)"
  show "case ?m s of Ret x s' \<Rightarrow> locks s' = h' | Stop c s' \<Rightarrow> gives_up c \<longrightarrow> held s' \<in> H0 | Crash e \<Rightarrow> True"
  proof (cases "m s")
    case (Ret r s1)
    then have "locks s1 = round_locks h h' r" using balsD(1)[OF assms(1) s] by simp
    then show ?thesis using assms(2) Ret by (cases r) (simp_all add: bals_def locks_def bnd_def round_locks_def ret_def)
  next
    case (Stop c s1)
    then show ?thesis using balsD(2)[OF assms(1) s] by (simp add: bnd_def)
  qed (simp add: bnd_def)
qed

lemma bal_kloop:
  assumes "\<And>x. bals H0 (body x) h (round_locks h h')"
  shows "bals H0 (kloop n d body x) h (\<lambda>_. h')"
proof (induction n arbitrary: x)
  case 0
  show ?case by (simp add: kloop.simps bal_crash)
next
  case (Suc n)
  show ?case unfolding kloop.simps by (rule bal_round[OF assms Suc.IH])
qed

lemma bal_kwhile [bal]: "(\<And>x. bals H0 (body x) h (round_locks h h')) \<Longrightarrow> bals H0 (kwhile body x) h (\<lambda>_. h')"
  unfolding kwhile_def by (rule bal_kloop)

lemma bal_kfor [bal]:
  assumes "\<And>i. bals H0 (f i) h (\<lambda>_. h)"
  shows "bals H0 (kfor i n f) h (\<lambda>_. h)"
proof (induction "n - i" arbitrary: i)
  case 0
  then show ?case by (subst kfor.simps) (simp add: bal_skip)
next
  case (Suc k)
  then show ?case by (subst kfor.simps) (auto intro!: bal_bnd[OF assms] bal_skip)
qed

subsection \<open>Primitives\<close>

lemma bal_lock [bal]: "bals H0 (anscheduler_lock l) (h, c) (\<lambda>_. (l # h, c))"
  by (simp add: bals_def locks_def anscheduler_lock_def)

lemma bal_unlock [bal]: "bals H0 (anscheduler_unlock l) (l # h, c) (\<lambda>_. (h, c))"
  by (simp add: bals_def locks_def anscheduler_unlock_def)

lemma bal_reads [bal]:
  "bals H0 (rd_task p) h (\<lambda>_. h)" "bals H0 (rd_thread p) h (\<lambda>_. h)" "bals H0 (rd_socket p) h (\<lambda>_. h)"
  "bals H0 (rd_desc p) h (\<lambda>_. h)" "bals H0 (rd_msg p) h (\<lambda>_. h)" "bals H0 (rd_fault p) h (\<lambda>_. h)"
  "bals H0 (rd_info p) h (\<lambda>_. h)" "bals H0 (rd_node p) h (\<lambda>_. h)"
  by (simp_all add: bals_def locks_def rd_task_def rd_thread_def rd_socket_def rd_desc_def rd_msg_def rd_fault_def
      rd_info_def rd_node_def split: option.split)

lemma bal_writes [bal]:
  "bals H0 (wr_task p f0) h (\<lambda>_. h)" "bals H0 (wr_thread p f1) h (\<lambda>_. h)" "bals H0 (wr_socket p f2) h (\<lambda>_. h)"
  "bals H0 (wr_desc p f3) h (\<lambda>_. h)" "bals H0 (wr_msg p f4) h (\<lambda>_. h)" "bals H0 (wr_fault p f5) h (\<lambda>_. h)"
  "bals H0 (wr_node p f6) h (\<lambda>_. h)"
  by (simp_all add: bals_def locks_def wr_task_def wr_thread_def wr_socket_def wr_desc_def wr_msg_def wr_fault_def
      wr_node_def split: option.split)

lemma bal_new [bal]:
  "bals H0 (new_task p x0) h (\<lambda>_. h)" "bals H0 (new_thread p x1) h (\<lambda>_. h)" "bals H0 (new_socket p x2) h (\<lambda>_. h)"
  "bals H0 (new_desc p x3) h (\<lambda>_. h)" "bals H0 (new_msg p x4) h (\<lambda>_. h)" "bals H0 (new_fault p x5) h (\<lambda>_. h)"
  "bals H0 (new_info p x6) h (\<lambda>_. h)" "bals H0 (new_node p x7) h (\<lambda>_. h)"
  by (simp_all add: bals_def locks_def new_task_def new_thread_def new_socket_def new_desc_def new_msg_def new_fault_def
      new_info_def new_node_def split: option.split)

lemma bal_memory [bal]:
  "bals H0 (anscheduler_alloc P sz) h (\<lambda>_. h)" "bals H0 (anscheduler_free_raw p) h (\<lambda>_. h)"
  "bals H0 (anscheduler_free_task p) h (\<lambda>_. h)" "bals H0 (anscheduler_free_thread p) h (\<lambda>_. h)"
  "bals H0 (anscheduler_free_socket p) h (\<lambda>_. h)" "bals H0 (anscheduler_free_desc p) h (\<lambda>_. h)"
  "bals H0 (anscheduler_free_msg p) h (\<lambda>_. h)" "bals H0 (anscheduler_free_info p) h (\<lambda>_. h)"
  "bals H0 (anscheduler_free_node p) h (\<lambda>_. h)"
  by (simp_all add: bals_def locks_def anscheduler_alloc_def anscheduler_free_raw_def anscheduler_free_task_def
      anscheduler_free_thread_def anscheduler_free_socket_def anscheduler_free_desc_def anscheduler_free_msg_def
      anscheduler_free_info_def anscheduler_free_node_def Let_def)

lemma bal_cpu [bal]:
  "bals H0 anscheduler_cpu_lock (k, False) (\<lambda>_. (k, True))" "bals H0 anscheduler_cpu_unlock (k, True) (\<lambda>_. (k, False))"
  "bals H0 anscheduler_cpu_get_task h (\<lambda>_. h)" "bals H0 anscheduler_cpu_get_thread h (\<lambda>_. h)"
  "bals H0 (anscheduler_cpu_set_task p) h (\<lambda>_. h)" "bals H0 (anscheduler_cpu_set_thread p) h (\<lambda>_. h)"
  "bals H0 (anscheduler_timer_set n) h (\<lambda>_. h)" "bals H0 anscheduler_get_time h (\<lambda>_. h)"
  "bals H0 (anscheduler_or_32 f) h (\<lambda>_. h)"
  by (simp_all add: bals_def locks_def anscheduler_cpu_lock_def anscheduler_cpu_unlock_def anscheduler_cpu_get_task_def
      anscheduler_cpu_get_thread_def anscheduler_cpu_set_task_def anscheduler_cpu_set_thread_def
      anscheduler_timer_set_def anscheduler_get_time_def anscheduler_or_32_def gets_def modify_def)

lemma bal_vm [bal]:
  "bals H0 (anscheduler_vm_root_alloc P) h (\<lambda>_. h)" "bals H0 (anscheduler_vm_map P r p d f) h (\<lambda>_. h)"
  "bals H0 (anscheduler_vm_unmap P r p) h (\<lambda>_. h)" "bals H0 (anscheduler_vm_lookup P r p) h (\<lambda>_. h)"
  "bals H0 (anscheduler_vm_root_free P r) h (\<lambda>_. h)" "bals H0 (anscheduler_vm_root_free_async P r) h (\<lambda>_. h)"
  "bals H0 (anscheduler_task_cleanup P r) h (\<lambda>_. h)"
  by (simp_all add: bals_def locks_def anscheduler_vm_root_alloc_def anscheduler_vm_map_def anscheduler_vm_unmap_def
      anscheduler_vm_lookup_def anscheduler_vm_root_free_def anscheduler_vm_root_free_async_def
      anscheduler_task_cleanup_def gets_def modify_def Let_def split: prod.split)

lemma bal_switch [bal]:
  "bal k (anscheduler_thread_run task thread) (k, c) H" "bals H0 (anscheduler_set_state thread stack ip arg) h (\<lambda>_. h)"
  by (simp_all add: bals_def locks_def anscheduler_thread_run_def anscheduler_set_state_def rd_thread_def wr_thread_def
      bnd_def modify_def stop_def split: option.split)

lemma bal_save [bal]:
  assumes "bals H0 (fn arg) h H"
  shows "bals H0 (anscheduler_save_return_state thread arg fn) h H"
  unfolding anscheduler_save_return_state_def by (intro bal_bnd[OF bal_gets] bal_bnd[OF bal_writes(2)] assms)

end
