(* ===== verification/Anidxset.thy ===== *)
theory Anidxset
  imports Platform
begin

text \<open>
  The index sets of \<open>lib/anidxset\<close>, with the allocation functions that \<open>src/util.c\<close> plugs
  in. They hand out PIDs, stack indexes and socket descriptors.

  A set is a chain of 4K nodes, each an array used as a stack. A root is a value here (it
  is embedded in a task or a global variable in the C code): an operation takes the root
  and returns the updated one, which its caller stores back.

  Abstractly an index set is a stack of free indexes and the number of indexes made so
  far; \<open>idx_get\<close> and \<open>idx_put\<close> are the two operations on that abstraction.
\<close>

definition NODE_CAPACITY :: nat where
  "NODE_CAPACITY = 0x1fe"

subsection \<open>The C functions\<close>

text \<open>\<open>node->indexes[i] = value\<close>, which is undefined outside of the array.\<close>

definition wr_index :: "addr \<Rightarrow> nat \<Rightarrow> u64 \<Rightarrow> ('v, unit) kern" where
  "wr_index node i x =
     (if i < NODE_CAPACITY
      then wr_node node (\<lambda>n. n\<lparr>nd_indexes := (nd_indexes n)(i := x)\<rparr>)
      else crash BadIndex)"

definition rd_index :: "addr \<Rightarrow> nat \<Rightarrow> ('v, u64) kern" where
  "rd_index node i =
     (if i < NODE_CAPACITY then bnd (rd_node node) (\<lambda>n. ret (nd_indexes n i))
      else crash BadIndex)"

definition fresh_node :: "'v plat \<Rightarrow> addr \<Rightarrow> anidxset_node_t" where
  "fresh_node P p = \<lparr>nd_count = pf_junk P p, nd_indexes = (\<lambda>_. pf_junk P p), nd_next = pf_junk P p\<rparr>"

definition anscheduler_idxset_alloc :: "'v plat \<Rightarrow> ('v, addr) kern" where
  "anscheduler_idxset_alloc P = anscheduler_alloc P 0x1000"

definition anscheduler_idxset_free :: "addr \<Rightarrow> ('v, unit) kern" where
  "anscheduler_idxset_free ptr = anscheduler_free_node ptr"

definition anidxset_initialize :: "'v plat \<Rightarrow> ('v, bool \<times> anidxset_root_t) kern" where
  "anidxset_initialize P =
     bnd (anscheduler_idxset_alloc P) (\<lambda>first.
     let root = \<lparr>ix_used = of_nat NODE_CAPACITY, ix_first = first\<rparr> in
     if first = NULL then ret (False, root)
     else
       bnd (new_node first (fresh_node P first)) (\<lambda>_.
       bnd (wr_node first (\<lambda>n. n\<lparr>nd_count := of_nat NODE_CAPACITY\<rparr>)) (\<lambda>_.
       bnd (wr_node first (\<lambda>n. n\<lparr>nd_next := NULL\<rparr>)) (\<lambda>_.
       bnd (kfor 0 NODE_CAPACITY (\<lambda>i. wr_index first i (of_nat (NODE_CAPACITY - 1 - i)))) (\<lambda>_.
       ret (True, root))))))"

definition anscheduler_idxset_init :: "'v plat \<Rightarrow> ('v, bool \<times> anidxset_root_t) kern" where
  "anscheduler_idxset_init P = anidxset_initialize P"

text \<open>The loop of \<open>_allocate_next_page\<close>: \<open>i\<close> is the loop variable, \<open>used\<close> is \<open>root->used\<close>.\<close>

function next_page_loop :: "addr \<Rightarrow> nat \<Rightarrow> u64 \<Rightarrow> ('v, u64) kern" where
  "next_page_loop node i used =
     (if i < NODE_CAPACITY
      then bnd (wr_index node (NODE_CAPACITY - i - 1) used) (\<lambda>_. next_page_loop node (Suc i) (used + 1))
      else ret used)"
  by pat_completeness auto
termination
  by (relation "measure (\<lambda>(node, i, used). NODE_CAPACITY - i)") auto

definition allocate_next_page :: "anidxset_root_t \<Rightarrow> ('v, anidxset_root_t) kern" where
  "allocate_next_page root =
     bnd (wr_node (ix_first root) (\<lambda>n. n\<lparr>nd_next := NULL\<rparr>)) (\<lambda>_.
     bnd (wr_node (ix_first root) (\<lambda>n. n\<lparr>nd_count := of_nat NODE_CAPACITY\<rparr>)) (\<lambda>_.
     bnd (next_page_loop (ix_first root) 0 (ix_used root)) (\<lambda>used.
     ret (root\<lparr>ix_used := used\<rparr>))))"

definition anidxset_get :: "anidxset_root_t \<Rightarrow> ('v, u64 \<times> anidxset_root_t) kern" where
  "anidxset_get root =
     bnd (rd_node (ix_first root)) (\<lambda>node.
     bnd (if nd_count node = 0 then
            if nd_next node = NULL then allocate_next_page root
            else
              let cur = ix_first root in
              bnd (anscheduler_idxset_free cur) (\<lambda>_.
              ret (root\<lparr>ix_first := nd_next node\<rparr>))
          else ret root) (\<lambda>root.
     bnd (wr_node (ix_first root) (\<lambda>n. n\<lparr>nd_count := nd_count n - 1\<rparr>)) (\<lambda>_.
     bnd (rd_node (ix_first root)) (\<lambda>node.
     bnd (rd_index (ix_first root) (unat (nd_count node))) (\<lambda>x.
     ret (x, root))))))"

definition anidxset_put :: "'v plat \<Rightarrow> anidxset_root_t \<Rightarrow> u64 \<Rightarrow> ('v, bool \<times> anidxset_root_t) kern" where
  "anidxset_put P root x =
     bnd (rd_node (ix_first root)) (\<lambda>node.
     if nd_count node = of_nat NODE_CAPACITY then
       bnd (anscheduler_idxset_alloc P) (\<lambda>newNode.
       if newNode = NULL then ret (False, root)
       else
         bnd (new_node newNode (fresh_node P newNode)) (\<lambda>_.
         bnd (wr_node newNode (\<lambda>n. n\<lparr>nd_count := 1\<rparr>)) (\<lambda>_.
         bnd (wr_node newNode (\<lambda>n. n\<lparr>nd_next := ix_first root\<rparr>)) (\<lambda>_.
         bnd (wr_index newNode 0 x) (\<lambda>_.
         ret (True, root\<lparr>ix_first := newNode\<rparr>))))))
     else
       bnd (wr_index (ix_first root) (unat (nd_count node)) x) (\<lambda>_.
       bnd (wr_node (ix_first root) (\<lambda>n. n\<lparr>nd_count := nd_count n + 1\<rparr>)) (\<lambda>_.
       ret (True, root))))"

definition anidxset_free :: "anidxset_root_t \<Rightarrow> ('v, unit) kern" where
  "anidxset_free root =
     kwhile (\<lambda>node.
       if node = NULL then ret (Inr ())
       else
         bnd (rd_node node) (\<lambda>n.
         bnd (anscheduler_idxset_free node) (\<lambda>_.
         ret (Inl (nd_next n))))) (ix_first root)"

subsection \<open>The abstraction\<close>

text \<open>The free indexes of a node, the next one to be handed out first.\<close>

definition node_stack :: "anidxset_node_t \<Rightarrow> u64 list" where
  "node_stack n = rev (map (nd_indexes n) [0..<unat (nd_count n)])"

definition node_next :: "(addr \<rightharpoonup> anidxset_node_t) \<Rightarrow> addr \<Rightarrow> addr" where
  "node_next ns p = (case ns p of Some n \<Rightarrow> nd_next n | None \<Rightarrow> NULL)"

definition node_full :: "(addr \<rightharpoonup> anidxset_node_t) \<Rightarrow> addr \<Rightarrow> bool" where
  "node_full ns p \<longleftrightarrow> (\<exists>n. ns p = Some n \<and> nd_count n = of_nat NODE_CAPACITY)"

definition chain_stack :: "(addr \<rightharpoonup> anidxset_node_t) \<Rightarrow> addr list \<Rightarrow> u64 list" where
  "chain_stack ns ps = concat (map (\<lambda>p. case ns p of Some n \<Rightarrow> node_stack n | None \<Rightarrow> []) ps)"

text \<open>
  \<open>idxset ns root ps\<close>: the nodes \<open>ps\<close> form the chain of the set; all nodes but the first
  are full, and the first holds at most a full node.
\<close>

definition idxset :: "(addr \<rightharpoonup> anidxset_node_t) \<Rightarrow> anidxset_root_t \<Rightarrow> addr list \<Rightarrow> bool" where
  "idxset ns root ps \<longleftrightarrow>
     ps \<noteq> [] \<and> ix_first root = first_of ps \<and> slist (node_next ns) ps \<and>
     (\<exists>n. ns (hd ps) = Some n \<and> unat (nd_count n) \<le> NODE_CAPACITY) \<and>
     (\<forall>p \<in> set (tl ps). node_full ns p)"

text \<open>The two operations on the stack of free indexes and the number of indexes made.\<close>

fun idx_get :: "u64 list \<times> u64 \<Rightarrow> u64 \<times> u64 list \<times> u64" where
  "idx_get (x # xs, used) = (x, xs, used)"
| "idx_get ([], used) =
     (used, map (\<lambda>k. used + of_nat k) [1..<NODE_CAPACITY], used + of_nat NODE_CAPACITY)"

fun idx_put :: "u64 \<Rightarrow> u64 list \<times> u64 \<Rightarrow> u64 list \<times> u64" where
  "idx_put x (xs, used) = (x # xs, used)"

text \<open>A client that takes \<open>k\<close> indexes in a row.\<close>

fun get_many :: "nat \<Rightarrow> anidxset_root_t \<Rightarrow> ('v, u64 list \<times> anidxset_root_t) kern" where
  "get_many 0 root = ret ([], root)"
| "get_many (Suc k) root =
     bnd (anidxset_get root) (\<lambda>(x, root). bnd (get_many k root) (\<lambda>(xs, root). ret (x # xs, root)))"

text \<open>
  The free indexes are distinct and are, together with the indexes \<open>out\<close> that are handed
  out, exactly the indexes below the number made so far.
\<close>

definition idx_ok :: "u64 list \<times> u64 \<Rightarrow> u64 set \<Rightarrow> bool" where
  "idx_ok st out \<longleftrightarrow>
     distinct (fst st) \<and> set (fst st) \<inter> out = {} \<and> set (fst st) \<union> out = {x. x < snd st}"

text \<open>A set whose only node has two free indexes, for evaluation.\<close>

definition small_root :: anidxset_root_t where
  "small_root = \<lparr>ix_used = 3, ix_first = 0x1000\<rparr>"

definition small_node :: anidxset_node_t where
  "small_node = \<lparr>nd_count = 2, nd_indexes = (\<lambda>_. 0)(0 := 2, 1 := 1), nd_next = NULL\<rparr>"

definition small_state :: "flatvm sched" where
  "small_state = flat_boot\<lparr>nodes := [0x1000 \<mapsto> small_node]\<rparr>"

subsection \<open>Capacity\<close>

lemma capacity_pos: "0 < NODE_CAPACITY"
  by (simp add: NODE_CAPACITY_def)

lemma unat_capacity [simp]: "unat (of_nat NODE_CAPACITY :: u64) = NODE_CAPACITY"
  by (simp add: NODE_CAPACITY_def)

lemma capacity_nonzero [simp]: "(of_nat NODE_CAPACITY :: u64) \<noteq> 0"
  by (simp add: NODE_CAPACITY_def)

lemma wr_index_apply [kern]:
  "nodes s p = Some n \<Longrightarrow> i < NODE_CAPACITY \<Longrightarrow>
     wr_index p i x s = Ret () (s\<lparr>nodes := (nodes s)(p \<mapsto> n\<lparr>nd_indexes := (nd_indexes n)(i := x)\<rparr>)\<rparr>)"
  by (simp add: wr_index_def kern)

lemma rd_index_apply [kern]:
  "nodes s p = Some n \<Longrightarrow> i < NODE_CAPACITY \<Longrightarrow> rd_index p i s = Ret (nd_indexes n i) s"
  by (simp add: rd_index_def kern)

subsection \<open>The loops that fill a node\<close>

lemma fill_step:
  assumes "i < NODE_CAPACITY"
  shows "(\<lambda>j. if Suc i \<le> j \<and> j < NODE_CAPACITY then f j else (g(i := f i)) j) =
    (\<lambda>j. if i \<le> j \<and> j < NODE_CAPACITY then f j else g j)"
  using assms by (auto simp: fun_eq_iff)

lemma fill_loop:
  assumes "nodes s p = Some n" and "i \<le> NODE_CAPACITY"
  shows "kfor i NODE_CAPACITY (\<lambda>j. wr_index p j (f j)) s =
    Ret () (s\<lparr>nodes := (nodes s)(p \<mapsto> n\<lparr>nd_indexes :=
      (\<lambda>j. if i \<le> j \<and> j < NODE_CAPACITY then f j else nd_indexes n j)\<rparr>)\<rparr>)"
  using assms
proof (induction "NODE_CAPACITY - i" arbitrary: i s n)
  case 0
  then have i: "i = NODE_CAPACITY" by simp
  then have "(\<lambda>j. if i \<le> j \<and> j < NODE_CAPACITY then f j else nd_indexes n j) = nd_indexes n"
    by (intro ext) auto
  moreover have "(nodes s)(p \<mapsto> n) = nodes s" using 0 by auto
  ultimately show ?case using i by (simp add: kern del: not_le)
next
  case (Suc k)
  then have i: "i < NODE_CAPACITY" by simp
  let ?n = "n\<lparr>nd_indexes := (nd_indexes n)(i := f i)\<rparr>"
  let ?s = "s\<lparr>nodes := (nodes s)(p \<mapsto> ?n)\<rparr>"
  have "kfor i NODE_CAPACITY (\<lambda>j. wr_index p j (f j)) s =
      kfor (Suc i) NODE_CAPACITY (\<lambda>j. wr_index p j (f j)) ?s"
    using Suc.prems i by (intro kfor_step) (simp_all add: kern)
  also have "\<dots> = Ret () (?s\<lparr>nodes := (nodes ?s)(p \<mapsto> ?n\<lparr>nd_indexes :=
      (\<lambda>j. if Suc i \<le> j \<and> j < NODE_CAPACITY then f j else nd_indexes ?n j)\<rparr>)\<rparr>)"
    using Suc.hyps(2) i by (intro Suc.hyps(1)) simp_all
  finally show ?case
    using fill_step[OF i, of f "nd_indexes n"] by (simp cong: if_cong)
qed

lemma next_page_step:
  assumes "i < NODE_CAPACITY"
  shows "(\<lambda>j. if j < NODE_CAPACITY - Suc i then used + 1 + of_nat (NODE_CAPACITY - Suc i - 1 - j)
             else (f(NODE_CAPACITY - i - 1 := used)) j) =
      (\<lambda>j. if j < NODE_CAPACITY - i then used + of_nat (NODE_CAPACITY - i - 1 - j) else f j)"
    (is "?l = ?r")
proof
  fix j
  consider "j < NODE_CAPACITY - Suc i" | "j = NODE_CAPACITY - i - 1" | "NODE_CAPACITY - i \<le> j"
    using assms by linarith
  then show "?l j = ?r j"
  proof cases
    case 1
    then have "NODE_CAPACITY - i - 1 - j = Suc (NODE_CAPACITY - Suc i - 1 - j)" "j < NODE_CAPACITY - i"
      using assms by linarith+
    with 1 show ?thesis by (simp only: if_True of_nat_Suc) (simp add: algebra_simps)
  qed (use assms in auto)
qed

lemma next_page_loop_eq:
  assumes "nodes s p = Some n" and "i \<le> NODE_CAPACITY"
  shows "next_page_loop p i used s =
    Ret (used + of_nat (NODE_CAPACITY - i))
      (s\<lparr>nodes := (nodes s)(p \<mapsto> n\<lparr>nd_indexes :=
        (\<lambda>j. if j < NODE_CAPACITY - i then used + of_nat (NODE_CAPACITY - i - 1 - j)
             else nd_indexes n j)\<rparr>)\<rparr>)"
  using assms
proof (induction "NODE_CAPACITY - i" arbitrary: i s n used)
  case 0
  then have "i = NODE_CAPACITY" by simp
  moreover have "(nodes s)(p \<mapsto> n) = nodes s" using 0 by auto
  ultimately show ?case by (subst next_page_loop.simps) (simp add: kern)
next
  case (Suc k)
  then have i: "i < NODE_CAPACITY" by simp
  let ?n = "n\<lparr>nd_indexes := (nd_indexes n)(NODE_CAPACITY - i - 1 := used)\<rparr>"
  let ?s = "s\<lparr>nodes := (nodes s)(p \<mapsto> ?n)\<rparr>"
  have used: "used + 1 + of_nat (NODE_CAPACITY - Suc i) = used + of_nat (NODE_CAPACITY - i)"
    using i by (simp add: Suc_diff_Suc [symmetric] algebra_simps del: Suc_diff_Suc)
  have "next_page_loop p i used s = next_page_loop p (Suc i) (used + 1) ?s"
    using Suc.prems i by (subst next_page_loop.simps) (simp add: kern)
  also have "\<dots> = Ret (used + 1 + of_nat (NODE_CAPACITY - Suc i))
      (?s\<lparr>nodes := (nodes ?s)(p \<mapsto> ?n\<lparr>nd_indexes :=
        (\<lambda>j. if j < NODE_CAPACITY - Suc i then used + 1 + of_nat (NODE_CAPACITY - Suc i - 1 - j)
             else nd_indexes ?n j)\<rparr>)\<rparr>)"
    using Suc.hyps(2) i by (intro Suc.hyps(1)) simp_all
  moreover have "nd_indexes ?n = (nd_indexes n)(NODE_CAPACITY - i - 1 := used)" by simp
  ultimately show ?case
    by (simp only: used next_page_step[OF i]) simp
qed

subsection \<open>Chains of nodes\<close>

lemma chain_stack_Nil [simp]: "chain_stack ns [] = []"
  by (simp add: chain_stack_def)

lemma chain_stack_Cons: "ns p = Some n \<Longrightarrow> chain_stack ns (p # ps) = node_stack n @ chain_stack ns ps"
  by (simp add: chain_stack_def)

lemma chain_stack_cong:
  "(\<And>p. p \<in> set ps \<Longrightarrow> ns p = ns' p) \<Longrightarrow> chain_stack ns ps = chain_stack ns' ps"
  by (simp add: chain_stack_def cong: map_cong)

lemma slist_upd [simp]: "p \<notin> set ps \<Longrightarrow> slist (node_next (ns(p := v))) ps = slist (node_next ns) ps"
  by (rule slist_cong) (auto simp: node_next_def)

lemma chain_stack_upd [simp]: "p \<notin> set ps \<Longrightarrow> chain_stack (ns(p := v)) ps = chain_stack ns ps"
  by (rule chain_stack_cong) auto

lemma node_next_Some: "ns p = Some n \<Longrightarrow> node_next ns p = nd_next n"
  by (simp add: node_next_def)

lemma idxset_cong:
  assumes "\<And>p. p \<in> set ps \<Longrightarrow> ns p = ns' p"
  shows "idxset ns root ps = idxset ns' root ps"
proof -
  have "slist (node_next ns) ps = slist (node_next ns') ps"
    by (rule slist_cong) (simp add: node_next_def assms)
  moreover have "\<forall>p \<in> set (tl ps). node_full ns p = node_full ns' p"
    using assms by (cases ps) (auto simp: node_full_def)
  moreover have "ps \<noteq> [] \<Longrightarrow> ns (hd ps) = ns' (hd ps)" using assms by simp
  ultimately show ?thesis unfolding idxset_def by metis
qed

lemma idxset_Cons:
  "idxset ns root (p # ps) \<longleftrightarrow>
     ix_first root = p \<and> p \<noteq> NULL \<and> p \<notin> set ps \<and>
     (\<exists>n. ns p = Some n \<and> unat (nd_count n) \<le> NODE_CAPACITY \<and> nd_next n = first_of ps) \<and>
     slist (node_next ns) ps \<and> (\<forall>q \<in> set ps. node_full ns q)"
  unfolding idxset_def slist_Cons by (cases "ns p") (auto simp: node_next_def)

lemma idxset_cases:
  assumes "idxset ns root ps"
  obtains p qs n where "ps = p # qs" and "ix_first root = p" and "p \<noteq> NULL" and "p \<notin> set qs"
    and "ns p = Some n" and "unat (nd_count n) \<le> NODE_CAPACITY" and "nd_next n = first_of qs"
    and "slist (node_next ns) qs" and "\<forall>q \<in> set qs. node_full ns q"
proof -
  obtain p qs where ps: "ps = p # qs" using assms by (cases ps) (simp_all add: idxset_def)
  from assms obtain n where "ns p = Some n" "unat (nd_count n) \<le> NODE_CAPACITY"
    "nd_next n = first_of qs" unfolding ps idxset_Cons by auto
  moreover have "ix_first root = p" "p \<noteq> NULL" "p \<notin> set qs" "slist (node_next ns) qs"
    "\<forall>q \<in> set qs. node_full ns q" using assms unfolding ps idxset_Cons by auto
  ultimately show ?thesis by (intro that[OF ps])
qed

lemma node_stack_pop:
  assumes "nd_count n \<noteq> 0"
  shows "node_stack n = nd_indexes n (unat (nd_count n - 1)) # node_stack (n\<lparr>nd_count := nd_count n - 1\<rparr>)"
proof -
  have "unat (nd_count n) = Suc (unat (nd_count n - 1))"
    using assms by (simp add: unat_minus_one unat_gt_0)
  then show ?thesis by (simp add: node_stack_def)
qed

lemma node_stack_push:
  assumes "unat (nd_count n) < NODE_CAPACITY"
  shows "node_stack (n\<lparr>nd_indexes := (nd_indexes n)(unat (nd_count n) := x), nd_count := nd_count n + 1\<rparr>)
    = x # node_stack n"
    and "unat (nd_count n + 1) = Suc (unat (nd_count n))"
proof -
  have "Suc (unat (nd_count n)) < 2 ^ 64"
    using assms by (simp add: NODE_CAPACITY_def)
  then show c: "unat (nd_count n + 1) = Suc (unat (nd_count n))"
    by (simp add: unat_word_ariths)
  show "node_stack (n\<lparr>nd_indexes := (nd_indexes n)(unat (nd_count n) := x), nd_count := nd_count n + 1\<rparr>)
    = x # node_stack n"
    by (simp add: node_stack_def c)
qed

text \<open>Popping from a chain whose first node is not empty.\<close>

lemma idxset_pop:
  assumes "idxset (nodes s) root ps" and "nodes s (ix_first root) = Some n" and "nd_count n \<noteq> 0"
  shows "\<exists>x s'. bnd (wr_node (ix_first root) (\<lambda>n. n\<lparr>nd_count := nd_count n - 1\<rparr>)) (\<lambda>_.
     bnd (rd_node (ix_first root)) (\<lambda>node.
     bnd (rd_index (ix_first root) (unat (nd_count node))) (\<lambda>x. ret (x, root)))) s = Ret (x, root) s' \<and>
     s' = s\<lparr>nodes := nodes s'\<rparr> \<and> (\<forall>q. q \<notin> set ps \<longrightarrow> nodes s' q = nodes s q) \<and>
     idxset (nodes s') root ps \<and> chain_stack (nodes s) ps = x # chain_stack (nodes s') ps"
proof -
  from assms(1) obtain p qs where ps: "ps = p # qs" "ix_first root = p" "p \<notin> set qs"
    "unat (nd_count n) \<le> NODE_CAPACITY" "nd_next n = first_of qs"
    "slist (node_next (nodes s)) qs" "\<forall>q \<in> set qs. node_full (nodes s) q" "p \<noteq> NULL"
    using assms(2) by (auto elim!: idxset_cases)
  let ?n = "n\<lparr>nd_count := nd_count n - 1\<rparr>" and ?x = "nd_indexes n (unat (nd_count n - 1))"
  let ?s = "s\<lparr>nodes := (nodes s)(p \<mapsto> ?n)\<rparr>"
  have lt: "unat (nd_count n - 1) < NODE_CAPACITY"
    using assms(3) ps(4) capacity_pos by (simp add: unat_minus_one)
  have tl: "slist (node_next (nodes ?s)) qs = slist (node_next (nodes s)) qs"
    using ps(3) by (intro slist_cong) (auto simp: node_next_def)
  have full: "\<forall>q \<in> set qs. node_full (nodes ?s) q" using ps(3,7) by (auto simp: node_full_def)
  have "chain_stack (nodes s) qs = chain_stack (nodes ?s) qs"
    using ps(3) by (intro chain_stack_cong) auto
  then have "chain_stack (nodes s) ps = ?x # chain_stack (nodes ?s) ps"
    using assms(2) ps node_stack_pop[OF assms(3)] by (simp add: chain_stack_Cons)
  moreover have "idxset (nodes ?s) root ps"
    using ps tl full lt by (simp add: idxset_Cons)
  moreover have "bnd (wr_node (ix_first root) (\<lambda>n. n\<lparr>nd_count := nd_count n - 1\<rparr>)) (\<lambda>_.
     bnd (rd_node (ix_first root)) (\<lambda>node.
     bnd (rd_index (ix_first root) (unat (nd_count node))) (\<lambda>x. ret (x, root)))) s = Ret (?x, root) ?s"
    using assms(2) ps(2) lt by (simp add: kern)
  ultimately show ?thesis using ps(1) by (intro exI[of _ ?x] exI[of _ ?s]) auto
qed

subsection \<open>Refinement\<close>

text \<open>Refilling an empty node makes a page of new indexes, the smallest on top.\<close>

lemma refill_stack:
  "node_stack (n\<lparr>nd_count := of_nat NODE_CAPACITY, nd_indexes :=
      (\<lambda>j. if j < NODE_CAPACITY then used + of_nat (NODE_CAPACITY - 1 - j) else g j)\<rparr>) =
   map (\<lambda>k. used + of_nat k) [0..<NODE_CAPACITY]"
  by (rule nth_equalityI) (simp_all add: node_stack_def rev_nth)

lemma allocate_next_page_eq:
  assumes "nodes s (ix_first root) = Some n" and "nd_next n = NULL"
  shows "\<exists>n'. allocate_next_page root s =
      Ret (root\<lparr>ix_used := ix_used root + of_nat NODE_CAPACITY\<rparr>)
        (s\<lparr>nodes := (nodes s)(ix_first root \<mapsto> n')\<rparr>) \<and>
      nd_next n' = NULL \<and> nd_count n' = of_nat NODE_CAPACITY \<and>
      node_stack n' = map (\<lambda>k. ix_used root + of_nat k) [0..<NODE_CAPACITY]"
proof -
  let ?n = "n\<lparr>nd_next := NULL, nd_count := of_nat NODE_CAPACITY\<rparr>"
  let ?s = "s\<lparr>nodes := (nodes s)(ix_first root \<mapsto> ?n)\<rparr>"
  let ?f = "\<lambda>j. if j < NODE_CAPACITY then ix_used root + of_nat (NODE_CAPACITY - 1 - j) else nd_indexes ?n j"
  have "next_page_loop (ix_first root) 0 (ix_used root) ?s =
      Ret (ix_used root + of_nat NODE_CAPACITY)
        (?s\<lparr>nodes := (nodes ?s)(ix_first root \<mapsto> ?n\<lparr>nd_indexes := ?f\<rparr>)\<rparr>)"
    using next_page_loop_eq[of ?s "ix_first root" ?n 0 "ix_used root", unfolded diff_zero] by simp
  then have "allocate_next_page root s =
      Ret (root\<lparr>ix_used := ix_used root + of_nat NODE_CAPACITY\<rparr>)
        (s\<lparr>nodes := (nodes s)(ix_first root \<mapsto> ?n\<lparr>nd_indexes := ?f\<rparr>)\<rparr>)"
    using assms(1) by (simp add: allocate_next_page_def kern)
  then show ?thesis
    using refill_stack[where n = "n\<lparr>nd_next := NULL\<rparr>" and used = "ix_used root" and g = "nd_indexes ?n"]
    by (intro exI[of _ "?n\<lparr>nd_indexes := ?f\<rparr>"]) simp
qed

lemma anidxset_get_refines:
  assumes "idxset (nodes s) root ps" and "cpu_locked s"
  shows "\<exists>x root' ps' s'. anidxset_get root s = Ret (x, root') s' \<and>
     s' = s\<lparr>nodes := nodes s'\<rparr> \<and> (\<forall>q. q \<notin> set ps \<longrightarrow> nodes s' q = nodes s q) \<and>
     set ps' \<subseteq> set ps \<and> idxset (nodes s') root' ps' \<and>
     (\<forall>q \<in> set ps - set ps'. nodes s' q = None) \<and>
     (x, chain_stack (nodes s') ps', ix_used root') = idx_get (chain_stack (nodes s) ps, ix_used root)"
proof -
  obtain p qs n where ps: "ps = p # qs" "ix_first root = p" "p \<noteq> NULL" "p \<notin> set qs"
    "nodes s p = Some n" "unat (nd_count n) \<le> NODE_CAPACITY" "nd_next n = first_of qs"
    "slist (node_next (nodes s)) qs" "\<forall>q \<in> set qs. node_full (nodes s) q"
    using assms(1) by (rule idxset_cases)
  consider (pop) "nd_count n \<noteq> 0" | (refill) "nd_count n = 0" "nd_next n = NULL"
    | (move) "nd_count n = 0" "nd_next n \<noteq> NULL" by blast
  then show ?thesis
  proof cases
    case pop
    then obtain x s' where
      "bnd (wr_node p (\<lambda>n. n\<lparr>nd_count := nd_count n - 1\<rparr>)) (\<lambda>_. bnd (rd_node p) (\<lambda>node.
       bnd (rd_index p (unat (nd_count node))) (\<lambda>x. ret (x, root)))) s = Ret (x, root) s'"
      "s' = s\<lparr>nodes := nodes s'\<rparr>" "\<forall>q. q \<notin> set ps \<longrightarrow> nodes s' q = nodes s q"
      "idxset (nodes s') root ps" "chain_stack (nodes s) ps = x # chain_stack (nodes s') ps"
      using idxset_pop[OF assms(1), of n] ps by auto
    moreover from this(1) have "anidxset_get root s = Ret (x, root) s'"
      using pop ps by (simp add: anidxset_get_def kern)
    ultimately show ?thesis by (intro exI[of _ x] exI[of _ root] exI[of _ ps] exI[of _ s']) auto
  next
    case refill
    have qs: "qs = []"
      using refill(2) ps(7,8) first_of_eq_NULL slist_nonnull by metis
    let ?root = "root\<lparr>ix_used := ix_used root + of_nat NODE_CAPACITY\<rparr>"
    obtain n' where n': "allocate_next_page root s = Ret ?root (s\<lparr>nodes := (nodes s)(p \<mapsto> n')\<rparr>)"
      "nd_next n' = NULL" "nd_count n' = of_nat NODE_CAPACITY"
      "node_stack n' = map (\<lambda>k. ix_used root + of_nat k) [0..<NODE_CAPACITY]"
      using allocate_next_page_eq[of s root n] ps(2,5) refill(2) by auto
    let ?s = "s\<lparr>nodes := (nodes s)(p \<mapsto> n')\<rparr>"
    have "idxset (nodes ?s) ?root [p]" using ps n' by (simp add: idxset_Cons)
    from idxset_pop[OF this, of n'] obtain x s' where
      "bnd (wr_node p (\<lambda>n. n\<lparr>nd_count := nd_count n - 1\<rparr>)) (\<lambda>_. bnd (rd_node p) (\<lambda>node.
       bnd (rd_index p (unat (nd_count node))) (\<lambda>x. ret (x, ?root)))) ?s = Ret (x, ?root) s'"
      "s' = ?s\<lparr>nodes := nodes s'\<rparr>" "\<forall>q. q \<notin> {p} \<longrightarrow> nodes s' q = nodes ?s q"
      "idxset (nodes s') ?root [p]" "chain_stack (nodes ?s) [p] = x # chain_stack (nodes s') [p]"
      using n' ps(2) by auto
    moreover from this(1) have "anidxset_get root s = Ret (x, ?root) s'"
      using refill ps n' by (simp add: anidxset_get_def kern)
    moreover have "chain_stack (nodes s) ps = []"
      using refill qs ps by (simp add: chain_stack_Cons node_stack_def)
    moreover have "chain_stack (nodes ?s) [p] =
        ix_used root # map (\<lambda>k. ix_used root + of_nat k) [1..<NODE_CAPACITY]"
      using n'(4) capacity_pos by (simp add: chain_stack_Cons upt_conv_Cons)
    ultimately show ?thesis using qs ps(1)
      by (intro exI[of _ x] exI[of _ ?root] exI[of _ "[p]"] exI[of _ s']) auto
  next
    case move
    obtain q rs where qs: "qs = q # rs" using move(2) ps(7) by (cases qs) auto
    let ?root = "root\<lparr>ix_first := q\<rparr>" and ?s = "s\<lparr>nodes := (nodes s)(p := None)\<rparr>"
    have "idxset (nodes ?s) ?root qs = idxset (nodes s) ?root qs"
      using ps(4) by (intro idxset_cong) auto
    moreover obtain nq where nq: "nodes s q = Some nq" "nd_count nq = of_nat NODE_CAPACITY"
      using ps(9) qs by (auto simp: node_full_def)
    ultimately have "idxset (nodes ?s) ?root qs"
      using ps(8,9) qs nq by (simp add: idxset_def)
    from idxset_pop[OF this, of nq] obtain x s' where
      "bnd (wr_node q (\<lambda>n. n\<lparr>nd_count := nd_count n - 1\<rparr>)) (\<lambda>_. bnd (rd_node q) (\<lambda>node.
       bnd (rd_index q (unat (nd_count node))) (\<lambda>x. ret (x, ?root)))) ?s = Ret (x, ?root) s'"
      "s' = ?s\<lparr>nodes := nodes s'\<rparr>" "\<forall>r. r \<notin> set qs \<longrightarrow> nodes s' r = nodes ?s r"
      "idxset (nodes s') ?root qs" "chain_stack (nodes ?s) qs = x # chain_stack (nodes s') qs"
      using nq qs ps(4) by auto
    moreover from this(1) have "anidxset_get root s = Ret (x, ?root) s'"
      using move ps qs assms(2) by (simp add: anidxset_get_def anscheduler_idxset_free_def kern)
    moreover have "chain_stack (nodes s) qs = chain_stack (nodes ?s) qs"
      using ps(4) by (intro chain_stack_cong) auto
    then have "chain_stack (nodes s) ps = chain_stack (nodes ?s) qs"
      using move ps by (simp add: chain_stack_Cons node_stack_def)
    ultimately show ?thesis using ps(1,4)
      by (intro exI[of _ x] exI[of _ ?root] exI[of _ qs] exI[of _ s']) auto
  qed
qed

text \<open>
  Putting an index back pushes it, possibly onto a new node; it only fails when the node
  in front is full and no new node can be allocated, and then it changes nothing.
\<close>

lemma anidxset_put_refines:
  assumes P: "allocator P" and set: "idxset (nodes s) root ps" and crit: "cpu_locked s"
  shows "(\<exists>root' ps' s'. anidxset_put P root x s = Ret (True, root') s' \<and>
       s' = s\<lparr>nodes := nodes s', allocs := allocs s'\<rparr> \<and>
       (\<forall>q. q \<notin> set ps' \<longrightarrow> nodes s' q = nodes s q) \<and> (\<forall>q \<in> set ps' - set ps. \<not> live s q) \<and>
       set ps \<subseteq> set ps' \<and> idxset (nodes s') root' ps' \<and>
       (chain_stack (nodes s') ps', ix_used root') = idx_put x (chain_stack (nodes s) ps, ix_used root))
     \<or> (\<exists>n. nodes s (ix_first root) = Some n \<and> nd_count n = of_nat NODE_CAPACITY \<and>
       anidxset_put P root x s = Ret (False, root) (s\<lparr>allocs := Suc (allocs s)\<rparr>))"
proof -
  obtain p qs n where ps: "ps = p # qs" "ix_first root = p" "p \<noteq> NULL" "p \<notin> set qs"
    "nodes s p = Some n" "unat (nd_count n) \<le> NODE_CAPACITY" "nd_next n = first_of qs"
    "slist (node_next (nodes s)) qs" "\<forall>q \<in> set qs. node_full (nodes s) q"
    using set by (rule idxset_cases)
  show ?thesis
  proof (cases "nd_count n = of_nat NODE_CAPACITY")
    case False
    then have lt: "unat (nd_count n) < NODE_CAPACITY"
      using ps(6) unat_capacity by (metis le_neq_implies_less word_unat_eq_iff)
    let ?n = "n\<lparr>nd_indexes := (nd_indexes n)(unat (nd_count n) := x), nd_count := nd_count n + 1\<rparr>"
    let ?s = "s\<lparr>nodes := (nodes s)(p \<mapsto> ?n)\<rparr>"
    have "anidxset_put P root x s = Ret (True, root) ?s"
      using False ps lt by (simp add: anidxset_put_def kern)
    moreover have "slist (node_next (nodes ?s)) qs = slist (node_next (nodes s)) qs"
      "\<forall>q \<in> set qs. node_full (nodes ?s) q" "chain_stack (nodes ?s) qs = chain_stack (nodes s) qs"
      using ps(4,9) by (auto simp: node_full_def)
    moreover from this have "idxset (nodes ?s) root ps"
      using ps lt node_stack_push(2)[OF lt] by (simp add: idxset_Cons)
    ultimately show ?thesis
      using ps lt node_stack_push(1)[OF lt, of x]
      by (intro disjI1 exI[of _ root] exI[of _ ps] exI[of _ ?s]) (simp add: chain_stack_Cons)
  next
    case True
    consider (failed) "anscheduler_alloc P 0x1000 s = Ret NULL (s\<lparr>allocs := Suc (allocs s)\<rparr>)"
      | (fresh) w where "w \<noteq> NULL" "\<not> live s w" "anscheduler_alloc P 0x1000 s =
          Ret w (s\<lparr>allocs := Suc (allocs s), raws := (raws s)(w \<mapsto> 0x1000)\<rparr>)"
      using allocator.alloc_result[OF P crit, of "0x1000"] by blast
    then show ?thesis
    proof cases
      case failed
      then show ?thesis
        using True ps by (intro disjI2) (simp add: anidxset_put_def anscheduler_idxset_alloc_def kern)
    next
      case (fresh w)
      let ?root = "root\<lparr>ix_first := w\<rparr>"
      let ?n = "\<lparr>nd_count = 1, nd_indexes = (\<lambda>_. pf_junk P w)(0 := x), nd_next = p\<rparr>"
      let ?s = "s\<lparr>allocs := Suc (allocs s), nodes := (nodes s)(w \<mapsto> ?n)\<rparr>"
      have w: "w \<notin> set ps" "w \<noteq> p"
        using fresh(2) ps(5,9) ps(1) by (auto simp: node_full_def)
      have raw: "(raws s)(w := None) = raws s" using fresh(2) by auto
      have sl: "slist (node_next (nodes s)) ps" using set by (simp add: idxset_def)
      have "anidxset_put P root x s = Ret (True, ?root) ?s"
        using True ps w fresh capacity_pos
        by (simp add: anidxset_put_def anscheduler_idxset_alloc_def fresh_node_def kern raw)
      moreover have "slist (node_next (nodes ?s)) ps = slist (node_next (nodes s)) ps"
        "chain_stack (nodes ?s) ps = chain_stack (nodes s) ps"
        using w(1) by auto
      moreover have "\<forall>q \<in> set ps. node_full (nodes ?s) q"
        using w(1) ps True by (auto simp: node_full_def)
      moreover from calculation have "idxset (nodes ?s) ?root (w # ps)"
        using w(1) fresh(1) ps(1) sl capacity_pos by (simp add: idxset_Cons)
      moreover have "node_stack ?n = [x]" by (simp add: node_stack_def)
      ultimately show ?thesis using fresh(2)
        by (intro disjI1 exI[of _ ?root] exI[of _ "w # ps"] exI[of _ ?s]) (auto simp: chain_stack_Cons)
    qed
  qed
qed

lemma anidxset_initialize_refines:
  assumes P: "allocator P" and crit: "cpu_locked s"
  shows "(\<exists>root s' p. anidxset_initialize P s = Ret (True, root) s' \<and> \<not> live s p \<and>
       s' = s\<lparr>nodes := nodes s', allocs := allocs s'\<rparr> \<and>
       (\<forall>q. q \<noteq> p \<longrightarrow> nodes s' q = nodes s q) \<and> idxset (nodes s') root [p] \<and>
       ix_used root = of_nat NODE_CAPACITY \<and>
       chain_stack (nodes s') [p] = map of_nat [0..<NODE_CAPACITY])
     \<or> (\<exists>root. anidxset_initialize P s = Ret (False, root) (s\<lparr>allocs := Suc (allocs s)\<rparr>))"
proof -
  consider (failed) "anscheduler_alloc P 0x1000 s = Ret NULL (s\<lparr>allocs := Suc (allocs s)\<rparr>)"
    | (fresh) w where "w \<noteq> NULL" "\<not> live s w" "anscheduler_alloc P 0x1000 s =
        Ret w (s\<lparr>allocs := Suc (allocs s), raws := (raws s)(w \<mapsto> 0x1000)\<rparr>)"
    using allocator.alloc_result[OF P crit, of "0x1000"] by blast
  then show ?thesis
  proof cases
  case failed
  then show ?thesis
    by (intro disjI2) (simp add: anidxset_initialize_def anscheduler_idxset_alloc_def kern Let_def)
next
  case (fresh w)
  let ?root = "\<lparr>ix_used = of_nat NODE_CAPACITY, ix_first = w\<rparr>"
  let ?m = "\<lparr>nd_count = of_nat NODE_CAPACITY, nd_indexes = (\<lambda>_. pf_junk P w), nd_next = NULL\<rparr>"
  let ?f = "\<lambda>j. if 0 \<le> j \<and> j < NODE_CAPACITY then of_nat (NODE_CAPACITY - 1 - j) else nd_indexes ?m j"
  let ?n = "?m\<lparr>nd_indexes := ?f\<rparr>"
  let ?s = "s\<lparr>allocs := Suc (allocs s), nodes := (nodes s)(w \<mapsto> ?m)\<rparr>"
  have raw: "(raws s)(w := None) = raws s" using fresh(2) by auto
  have "anidxset_initialize P s = Ret (True, ?root) (?s\<lparr>nodes := (nodes ?s)(w \<mapsto> ?n)\<rparr>)"
    using fresh fill_loop[of ?s w ?m 0 "\<lambda>j. of_nat (NODE_CAPACITY - 1 - j)"]
    by (simp add: anidxset_initialize_def anscheduler_idxset_alloc_def fresh_node_def kern raw Let_def)
  moreover have "node_stack ?n = map of_nat [0..<NODE_CAPACITY]"
    by (rule nth_equalityI) (simp_all add: node_stack_def rev_nth)
  moreover have "idxset (nodes (?s\<lparr>nodes := (nodes ?s)(w \<mapsto> ?n)\<rparr>)) ?root [w]"
    using fresh(1) by (simp add: idxset_Cons)
  ultimately show ?thesis
    using fresh by (intro disjI1 exI[of _ ?root] exI[of _ "?s\<lparr>nodes := (nodes ?s)(w \<mapsto> ?n)\<rparr>"]
      exI[of _ w]) (simp add: chain_stack_Cons)
  qed
qed

text \<open>Freeing a set releases every node of its chain and nothing else.\<close>

lemma anidxset_free_loop:
  assumes "slist (node_next (nodes s)) ps" and "\<forall>p \<in> set ps. nodes s p \<noteq> None"
    and "cpu_locked s" and "length ps < k"
  shows "kloop k Diverges (\<lambda>node.
       if node = NULL then ret (Inr ())
       else bnd (rd_node node) (\<lambda>n. bnd (anscheduler_idxset_free node) (\<lambda>_.
         ret (Inl (nd_next n))))) (first_of ps) s =
     Ret () (s\<lparr>nodes := (\<lambda>p. if p \<in> set ps then None else nodes s p)\<rparr>)"
  using assms
proof (induction ps arbitrary: s k)
  case Nil
  then show ?case by (cases k) (simp_all add: kloop.simps kern)
next
  case (Cons p ps)
  obtain k' where k: "k = Suc k'" "length ps < k'" using Cons.prems(4) by (cases k) auto
  obtain n where n: "nodes s p = Some n" using Cons.prems(2) by auto
  let ?s = "s\<lparr>nodes := (nodes s)(p := None)\<rparr>"
  have p: "p \<noteq> NULL" "p \<notin> set ps" "nd_next n = first_of ps" "slist (node_next (nodes s)) ps"
    using Cons.prems(1) n by (auto simp: slist_Cons node_next_Some)
  then have "slist (node_next (nodes ?s)) ps" "\<forall>q \<in> set ps. nodes ?s q \<noteq> None"
    using Cons.prems p by auto
  note IH = Cons.IH[OF this _ k(2)]
  have "(\<lambda>q. if q \<in> set ps then None else nodes ?s q) =
      (\<lambda>q. if q \<in> set (p # ps) then None else nodes s q)"
    by auto
  with IH show ?case
    using Cons.prems(3) p n
    by (simp add: k kloop.simps kern anscheduler_idxset_free_def)
qed

lemma anidxset_free_releases:
  assumes "idxset (nodes s) root ps" and "cpu_locked s"
  shows "anidxset_free root s =
    Ret () (s\<lparr>nodes := (\<lambda>p. if p \<in> set ps then None else nodes s p)\<rparr>)"
proof -
  have sl: "slist (node_next (nodes s)) ps" and first: "ix_first root = first_of ps"
    using assms(1) by (simp_all add: idxset_def)
  have "\<forall>p \<in> set ps. nodes s p \<noteq> None"
    using assms(1) by (cases ps) (auto simp: idxset_def node_full_def)
  from anidxset_free_loop[OF sl this assms(2) slist_length[OF sl]] show ?thesis
    by (simp add: anidxset_free_def kwhile_def first)
qed

subsection \<open>No index is handed out twice\<close>

lemma less_add_capacity_iff:
  fixes used x :: u64
  assumes "unat used + NODE_CAPACITY < 2 ^ 64"
  shows "x < used + of_nat NODE_CAPACITY \<longleftrightarrow> x < used \<or> (\<exists>k < NODE_CAPACITY. x = used + of_nat k)"
proof -
  have add: "unat (used + of_nat k) = unat used + k" if "k \<le> NODE_CAPACITY" for k
  proof -
    have "k < 2 ^ 64" using that by (simp add: NODE_CAPACITY_def)
    then have "unat (of_nat k :: u64) = k" by (simp add: unat_of_nat)
    then show ?thesis using that assms by (simp add: unat_word_ariths)
  qed
  show ?thesis
  proof
    assume "x < used + of_nat NODE_CAPACITY"
    then have lt: "unat x < unat used + NODE_CAPACITY" by (simp add: word_less_nat_alt add)
    show "x < used \<or> (\<exists>k < NODE_CAPACITY. x = used + of_nat k)"
    proof (cases "unat x < unat used")
      case True
      then show ?thesis by (simp add: word_less_nat_alt)
    next
      case False
      then have "unat x = unat (used + of_nat (unat x - unat used))"
        using lt by (subst add) simp_all
      then have "x = used + of_nat (unat x - unat used)" by (simp add: word_unat_eq_iff)
      moreover have "unat x - unat used < NODE_CAPACITY" using lt False capacity_pos by simp
      ultimately show ?thesis by blast
    qed
  next
    assume "x < used \<or> (\<exists>k < NODE_CAPACITY. x = used + of_nat k)"
    then show "x < used + of_nat NODE_CAPACITY"
      by (auto simp: word_less_nat_alt add)
  qed
qed

lemma distinct_new_indexes:
  assumes "unat (used :: u64) + NODE_CAPACITY < 2 ^ 64"
  shows "distinct (map (\<lambda>k. used + of_nat k) [0..<NODE_CAPACITY])"
proof -
  have "unat (of_nat k :: u64) = k" if "k < NODE_CAPACITY" for k
    using that assms by (simp add: unat_of_nat)
  then have "inj_on (\<lambda>k. used + of_nat k) {..<NODE_CAPACITY}"
    by (intro inj_onI) (metis add_left_cancel lessThan_iff)
  then show ?thesis by (simp add: distinct_map atLeast0LessThan)
qed

text \<open>A get returns an index that is not handed out, and marks it as handed out.\<close>

lemma idx_get_ok:
  assumes ok: "idx_ok (xs, used) out" and room: "unat used + NODE_CAPACITY < 2 ^ 64"
    and get: "idx_get (xs, used) = (x, xs', used')"
  shows "x \<notin> out" and "idx_ok (xs', used') (insert x out)"
proof -
  have "x \<notin> out \<and> idx_ok (xs', used') (insert x out)"
  proof (cases xs)
    case (Cons y ys)
    with ok get show ?thesis by (auto simp: idx_ok_def)
  next
    case Nil
    let ?f = "\<lambda>k. used + of_nat k :: u64"
    have out: "out = {y. y < used}" using ok Nil by (simp add: idx_ok_def)
    have all: "map ?f [0..<NODE_CAPACITY] = used # map ?f [1..<NODE_CAPACITY]"
      using capacity_pos by (simp add: upt_conv_Cons)
    have d: "distinct (used # map ?f [1..<NODE_CAPACITY])"
      using distinct_new_indexes[OF room] all by simp
    have range: "{y. y < used + of_nat NODE_CAPACITY} =
        {y. y < used} \<union> set (used # map ?f [1..<NODE_CAPACITY])"
      using less_add_capacity_iff[OF room] unfolding all[symmetric] by auto
    have new: "x = used" "xs' = map ?f [1..<NODE_CAPACITY]" "used' = used + of_nat NODE_CAPACITY"
      using get Nil by auto
    have "\<not> y < used" if "y \<in> set (used # map ?f [1..<NODE_CAPACITY])" for y
    proof -
      have "y \<in> set (map ?f [0..<NODE_CAPACITY])" using that by (simp only: all)
      then obtain k where k: "y = used + of_nat k" "k < NODE_CAPACITY" by auto
      then have "unat y = unat used + k"
        using room by (simp add: unat_word_ariths unat_of_nat)
      then show ?thesis by (simp add: word_less_nat_alt)
    qed
    then show ?thesis using d range new out by (auto simp: idx_ok_def)
  qed
  then show "x \<notin> out" "idx_ok (xs', used') (insert x out)" by simp_all
qed

lemma idx_put_ok:
  assumes "idx_ok st out" and "x \<in> out"
  shows "idx_ok (idx_put x st) (out - {x})"
  using assms by (cases st) (auto simp: idx_ok_def)

subsection \<open>What the index sets guarantee\<close>

lemma small_idxset:
  "idxset (nodes small_state) small_root [0x1000]"
  "chain_stack (nodes small_state) [0x1000] = [1, 2]" "cpu_locked small_state"
  "ix_used small_root = 3"
  by (simp_all add: idxset_Cons small_state_def small_root_def small_node_def NODE_CAPACITY_def
      chain_stack_Cons node_stack_def flat_boot_def boot_def upt_rec)

lemma small_idx_ok: "idx_ok ([1, 2], 3) {0}"
proof -
  have "{x :: u64. x < 3} = {0, 1, 2}"
  proof (intro set_eqI iffI)
    fix x :: u64 assume "x \<in> {x. x < 3}"
    then have "unat x < 3" by (simp add: word_less_nat_alt)
    then have "unat x = unat (0 :: u64) \<or> unat x = unat (1 :: u64) \<or> unat x = unat (2 :: u64)" by auto
    then show "x \<in> {0, 1, 2}" by (simp only: word_unat_eq_iff [symmetric]) simp
  qed auto
  then show ?thesis by (auto simp: idx_ok_def)
qed

text \<open>C8: An index set never hands out an index twice. Taking an index from a well-formed set
  always succeeds in a critical section, without a NULL dereference or an index out of the
  node's array, whichever of its three paths it takes (pop, move to the next node, refill);
  the index it returns is not among the indexes \<open>out\<close> that are handed out already, and the
  set stays well formed with the new index added to \<open>out\<close>.
\<close>

theorem anidxset_get_unused:
  assumes "idxset (nodes s) root ps" and "cpu_locked s"
    and "idx_ok (chain_stack (nodes s) ps, ix_used root) out"
    and "unat (ix_used root) + NODE_CAPACITY < 2 ^ 64"
  shows "\<exists>x root' ps' s'. anidxset_get root s = Ret (x, root') s' \<and> x \<notin> out \<and>
     idxset (nodes s') root' ps' \<and>
     idx_ok (chain_stack (nodes s') ps', ix_used root') (insert x out)"
proof -
  obtain x root' ps' s' where get: "anidxset_get root s = Ret (x, root') s'"
    "idxset (nodes s') root' ps'"
    "(x, chain_stack (nodes s') ps', ix_used root') = idx_get (chain_stack (nodes s) ps, ix_used root)"
    using anidxset_get_refines[OF assms(1,2)] by blast
  from idx_get_ok[OF assms(3,4) get(3)[symmetric]] get show ?thesis by blast
qed

theorem anidxset_get_unused_witness:
  "\<exists>x root' ps' s'. anidxset_get small_root small_state = Ret (x, root') s' \<and> x \<notin> {0} \<and>
     idxset (nodes s') root' ps' \<and>
     idx_ok (chain_stack (nodes s') ps', ix_used root') (insert x {0})"
proof (rule anidxset_get_unused)
  show "idxset (nodes small_state) small_root [0x1000]" by (rule small_idxset)
  show "idx_ok (chain_stack (nodes small_state) [0x1000], ix_used small_root) {0}"
    by (simp only: small_idxset small_idx_ok)
qed (simp_all add: small_idxset NODE_CAPACITY_def)

text \<open>C26: An index put back is the next one handed out. When \<open>anidxset_put\<close> reports success, a
  following \<open>anidxset_get\<close> returns the index just put back and leaves the same free indexes as
  before; when it reports failure, it did so because the node in front was full and no
  page could be allocated, and no memory was changed.
\<close>

theorem anidxset_put_get_roundtrip:
  assumes "allocator P" and "idxset (nodes s) root ps" and "cpu_locked s"
  shows "(\<exists>root1 s1 root2 ps2 s2. anidxset_put P root x s = Ret (True, root1) s1 \<and>
            anidxset_get root1 s1 = Ret (x, root2) s2 \<and> idxset (nodes s2) root2 ps2 \<and>
            chain_stack (nodes s2) ps2 = chain_stack (nodes s) ps \<and> ix_used root2 = ix_used root) \<or>
         ((\<exists>n. nodes s (ix_first root) = Some n \<and> unat (nd_count n) = NODE_CAPACITY) \<and>
          anidxset_put P root x s = Ret (False, root) (s\<lparr>allocs := Suc (allocs s)\<rparr>))"
  using anidxset_put_refines[OF assms, of x]
proof (elim disjE exE conjE)
  fix root1 ps1 s1
  assume put: "anidxset_put P root x s = Ret (True, root1) s1"
    and s1: "s1 = s\<lparr>nodes := nodes s1, allocs := allocs s1\<rparr>" "idxset (nodes s1) root1 ps1"
    and st: "(chain_stack (nodes s1) ps1, ix_used root1) = idx_put x (chain_stack (nodes s) ps, ix_used root)"
  have "cpu_locked (s\<lparr>nodes := nodes s1, allocs := allocs s1\<rparr>)" using assms(3) by simp
  then have "cpu_locked s1" using s1(1) by (simp only: s1(1)[symmetric])
  from anidxset_get_refines[OF s1(2) this] put st show ?thesis by auto
qed auto

theorem anidxset_put_get_roundtrip_witness:
  "\<exists>root1 s1 root2 s2. anidxset_put flat_plat small_root 0 small_state = Ret (True, root1) s1 \<and>
     anidxset_get root1 s1 = Ret (0, root2) s2"
proof -
  have "nodes small_state (ix_first small_root) = Some small_node"
    by (simp add: small_state_def small_root_def)
  moreover have "unat (nd_count small_node) \<noteq> NODE_CAPACITY"
    by (simp add: small_node_def NODE_CAPACITY_def)
  ultimately show ?thesis
    using anidxset_put_get_roundtrip[OF flat.allocator_axioms small_idxset(1,3), of 0] by auto
qed

text \<open>The free indexes stay an initial segment while nothing is put back.\<close>

lemma idx_get_segment:
  assumes "i \<le> m"
  shows "\<exists>m'. Suc i \<le> m' \<and>
    idx_get (map of_nat [i..<m], of_nat m) = (of_nat i, map of_nat [Suc i..<m'], of_nat m')"
proof (cases "i < m")
  case True
  then show ?thesis by (intro exI[of _ m]) (simp add: upt_conv_Cons)
next
  case False
  have "map (\<lambda>k. (of_nat m :: u64) + of_nat k) [1..<NODE_CAPACITY] =
      map of_nat [Suc m..<m + NODE_CAPACITY]"
    by (rule nth_equalityI) (simp_all add: algebra_simps)
  with False assms show ?thesis
    using capacity_pos by (intro exI[of _ "m + NODE_CAPACITY"]) simp
qed

lemma get_many_segment:
  assumes "idxset (nodes s) root ps" and "cpu_locked s" and "i \<le> m"
    and "chain_stack (nodes s) ps = map of_nat [i..<m]" and "ix_used root = of_nat m"
  shows "\<exists>root' s'. get_many k root s = Ret (map of_nat [i..<i + k], root') s'"
  using assms
proof (induction k arbitrary: s root ps i m)
  case 0
  then show ?case by (simp add: kern)
next
  case (Suc k)
  obtain x root1 ps1 s1 where get: "anidxset_get root s = Ret (x, root1) s1"
    and s1: "s1 = s\<lparr>nodes := nodes s1\<rparr>" "idxset (nodes s1) root1 ps1"
    and st: "(x, chain_stack (nodes s1) ps1, ix_used root1) = idx_get (map of_nat [i..<m], of_nat m)"
    using anidxset_get_refines[OF Suc.prems(1,2)] Suc.prems(4,5) by metis
  obtain m' where m': "Suc i \<le> m'" "x = of_nat i" "chain_stack (nodes s1) ps1 = map of_nat [Suc i..<m']"
    "ix_used root1 = of_nat m'"
    using idx_get_segment[OF Suc.prems(3)] st by auto
  have "cpu_locked (s\<lparr>nodes := nodes s1\<rparr>)" using Suc.prems(2) by simp
  then have "cpu_locked s1" by (simp only: s1(1)[symmetric])
  from Suc.IH[OF s1(2) this m'(1,3,4)] obtain root' s' where
    "get_many k root1 s1 = Ret (map of_nat [Suc i..<Suc i + k], root') s'" by blast
  moreover have "[i..<i + Suc k] = i # [Suc i..<Suc i + k]" by (simp add: upt_conv_Cons)
  ultimately show ?case using get m'(2) by (simp add: kern del: upt_Suc)
qed

text \<open>Initially, indexes are handed out in order. After a successful \<open>anidxset_initialize\<close>,
  \<open>k\<close> calls of \<open>anidxset_get\<close> return 0, 1, ..., k - 1, for every \<open>k\<close>, across any number of
  refills of the node; an unsuccessful initialisation leaves no page allocated.
\<close>

lemma anidxset_sequential:
  assumes "allocator P" and "cpu_locked s"
  shows "(\<exists>root s1. anidxset_initialize P s = Ret (True, root) s1 \<and>
            (\<forall>k. \<exists>root' s2. get_many k root s1 = Ret (map of_nat [0..<k], root') s2)) \<or>
         (\<exists>root. anidxset_initialize P s = Ret (False, root) (s\<lparr>allocs := Suc (allocs s)\<rparr>))"
  using anidxset_initialize_refines[OF assms]
proof (elim disjE exE conjE)
  fix root s1 p
  assume init: "anidxset_initialize P s = Ret (True, root) s1"
    and s1: "s1 = s\<lparr>nodes := nodes s1, allocs := allocs s1\<rparr>" "idxset (nodes s1) root [p]"
    and st: "ix_used root = of_nat NODE_CAPACITY" "chain_stack (nodes s1) [p] = map of_nat [0..<NODE_CAPACITY]"
  have "cpu_locked (s\<lparr>nodes := nodes s1, allocs := allocs s1\<rparr>)" using assms(2) by simp
  then have "cpu_locked s1" by (simp only: s1(1)[symmetric])
  then have "\<exists>root' s2. get_many k root s1 = Ret (map of_nat [0..<k], root') s2" for k
    using get_many_segment[OF s1(2) _ _ st(2,1), of k] by simp
  with init show ?thesis by blast
qed auto

lemma anidxset_initialize_False:
  "anidxset_initialize P s = Ret (False, root) s' \<Longrightarrow> pf_alloc P (allocs s) 0x1000 (live s) = NULL"
  by (auto simp: anidxset_initialize_def anscheduler_idxset_alloc_def anscheduler_alloc_def bnd_def
      ret_def Let_def split: outcome.splits if_splits)

lemma anidxset_sequential_example:
  "\<exists>root s1 root' s2. anidxset_initialize flat_plat flat_boot = Ret (True, root) s1 \<and>
     get_many 1000 root s1 = Ret (map of_nat [0..<1000], root') s2"
proof -
  have "pf_alloc flat_plat (allocs flat_boot) 0x1000 (live flat_boot) \<noteq> NULL"
    by (simp add: flat_plat_def flat_alloc_def flat_boot_def boot_def live_def)
  then have "anidxset_initialize flat_plat flat_boot \<noteq> Ret (False, root) s'" for root s'
    by (metis anidxset_initialize_False)
  moreover have "cpu_locked flat_boot" by (simp add: flat_boot_def boot_def)
  ultimately show ?thesis
    using anidxset_sequential[OF flat.allocator_axioms] by blast
qed

end
