(* ===== verification/Run_Queue.thy ===== *)
theory Run_Queue
  imports Platform
begin

text \<open>
  The run queue of \<open>src/loop.c\<close>: a doubly linked list of threads between \<open>firstThread\<close> and
  \<open>lastThread\<close>, linked by \<open>queueNext\<close> and \<open>queueLast\<close>, with its length in \<open>queueCount\<close>.
  \<open>run_queue s xs\<close> says that the list in memory is \<open>xs\<close>; the operations are shown to be
  the list operations on \<open>xs\<close>.
\<close>

subsection \<open>The C functions\<close>

definition anscheduler_loop_delete :: "addr \<Rightarrow> ('v, unit) kern" where
  "anscheduler_loop_delete thread =
     bnd (anscheduler_lock LoopLock) (\<lambda>_.
     bnd (rd_thread thread) (\<lambda>th.
     bnd (gets firstThread) (\<lambda>firstTh.
     if th_queueNext th = NULL \<and> th_queueLast th = NULL \<and> thread \<noteq> firstTh then
       anscheduler_unlock LoopLock
     else
       bnd (gets firstThread) (\<lambda>firstTh.
       bnd (cond (firstTh = thread)
              (bnd (rd_thread thread) (\<lambda>th. modify (\<lambda>s. s\<lparr>firstThread := th_queueNext th\<rparr>)))) (\<lambda>_.
       bnd (gets lastThread) (\<lambda>lastTh.
       bnd (cond (lastTh = thread)
              (bnd (rd_thread thread) (\<lambda>th. modify (\<lambda>s. s\<lparr>lastThread := th_queueLast th\<rparr>)))) (\<lambda>_.
       bnd (rd_thread thread) (\<lambda>th.
       bnd (cond (th_queueLast th \<noteq> NULL)
              (wr_thread (th_queueLast th) (\<lambda>t. t\<lparr>th_queueNext := th_queueNext th\<rparr>))) (\<lambda>_.
       bnd (rd_thread thread) (\<lambda>th.
       bnd (cond (th_queueNext th \<noteq> NULL)
              (wr_thread (th_queueNext th) (\<lambda>t. t\<lparr>th_queueLast := th_queueLast th\<rparr>))) (\<lambda>_.
       bnd (modify (\<lambda>s. s\<lparr>queueCount := queueCount s - 1\<rparr>)) (\<lambda>_.
       anscheduler_unlock LoopLock))))))))))))"

definition push_unconditional :: "addr \<Rightarrow> ('v, unit) kern" where
  "push_unconditional thread =
     bnd (gets lastThread) (\<lambda>lastTh.
     if lastTh \<noteq> NULL then
       bnd (wr_thread lastTh (\<lambda>t. t\<lparr>th_queueNext := thread\<rparr>)) (\<lambda>_.
       bnd (wr_thread thread (\<lambda>t. t\<lparr>th_queueLast := lastTh\<rparr>)) (\<lambda>_.
       bnd (wr_thread thread (\<lambda>t. t\<lparr>th_queueNext := NULL\<rparr>)) (\<lambda>_.
       modify (\<lambda>s. s\<lparr>lastThread := thread\<rparr>))))
     else
       bnd (modify (\<lambda>s. s\<lparr>firstThread := thread, lastThread := thread\<rparr>)) (\<lambda>_.
       wr_thread thread (\<lambda>t. t\<lparr>th_queueLast := NULL, th_queueNext := NULL\<rparr>)))"

definition anscheduler_loop_push :: "addr \<Rightarrow> ('v, unit) kern" where
  "anscheduler_loop_push thread =
     bnd (rd_thread thread) (\<lambda>th.
     bnd (if th_task th \<noteq> NULL then
            bnd (anscheduler_lock (KillLock (th_task th))) (\<lambda>_.
            bnd (rd_task (th_task th)) (\<lambda>tk.
            bnd (anscheduler_unlock (KillLock (th_task th))) (\<lambda>_.
            ret (t_isKilled tk \<noteq> 0))))
          else ret False) (\<lambda>killed.
     if killed then skip
     else
       bnd (anscheduler_lock LoopLock) (\<lambda>_.
       bnd (gets lastThread) (\<lambda>lastTh.
       bnd (if lastTh \<noteq> NULL then
              bnd (wr_thread lastTh (\<lambda>t. t\<lparr>th_queueNext := thread\<rparr>)) (\<lambda>_.
              bnd (wr_thread thread (\<lambda>t. t\<lparr>th_queueLast := lastTh\<rparr>)) (\<lambda>_.
              bnd (wr_thread thread (\<lambda>t. t\<lparr>th_queueNext := NULL\<rparr>)) (\<lambda>_.
              modify (\<lambda>s. s\<lparr>lastThread := thread\<rparr>))))
            else
              bnd (modify (\<lambda>s. s\<lparr>lastThread := thread, firstThread := thread\<rparr>)) (\<lambda>_.
              wr_thread thread (\<lambda>t. t\<lparr>th_queueLast := NULL, th_queueNext := NULL\<rparr>))) (\<lambda>_.
       bnd (modify (\<lambda>s. s\<lparr>queueCount := queueCount s + 1\<rparr>)) (\<lambda>_.
       anscheduler_unlock LoopLock))))))"

definition shift_thread :: "('v, addr) kern" where
  "shift_thread =
     bnd (gets firstThread) (\<lambda>th.
     bnd (rd_thread th) (\<lambda>t.
     bnd (modify (\<lambda>s. s\<lparr>firstThread := th_queueNext t\<rparr>)) (\<lambda>_.
     bnd (gets firstThread) (\<lambda>firstTh.
     bnd (if firstTh = NULL then modify (\<lambda>s. s\<lparr>lastThread := NULL\<rparr>)
          else wr_thread firstTh (\<lambda>t. t\<lparr>th_queueLast := NULL\<rparr>)) (\<lambda>_.
     bnd (wr_thread th (\<lambda>t. t\<lparr>th_queueLast := NULL, th_queueNext := NULL\<rparr>)) (\<lambda>_.
     ret th))))))"

definition anscheduler_loop_push_kernel :: "'v plat \<Rightarrow> addr \<Rightarrow> kfun \<Rightarrow> ('v, unit) kern" where
  "anscheduler_loop_push_kernel P arg fn =
     bnd (anscheduler_alloc P (sizeof_thread_t P)) (\<lambda>thread.
     if thread = NULL then anscheduler_abort ''Failed to allocate kernel thread''
     else
       bnd (anscheduler_alloc P 0x1000) (\<lambda>stack.
       if stack = NULL then
         bnd (anscheduler_free_raw thread) (\<lambda>_.
         anscheduler_abort ''Failed to allocate kernel thread stack.'')
       else
         bnd (new_thread thread zero_thread) (\<lambda>_.
         bnd (wr_thread thread (\<lambda>t. t\<lparr>th_stack := stack\<rparr>)) (\<lambda>_.
         bnd (anscheduler_set_state thread (stack + 0x1000) fn arg) (\<lambda>_.
         anscheduler_loop_push thread)))))"

subsection \<open>The abstraction\<close>

definition queue_next :: "(addr \<rightharpoonup> thread_t) \<Rightarrow> addr \<Rightarrow> addr" where
  "queue_next ts p = (case ts p of Some t \<Rightarrow> th_queueNext t | None \<Rightarrow> NULL)"

definition queue_last :: "(addr \<rightharpoonup> thread_t) \<Rightarrow> addr \<Rightarrow> addr" where
  "queue_last ts p = (case ts p of Some t \<Rightarrow> th_queueLast t | None \<Rightarrow> NULL)"

definition run_queue :: "'v sched \<Rightarrow> addr list \<Rightarrow> bool" where
  "run_queue s xs \<longleftrightarrow>
     dlist (queue_next (threads s)) (queue_last (threads s)) xs \<and>
     firstThread s = first_of xs \<and> lastThread s = last_of xs \<and>
     queueCount s = of_nat (length xs) \<and> (\<forall>x \<in> set xs. threads s x \<noteq> None)"

text \<open>A thread that is not linked into any queue.\<close>

definition unlinked :: "thread_t \<Rightarrow> bool" where
  "unlinked t \<longleftrightarrow> th_queueNext t = NULL \<and> th_queueLast t = NULL"

text \<open>The part of a thread that the queue operations leave alone.\<close>

definition thread_core :: "thread_t \<Rightarrow> thread_t" where
  "thread_core t = t\<lparr>th_queueNext := NULL, th_queueLast := NULL\<rparr>"

definition cores :: "(addr \<rightharpoonup> thread_t) \<Rightarrow> addr \<rightharpoonup> thread_t" where
  "cores ts p = map_option thread_core (ts p)"

text \<open>
  A state without its run queue. Two states agree up to the run queue if they have the same
  threads, which differ in their queue links only, and the same rest of the state but for
  the three queue variables.
\<close>

definition hide_queue :: "'v sched \<Rightarrow> 'v sched" where
  "hide_queue s = s\<lparr>threads := cores (threads s), queueCount := 0, firstThread := NULL, lastThread := NULL\<rparr>"

text \<open>A thread is runnable if it is a kernel thread or its task is alive.\<close>

definition task_alive :: "'v sched \<Rightarrow> addr \<Rightarrow> bool" where
  "task_alive s task \<longleftrightarrow> task = NULL \<or> (\<exists>tk. tasks s task = Some tk \<and> t_isKilled tk = 0)"

text \<open>Whether the task check of \<open>anscheduler_loop_push\<close> can be made without trouble.\<close>

definition killable :: "'v sched \<Rightarrow> addr \<Rightarrow> bool" where
  "killable s task \<longleftrightarrow> task = NULL \<or> (tasks s task \<noteq> None \<and> KillLock task \<notin> set (held s))"

text \<open>The pointer surgery of \<open>anscheduler_loop_delete\<close>, on the links alone.\<close>

definition unlink_threads :: "addr list \<Rightarrow> addr list \<Rightarrow> (addr \<rightharpoonup> thread_t) \<Rightarrow> addr \<rightharpoonup> thread_t" where
  "unlink_threads as bs ts =
     (let ts1 = (if as = [] then ts
                 else ts(last as := map_option (\<lambda>t. t\<lparr>th_queueNext := first_of bs\<rparr>) (ts (last as))))
      in if bs = [] then ts1
         else ts1(hd bs := map_option (\<lambda>t. t\<lparr>th_queueLast := last_of as\<rparr>) (ts1 (hd bs))))"

text \<open>The thread struct that \<open>anscheduler_loop_push_kernel\<close> fills in.\<close>

definition kernel_thread :: "kfun \<Rightarrow> addr \<Rightarrow> addr \<Rightarrow> thread_t" where
  "kernel_thread fn arg stack =
     zero_thread\<lparr>th_stack := stack, th_state := TsEntry fn arg (stack + 0x1000)\<rparr>"

text \<open>Three kernel threads in the run queue.\<close>

definition queue_ex :: "flatvm sched" where
  "queue_ex = flat_boot\<lparr>threads := [0x100 \<mapsto> zero_thread\<lparr>th_queueNext := 0x200\<rparr>,
       0x200 \<mapsto> zero_thread\<lparr>th_queueNext := 0x300, th_queueLast := 0x100\<rparr>,
       0x300 \<mapsto> zero_thread\<lparr>th_queueLast := 0x200\<rparr>, 0x400 \<mapsto> zero_thread],
     queueCount := 3, firstThread := 0x100, lastThread := 0x300\<rparr>"

lemma queue_links_upd [simp]:
  "queue_next (ts(p \<mapsto> t)) = (queue_next ts)(p := th_queueNext t)"
  "queue_last (ts(p \<mapsto> t)) = (queue_last ts)(p := th_queueLast t)"
  by (auto simp: queue_next_def queue_last_def)

lemma queue_links_Some:
  "ts p = Some t \<Longrightarrow> queue_next ts p = th_queueNext t"
  "ts p = Some t \<Longrightarrow> queue_last ts p = th_queueLast t"
  by (simp_all add: queue_next_def queue_last_def)

lemma run_queue_dlist: "run_queue s xs \<Longrightarrow> dlist (queue_next (threads s)) (queue_last (threads s)) xs"
  by (simp only: run_queue_def)

lemmas run_queue_distinct = run_queue_dlist [THEN dlist_distinct]
lemmas run_queue_nonnull = run_queue_dlist [THEN dlist_nonnull]

lemma run_queue_thread: "run_queue s xs \<Longrightarrow> x \<in> set xs \<Longrightarrow> \<exists>t. threads s x = Some t"
  by (auto simp: run_queue_def)

lemma run_queue_length: "run_queue s xs \<Longrightarrow> length xs < 2 ^ 64"
  using dlist_length[OF run_queue_dlist] by (simp add: max_steps_def)

lemma thread_core_links [simp]:
  "thread_core (t\<lparr>th_queueNext := a\<rparr>) = thread_core t"
  "thread_core (t\<lparr>th_queueLast := b\<rparr>) = thread_core t"
  by (simp_all add: thread_core_def)

lemma cores_upd [simp]:
  "ts p = Some t' \<Longrightarrow> thread_core t = thread_core t' \<Longrightarrow> cores (ts(p \<mapsto> t)) = cores ts"
  by (auto simp: cores_def)

lemma cores_Some:
  assumes "cores ts' = cores ts" and "ts p = Some t"
  shows "\<exists>t'. ts' p = Some t' \<and> thread_core t' = thread_core t"
proof -
  have "cores ts' p = cores ts p" by (simp only: assms(1))
  with assms(2) show ?thesis by (auto simp: cores_def)
qed

lemma hide_queue_fields:
  assumes "hide_queue s' = hide_queue s"
  shows "raws s' = raws s" "tasks s' = tasks s" "sockets s' = sockets s" "descs s' = descs s"
    "msgs s' = msgs s" "faults s' = faults s" "infos s' = infos s" "nodes s' = nodes s"
    "allocs s' = allocs s" "vmst s' = vmst s" "held s' = held s" "now s' = now s"
    "cpu_task s' = cpu_task s" "cpu_thread s' = cpu_thread s" "cpu_locked s' = cpu_locked s"
    "cpu_nextInterrupt s' = cpu_nextInterrupt s" "pidHashmap s' = pidHashmap s"
    "pidPool s' = pidPool s" "ppInitialized s' = ppInitialized s"
    "interruptThread s' = interruptThread s" "irqMask s' = irqMask s"
    "pagerThread s' = pagerThread s" "firstFault s' = firstFault s" "lastFault s' = lastFault s"
    "cores (threads s') = cores (threads s)"
proof -
  note eq = arg_cong[OF assms]
  show "raws s' = raws s" using eq[of raws] by (simp add: hide_queue_def)
  show "tasks s' = tasks s" using eq[of tasks] by (simp add: hide_queue_def)
  show "sockets s' = sockets s" using eq[of sockets] by (simp add: hide_queue_def)
  show "descs s' = descs s" using eq[of descs] by (simp add: hide_queue_def)
  show "msgs s' = msgs s" using eq[of msgs] by (simp add: hide_queue_def)
  show "faults s' = faults s" using eq[of faults] by (simp add: hide_queue_def)
  show "infos s' = infos s" using eq[of infos] by (simp add: hide_queue_def)
  show "nodes s' = nodes s" using eq[of nodes] by (simp add: hide_queue_def)
  show "allocs s' = allocs s" using eq[of allocs] by (simp add: hide_queue_def)
  show "vmst s' = vmst s" using eq[of vmst] by (simp add: hide_queue_def)
  show "held s' = held s" using eq[of held] by (simp add: hide_queue_def)
  show "now s' = now s" using eq[of now] by (simp add: hide_queue_def)
  show "cpu_task s' = cpu_task s" using eq[of cpu_task] by (simp add: hide_queue_def)
  show "cpu_thread s' = cpu_thread s" using eq[of cpu_thread] by (simp add: hide_queue_def)
  show "cpu_locked s' = cpu_locked s" using eq[of cpu_locked] by (simp add: hide_queue_def)
  show "cpu_nextInterrupt s' = cpu_nextInterrupt s" using eq[of cpu_nextInterrupt] by (simp add: hide_queue_def)
  show "pidHashmap s' = pidHashmap s" using eq[of pidHashmap] by (simp add: hide_queue_def)
  show "pidPool s' = pidPool s" using eq[of pidPool] by (simp add: hide_queue_def)
  show "ppInitialized s' = ppInitialized s" using eq[of ppInitialized] by (simp add: hide_queue_def)
  show "interruptThread s' = interruptThread s" using eq[of interruptThread] by (simp add: hide_queue_def)
  show "irqMask s' = irqMask s" using eq[of irqMask] by (simp add: hide_queue_def)
  show "pagerThread s' = pagerThread s" using eq[of pagerThread] by (simp add: hide_queue_def)
  show "firstFault s' = firstFault s" using eq[of firstFault] by (simp add: hide_queue_def)
  show "lastFault s' = lastFault s" using eq[of lastFault] by (simp add: hide_queue_def)
  show "cores (threads s') = cores (threads s)" using eq[of threads] by (simp add: hide_queue_def)
qed

lemma thread_core_fields:
  assumes "thread_core t' = thread_core t"
  shows "th_next t' = th_next t" "th_last t' = th_last t" "th_task t' = th_task t"
    "th_nextTimestamp t' = th_nextTimestamp t" "th_stack t' = th_stack t"
    "th_isPolling t' = th_isPolling t" "th_state t' = th_state t"
proof -
  note eq = arg_cong[OF assms]
  show "th_next t' = th_next t" using eq[of th_next] by (simp add: thread_core_def)
  show "th_last t' = th_last t" using eq[of th_last] by (simp add: thread_core_def)
  show "th_task t' = th_task t" using eq[of th_task] by (simp add: thread_core_def)
  show "th_nextTimestamp t' = th_nextTimestamp t"
    using eq[of th_nextTimestamp] by (simp add: thread_core_def)
  show "th_stack t' = th_stack t" using eq[of th_stack] by (simp add: thread_core_def)
  show "th_isPolling t' = th_isPolling t" using eq[of th_isPolling] by (simp add: thread_core_def)
  show "th_state t' = th_state t" using eq[of th_state] by (simp add: thread_core_def)
qed

lemma cores_None:
  assumes "cores ts' = cores ts"
  shows "(ts' p = None) = (ts p = None)"
proof -
  have "cores ts' p = cores ts p" by (simp only: assms)
  then show ?thesis by (cases "ts p"; cases "ts' p") (simp_all add: cores_def)
qed

lemma live_hide_queue:
  assumes "hide_queue s' = hide_queue s"
  shows "live s' = live s"
proof
  fix p
  show "live s' p = live s p"
    unfolding live_def hide_queue_fields(1-8)[OF assms]
      cores_None[OF hide_queue_fields(25)[OF assms]] by (rule refl)
qed

text \<open>Changes to the rest of the state commute with changes of the queue.\<close>

lemma hide_queue_commute:
  assumes "hide_queue s' = hide_queue s"
  shows "hide_queue (s'\<lparr>allocs := a, raws := r, threads := (threads s')(p := Some k)\<rparr>) =
      hide_queue (s\<lparr>allocs := a, raws := r, threads := (threads s)(p := Some k)\<rparr>)"
    and "hide_queue (s'\<lparr>held := h\<rparr>) = hide_queue (s\<lparr>held := h\<rparr>)"
    and "hide_queue (s'\<lparr>tasks := tm\<rparr>) = hide_queue (s\<lparr>tasks := tm\<rparr>)"
proof -
  note f = hide_queue_fields[OF assms]
  have c: "cores ((threads s')(p := Some k)) = cores ((threads s)(p := Some k))"
  proof
    fix z
    show "cores ((threads s')(p := Some k)) z = cores ((threads s)(p := Some k)) z"
      using arg_cong[OF f(25), of "\<lambda>g. g z"] by (simp add: cores_def)
  qed
  show "hide_queue (s'\<lparr>allocs := a, raws := r, threads := (threads s')(p := Some k)\<rparr>) =
      hide_queue (s\<lparr>allocs := a, raws := r, threads := (threads s)(p := Some k)\<rparr>)"
    by (intro sched.equality) (simp_all add: hide_queue_def f c)
  show "hide_queue (s'\<lparr>held := h\<rparr>) = hide_queue (s\<lparr>held := h\<rparr>)"
    by (intro sched.equality) (simp_all add: hide_queue_def f)
  show "hide_queue (s'\<lparr>tasks := tm\<rparr>) = hide_queue (s\<lparr>tasks := tm\<rparr>)"
    by (intro sched.equality) (simp_all add: hide_queue_def f)
qed

subsection \<open>Appending a thread\<close>

lemma push_unconditional_appends:
  assumes rq: "run_queue s xs" and x: "threads s x = Some t" "x \<notin> set xs" "x \<noteq> NULL"
  shows "\<exists>s'. push_unconditional x s = Ret () s' \<and> hide_queue s' = hide_queue s \<and>
    queueCount s' = queueCount s \<and> run_queue (s'\<lparr>queueCount := queueCount s + 1\<rparr>) (xs @ [x])"
proof (cases xs rule: rev_cases)
  case Nil
  let ?s = "s\<lparr>firstThread := x, lastThread := x,
    threads := (threads s)(x \<mapsto> t\<lparr>th_queueLast := NULL, th_queueNext := NULL\<rparr>)\<rparr>"
  have l: "lastThread s = NULL" using rq Nil by (simp add: run_queue_def)
  have "push_unconditional x s = Ret () ?s"
    using l x(1) by (simp add: push_unconditional_def kern)
  moreover have "hide_queue ?s = hide_queue s"
    using x(1) by (simp add: hide_queue_def)
  moreover have "run_queue (?s\<lparr>queueCount := queueCount s + 1\<rparr>) (xs @ [x])"
    using rq x Nil by (simp add: run_queue_def dlist_def)
  ultimately show ?thesis by (intro exI[of _ ?s]) simp
next
  case (snoc ys y)
  obtain ty where y: "threads s y = Some ty" using run_queue_thread[OF rq] snoc by auto
  have ne: "y \<noteq> x" "lastThread s = y" "y \<noteq> NULL"
    using rq x(2) snoc run_queue_nonnull[OF rq] by (auto simp: run_queue_def)
  let ?s = "s\<lparr>threads := (threads s)(y \<mapsto> ty\<lparr>th_queueNext := x\<rparr>,
      x \<mapsto> t\<lparr>th_queueLast := y, th_queueNext := NULL\<rparr>), lastThread := x\<rparr>"
  have "push_unconditional x s = Ret () ?s"
    using ne x(1) y by (simp add: push_unconditional_def kern)
  moreover have "hide_queue ?s = hide_queue s"
    using x(1) y ne by (simp add: hide_queue_def)
  moreover have "dlist (queue_next (threads ?s)) (queue_last (threads ?s)) (xs @ [x])"
    using x ne snoc run_queue_distinct[OF rq] y
    by (intro dlist_push_back[OF run_queue_dlist[OF rq] x(3,2)]) (auto simp: queue_links_Some)
  ultimately show ?thesis
    using rq x y ne snoc by (intro exI[of _ ?s]) (auto simp: run_queue_def first_of_append last_of_append)
qed

lemma run_queue_cong:
  assumes "threads s' = threads s" "firstThread s' = firstThread s" "lastThread s' = lastThread s"
    "queueCount s' = queueCount s"
  shows "run_queue s' xs = run_queue s xs"
  using assms by (simp add: run_queue_def)

text \<open>The tail of \<open>anscheduler_loop_push\<close> is the code of \<open>_push_unconditional\<close> once more.\<close>

lemma both_ends: "(\<lambda>s. s\<lparr>lastThread := x, firstThread := x\<rparr>) = (\<lambda>s. s\<lparr>firstThread := x, lastThread := x\<rparr>)"
  by (rule ext) (rule sched.equality; simp)

lemma loop_push_alt:
  "anscheduler_loop_push thread =
     bnd (rd_thread thread) (\<lambda>th.
     bnd (if th_task th \<noteq> NULL then
            bnd (anscheduler_lock (KillLock (th_task th))) (\<lambda>_.
            bnd (rd_task (th_task th)) (\<lambda>tk.
            bnd (anscheduler_unlock (KillLock (th_task th))) (\<lambda>_.
            ret (t_isKilled tk \<noteq> 0))))
          else ret False) (\<lambda>killed.
     if killed then skip
     else
       bnd (anscheduler_lock LoopLock) (\<lambda>_.
       bnd (push_unconditional thread) (\<lambda>_.
       bnd (modify (\<lambda>s. s\<lparr>queueCount := queueCount s + 1\<rparr>)) (\<lambda>_.
       anscheduler_unlock LoopLock)))))"
proof -
  have bnd_assoc: "bnd (bnd m f) g = bnd m (\<lambda>x. bnd (f x) g)" for m f g
    by (rule ext) (simp add: bnd_def split: outcome.splits)
  show ?thesis
    unfolding anscheduler_loop_push_def push_unconditional_def both_ends bnd_assoc by (rule refl)
qed

lemma loop_push_check:
  assumes "killable s task"
  shows "(if task \<noteq> NULL then
            bnd (anscheduler_lock (KillLock task)) (\<lambda>_.
            bnd (rd_task task) (\<lambda>tk.
            bnd (anscheduler_unlock (KillLock task)) (\<lambda>_.
            ret (t_isKilled tk \<noteq> 0))))
          else ret False) s = Ret (\<not> task_alive s task) s"
proof (cases "task = NULL")
  case False
  then obtain tk where tk: "tasks s task = Some tk" "KillLock task \<notin> set (held s)"
    using assms by (auto simp: killable_def)
  with False show ?thesis by (simp add: kern task_alive_def)
qed (simp add: task_alive_def kern)

lemma anscheduler_loop_push_killed:
  assumes "threads s x = Some t" and "killable s (th_task t)" and "\<not> task_alive s (th_task t)"
  shows "anscheduler_loop_push x s = Ret () s"
  using assms loop_push_check[OF assms(2)] by (simp add: loop_push_alt kern)

lemma anscheduler_loop_push_appends:
  assumes rq: "run_queue s xs" and x: "threads s x = Some t" "x \<notin> set xs" "x \<noteq> NULL"
    and ok: "killable s (th_task t)" "task_alive s (th_task t)" and l: "LoopLock \<notin> set (held s)"
  shows "\<exists>s'. anscheduler_loop_push x s = Ret () s' \<and> hide_queue s' = hide_queue s \<and>
    run_queue s' (xs @ [x])"
proof -
  let ?s1 = "s\<lparr>held := LoopLock # held s\<rparr>"
  have "run_queue ?s1 xs" using rq by (simp add: run_queue_def)
  then obtain s2 where s2: "push_unconditional x ?s1 = Ret () s2" "hide_queue s2 = hide_queue ?s1"
    "queueCount s2 = queueCount ?s1" "run_queue (s2\<lparr>queueCount := queueCount ?s1 + 1\<rparr>) (xs @ [x])"
    using push_unconditional_appends[of ?s1 xs x t] x by auto
  let ?s3 = "s2\<lparr>queueCount := queueCount s2 + 1\<rparr>"
  let ?s' = "?s3\<lparr>held := held s\<rparr>"
  have held: "held s2 = LoopLock # held s" using hide_queue_fields(11)[OF s2(2)] by simp
  have "anscheduler_loop_push x s = Ret () ?s'"
    using x(1) loop_push_check[OF ok(1)] ok(2) l s2(1) held by (simp add: loop_push_alt kern)
  moreover have "hide_queue ?s' = hide_queue s"
    using hide_queue_commute(2)[OF s2(2), of "held s"] by (simp add: hide_queue_def)
  moreover have "run_queue ?s' (xs @ [x])" using s2(3,4) by (simp add: run_queue_def)
  ultimately show ?thesis by blast
qed

subsection \<open>Taking the first thread\<close>

lemma shift_thread_removes:
  assumes rq: "run_queue s (x # xs)"
  shows "\<exists>s'. shift_thread s = Ret x s' \<and> hide_queue s' = hide_queue s \<and>
    queueCount s' = queueCount s \<and> run_queue (s'\<lparr>queueCount := queueCount s - 1\<rparr>) xs \<and>
    (\<exists>t. threads s' x = Some t \<and> unlinked t)"
proof -
  obtain t where t: "threads s x = Some t" using run_queue_thread[OF rq] by auto
  have first: "firstThread s = x" using rq by (simp add: run_queue_def)
  have nx: "th_queueNext t = first_of xs"
    using dlist_at(2)[of _ _ "[]" x xs] run_queue_dlist[OF rq] t by (simp add: queue_links_Some)
  let ?t = "t\<lparr>th_queueLast := NULL, th_queueNext := NULL\<rparr>"
  show ?thesis
  proof (cases xs)
    case Nil
    let ?s = "s\<lparr>firstThread := NULL, lastThread := NULL, threads := (threads s)(x \<mapsto> ?t)\<rparr>"
    have "shift_thread s = Ret x ?s"
      using first t nx Nil by (simp add: shift_thread_def kern)
    moreover have "hide_queue ?s = hide_queue s" using t by (simp add: hide_queue_def)
    moreover have "run_queue (?s\<lparr>queueCount := queueCount s - 1\<rparr>) xs"
      using rq Nil by (simp add: run_queue_def)
    ultimately show ?thesis by (intro exI[of _ ?s]) (simp add: unlinked_def)
  next
    case (Cons y ys)
    obtain ty where y: "threads s y = Some ty" using run_queue_thread[OF rq] Cons by auto
    have ne: "y \<noteq> x" "y \<noteq> NULL"
      using run_queue_distinct[OF rq] run_queue_nonnull[OF rq] Cons by auto
    let ?ts = "(threads s)(y \<mapsto> ty\<lparr>th_queueLast := NULL\<rparr>, x \<mapsto> ?t)"
    let ?s = "s\<lparr>firstThread := y, threads := ?ts\<rparr>"
    have "shift_thread s = Ret x ?s"
      using first t y nx ne Cons by (simp add: shift_thread_def kern)
    moreover have "hide_queue ?s = hide_queue s" using t y ne by (simp add: hide_queue_def)
    moreover have "dlist (queue_next ?ts) (queue_last ?ts) ([] @ xs)"
    proof (rule dlist_unlink[of "queue_next (threads s)" "queue_last (threads s)" "[]" x])
      have nin: "x \<notin> set xs" "y \<notin> set ys" using run_queue_distinct[OF rq] Cons by auto
      have ynx: "queue_next (threads s) y = th_queueNext ty" using y by (simp add: queue_next_def)
      show "dlist (queue_next (threads s)) (queue_last (threads s)) ([] @ x # xs)"
        using run_queue_dlist[OF rq] by simp
      show "queue_next ?ts z = queue_next (threads s) z" if "z \<in> set xs \<union> set (butlast [])" for z
        using that nin(1) ynx by auto
      show "queue_last ?ts z = queue_last (threads s) z" if "z \<in> set [] \<union> set (tl xs)" for z
        using that nin Cons by auto
    qed (use Cons ne in simp_all)
    ultimately show ?thesis
      using rq Cons by (intro exI[of _ ?s]) (auto simp: run_queue_def unlinked_def)
  qed
qed

subsection \<open>Removing a thread\<close>

lemma anscheduler_loop_delete_absent:
  assumes "run_queue s xs" and "threads s x = Some t" and "unlinked t" and "x \<notin> set xs"
    and "x \<noteq> NULL" and "LoopLock \<notin> set (held s)"
  shows "anscheduler_loop_delete x s = Ret () s"
proof -
  have "x \<noteq> firstThread s"
    using assms(1,4,5) by (cases xs) (auto simp: run_queue_def)
  then show ?thesis
    using assms(2,3,6) by (simp add: anscheduler_loop_delete_def unlinked_def kern)
qed

lemma unlink_threads_simps:
  "unlink_threads [] [] ts = ts"
  "ts b = Some tb \<Longrightarrow> unlink_threads [] (b # bs) ts = ts(b \<mapsto> tb\<lparr>th_queueLast := NULL\<rparr>)"
  "ts a = Some ta \<Longrightarrow> unlink_threads (as @ [a]) [] ts = ts(a \<mapsto> ta\<lparr>th_queueNext := NULL\<rparr>)"
  "ts a = Some ta \<Longrightarrow> ts b = Some tb \<Longrightarrow> b \<noteq> a \<Longrightarrow> unlink_threads (as @ [a]) (b # bs) ts =
     ts(a \<mapsto> ta\<lparr>th_queueNext := b\<rparr>, b \<mapsto> tb\<lparr>th_queueLast := a\<rparr>)"
  by (simp_all add: unlink_threads_def Let_def)

lemma anscheduler_loop_delete_runs:
  assumes rq: "run_queue s (as @ x # bs)" and l: "LoopLock \<notin> set (held s)"
  shows "anscheduler_loop_delete x s = Ret () (s\<lparr>firstThread := first_of (as @ bs),
    lastThread := last_of (as @ bs), threads := unlink_threads as bs (threads s),
    queueCount := queueCount s - 1\<rparr>)"
proof -
  obtain t where t: "threads s x = Some t" using run_queue_thread[OF rq] by auto
  have d: "x \<notin> set as" "x \<notin> set bs" "set as \<inter> set bs = {}"
    using run_queue_distinct[OF rq] by auto
  have nn: "NULL \<notin> set as" "NULL \<notin> set bs" "x \<noteq> NULL" using run_queue_nonnull[OF rq] by auto
  have links: "th_queueNext t = first_of bs" "th_queueLast t = last_of as"
    using dlist_at[OF run_queue_dlist[OF rq]] t by (simp_all add: queue_links_Some)
  have first: "firstThread s = first_of (as @ [x])" and lst: "lastThread s = last_of (x # bs)"
    using rq by (auto simp: run_queue_def first_of_append last_of_append)
  have fx: "first_of (as @ [x]) = x \<longleftrightarrow> as = []" using d(1) by (cases as) auto
  have lx: "last_of (x # bs) = x \<longleftrightarrow> bs = []" using d(2) by (cases bs rule: rev_cases) (auto simp: last_of_def)
  consider (nn) "as = []" "bs = []" | (nc) b bs' where "as = []" "bs = b # bs'"
    | (cn) as' a where "as = as' @ [a]" "bs = []" | (cc) as' a b bs' where "as = as' @ [a]" "bs = b # bs'"
    by (cases as rule: rev_cases; cases bs) auto
  then show ?thesis
  proof cases
    case nn
    with t links first lst l show ?thesis
      by (simp add: anscheduler_loop_delete_def unlink_threads_simps kern)
  next
    case nc
    obtain tb where tb: "threads s b = Some tb" using run_queue_thread[OF rq] nc by auto
    have "b \<noteq> x" "b \<noteq> NULL" "lastThread s \<noteq> x" using d nn nc lst lx by auto
    moreover have "last_of bs = lastThread s" using lst nc by simp
    ultimately show ?thesis using t tb links(1,2) first l nc
      by (simp add: anscheduler_loop_delete_def unlink_threads_simps kern)
  next
    case cn
    obtain ta where ta: "threads s a = Some ta" using run_queue_thread[OF rq] cn by auto
    have "a \<noteq> x" "a \<noteq> NULL" "firstThread s \<noteq> x" using d nn cn first fx by auto
    moreover have "first_of as = firstThread s" using first cn by (simp add: first_of_append)
    ultimately show ?thesis using t ta links lst l cn
      by (simp add: anscheduler_loop_delete_def unlink_threads_simps kern)
  next
    case cc
    obtain ta tb where ab: "threads s a = Some ta" "threads s b = Some tb"
      using run_queue_thread[OF rq] cc by fastforce
    have "a \<noteq> x" "a \<noteq> NULL" "b \<noteq> x" "b \<noteq> NULL" "b \<noteq> a" "firstThread s \<noteq> x" "lastThread s \<noteq> x"
      using d nn cc first fx lst lx by auto
    moreover have "first_of (as @ bs) = firstThread s" "last_of (as @ bs) = lastThread s"
      using first lst cc by (simp_all add: first_of_append last_of_append)
    ultimately show ?thesis using t ab links l cc
      by (simp add: anscheduler_loop_delete_def unlink_threads_simps kern)
  qed
qed

lemma unlink_threads_effect:
  assumes d: "set as \<inter> set bs = {}" and mem: "\<forall>x \<in> set as \<union> set bs. ts x \<noteq> None"
  shows "queue_next (unlink_threads as bs ts) =
      (if as = [] then queue_next ts else (queue_next ts)(last as := first_of bs))"
    and "queue_last (unlink_threads as bs ts) =
      (if bs = [] then queue_last ts else (queue_last ts)(hd bs := last_of as))"
    and "cores (unlink_threads as bs ts) = cores ts"
    and "p \<notin> set as \<Longrightarrow> p \<notin> set bs \<Longrightarrow> unlink_threads as bs ts p = ts p"
proof -
  have links: "(queue_next ts)(p := th_queueNext t) = queue_next ts"
    "(queue_last ts)(p := th_queueLast t) = queue_last ts" if "ts p = Some t" for p t
    using that by (simp_all add: queue_links_Some fun_upd_idem)
  have ends: "(as = [] \<or> (\<exists>as' a t. as = as' @ [a] \<and> ts a = Some t))"
    "(bs = [] \<or> (\<exists>b bs' t. bs = b # bs' \<and> ts b = Some t))"
    using mem by (cases as rule: rev_cases; auto) (use mem in \<open>cases bs; auto\<close>)
  note defs = unlink_threads_simps links cores_upd
  have ne: "as = as' @ [a] \<Longrightarrow> bs = b # bs' \<Longrightarrow> b \<noteq> a" for as' a b bs' using d by auto
  show "queue_next (unlink_threads as bs ts) =
      (if as = [] then queue_next ts else (queue_next ts)(last as := first_of bs))"
    using ends ne by (elim disjE exE conjE) (simp_all add: unlink_threads_simps fun_eq_iff queue_links_Some)
  show "queue_last (unlink_threads as bs ts) =
      (if bs = [] then queue_last ts else (queue_last ts)(hd bs := last_of as))"
    using ends ne by (elim disjE exE conjE) (simp_all add: defs)
  show "cores (unlink_threads as bs ts) = cores ts"
    using ends ne by (elim disjE exE conjE) (simp_all add: defs)
  show "p \<notin> set as \<Longrightarrow> p \<notin> set bs \<Longrightarrow> unlink_threads as bs ts p = ts p"
    using ends ne by (elim disjE exE conjE) (simp_all add: defs)
qed

lemma anscheduler_loop_delete_removes:
  assumes rq: "run_queue s (as @ x # bs)" and l: "LoopLock \<notin> set (held s)"
  shows "\<exists>s'. anscheduler_loop_delete x s = Ret () s' \<and> hide_queue s' = hide_queue s \<and>
    run_queue s' (as @ bs) \<and> (\<forall>p. p \<notin> set (as @ bs) \<longrightarrow> threads s' p = threads s p)"
proof -
  let ?ts = "unlink_threads as bs (threads s)"
  let ?s = "s\<lparr>firstThread := first_of (as @ bs), lastThread := last_of (as @ bs), threads := ?ts,
    queueCount := queueCount s - 1\<rparr>"
  have mem: "\<forall>x \<in> set as \<union> set bs. threads s x \<noteq> None"
    using rq by (auto simp: run_queue_def)
  have d: "set as \<inter> set bs = {}" "x \<notin> set as" "x \<notin> set bs" "distinct as" "distinct bs"
    using run_queue_distinct[OF rq] by auto
  note eff = unlink_threads_effect[OF d(1) mem]
  have "dlist (queue_next ?ts) (queue_last ?ts) (as @ bs)"
  proof (rule dlist_unlink[OF run_queue_dlist[OF rq]])
    show "queue_next ?ts y = queue_next (threads s) y" if "y \<in> set bs \<union> set (butlast as)" for y
      using that d(1,4) unfolding eff by (cases as rule: rev_cases) auto
    show "queue_last ?ts y = queue_last (threads s) y" if "y \<in> set as \<union> set (tl bs)" for y
      using that d(1,5) unfolding eff by (cases bs) auto
  qed (simp_all add: eff)
  moreover have "\<forall>y\<in>set (as @ bs). ?ts y \<noteq> None"
  proof
    fix y assume "y \<in> set (as @ bs)"
    then have "cores ?ts y \<noteq> None" using mem unfolding eff(3) by (auto simp: cores_def)
    then show "?ts y \<noteq> None" by (simp add: cores_def)
  qed
  moreover have "queueCount s - 1 = of_nat (length (as @ bs))"
    using rq by (simp add: run_queue_def)
  ultimately have "run_queue ?s (as @ bs)" by (simp add: run_queue_def)
  moreover have "hide_queue ?s = hide_queue s"
    by (simp add: hide_queue_def eff(3))
  ultimately show ?thesis
    using anscheduler_loop_delete_runs[OF rq l] eff(4) by (intro exI[of _ ?s]) simp
qed

lemma filter_False_id: "x \<notin> set xs \<Longrightarrow> filter (\<lambda>y. y \<noteq> x) xs = xs"
  by (induction xs) auto

text \<open>
  Deleting a thread that may or may not be queued: the list loses it if it is there.
\<close>

lemma anscheduler_loop_delete_filters:
  assumes rq: "run_queue s xs" and x: "threads s x = Some t" "x \<noteq> NULL" "x \<in> set xs \<or> unlinked t"
    and l: "LoopLock \<notin> set (held s)"
  shows "\<exists>s'. anscheduler_loop_delete x s = Ret () s' \<and> hide_queue s' = hide_queue s \<and>
    run_queue s' (filter (\<lambda>y. y \<noteq> x) xs) \<and> (\<forall>p. p \<notin> set xs \<longrightarrow> threads s' p = threads s p)"
proof (cases "x \<in> set xs")
  case True
  then obtain as bs where xs: "xs = as @ x # bs" by (auto dest: split_list)
  then have f: "filter (\<lambda>y. y \<noteq> x) xs = as @ bs"
    using run_queue_distinct[OF rq] by (simp add: filter_False_id)
  show ?thesis
    using anscheduler_loop_delete_removes[of s as x bs] rq l xs unfolding f by auto
next
  case False
  then have "filter (\<lambda>y. y \<noteq> x) xs = xs" by (simp add: filter_False_id)
  then show ?thesis
    using anscheduler_loop_delete_absent[OF rq x(1) _ False x(2) l] x(3) False rq by auto
qed

subsection \<open>Kernel threads\<close>

context allocator
begin

text \<open>
  Starting a kernel thread aborts for lack of memory, or allocates a thread and a stack and
  puts the thread at the end of the queue.
\<close>

lemma push_kernel_spawns:
  assumes rq: "run_queue s xs" and c: "cpu_locked s" and l: "LoopLock \<notin> set (held s)"
  shows "(\<exists>e s'. anscheduler_loop_push_kernel P arg fn s = Stop (Aborted e) s') \<or>
    (\<exists>p stack s'. p \<noteq> NULL \<and> \<not> live s p \<and> stack \<noteq> NULL \<and> \<not> live s stack \<and> stack \<noteq> p \<and>
       anscheduler_loop_push_kernel P arg fn s = Ret () s' \<and> run_queue s' (xs @ [p]) \<and>
       hide_queue s' = hide_queue (s\<lparr>allocs := Suc (Suc (allocs s)), raws := (raws s)(stack \<mapsto> 0x1000),
         threads := (threads s)(p \<mapsto> kernel_thread fn arg stack)\<rparr>))"
  using alloc_result[OF c, of "sizeof_thread_t P"]
proof (elim disjE exE conjE)
  assume "anscheduler_alloc P (sizeof_thread_t P) s = Ret NULL (s\<lparr>allocs := Suc (allocs s)\<rparr>)"
  then show ?thesis by (simp add: anscheduler_loop_push_kernel_def kern)
next
  fix p
  let ?s1 = "s\<lparr>allocs := Suc (allocs s), raws := (raws s)(p \<mapsto> sizeof_thread_t P)\<rparr>"
  assume p: "p \<noteq> NULL" "\<not> live s p" and a1: "anscheduler_alloc P (sizeof_thread_t P) s = Ret p ?s1"
  have "cpu_locked ?s1" using c by simp
  from alloc_result[OF this, of "0x1000"] show ?thesis
  proof (elim disjE exE conjE)
    assume "anscheduler_alloc P 0x1000 ?s1 = Ret NULL (?s1\<lparr>allocs := Suc (allocs ?s1)\<rparr>)"
    then show ?thesis using p(1) a1 c by (simp add: anscheduler_loop_push_kernel_def kern)
  next
    fix q
    let ?s2 = "?s1\<lparr>allocs := Suc (allocs ?s1), raws := (raws ?s1)(q \<mapsto> 0x1000)\<rparr>"
    assume q: "q \<noteq> NULL" "\<not> live ?s1 q" and a2: "anscheduler_alloc P 0x1000 ?s1 = Ret q ?s2"
    have q2: "q \<noteq> p" "\<not> live s q" using q(2) unfolding live_raws by blast+
    let ?s3 = "s\<lparr>allocs := Suc (Suc (allocs s)), raws := (raws s)(q \<mapsto> 0x1000),
         threads := (threads s)(p \<mapsto> kernel_thread fn arg q)\<rparr>"
    have raw: "(raws ?s2)(p := None) = (raws s)(q \<mapsto> 0x1000)"
    proof
      fix z
      show "((raws ?s2)(p := None)) z = ((raws s)(q \<mapsto> 0x1000)) z"
        using q2(1) not_live(1)[OF p(2)] by (cases "z = p"; cases "z = q") simp_all
    qed
    have run: "anscheduler_loop_push_kernel P arg fn s = anscheduler_loop_push p ?s3"
      using p(1) q(1) q2(1) a1 a2 raw
      by (simp add: anscheduler_loop_push_kernel_def kern kernel_thread_def)
    have "p \<notin> set xs" using run_queue_thread[OF rq, of p] p(2) by auto
    moreover have "run_queue ?s3 xs"
    proof -
      have "dlist (queue_next (threads ?s3)) (queue_last (threads ?s3)) xs =
        dlist (queue_next (threads s)) (queue_last (threads s)) xs"
        using \<open>p \<notin> set xs\<close> by (intro dlist_cong) auto
      then show ?thesis using rq by (auto simp: run_queue_def)
    qed
    ultimately obtain s' where "anscheduler_loop_push p ?s3 = Ret () s'"
      "hide_queue s' = hide_queue ?s3" "run_queue s' (xs @ [p])"
      using anscheduler_loop_push_appends[of ?s3 xs p "kernel_thread fn arg q"] p(1) l
      by (auto simp: kernel_thread_def zero_thread_def killable_def task_alive_def)
    with p q(1) q2 run show ?thesis
      by (intro disjI2 exI[of _ p] exI[of _ q] exI[of _ s']) (simp only: simp_thms)
  qed
qed

end

subsection \<open>Properties\<close>

lemma queue_ex_list: "run_queue queue_ex [0x100, 0x200, 0x300]"
  by (simp add: run_queue_def queue_ex_def dlist_def queue_next_def queue_last_def zero_thread_def)

lemma queue_ex_held: "held queue_ex = []" "threads queue_ex 0x400 = Some zero_thread"
  by (simp_all add: queue_ex_def flat_boot_def boot_def)

text \<open>C10: \<open>anscheduler_loop_push\<close> appends a thread that is not queued to the run queue if it is
  a kernel thread or its task is alive, and leaves the queue as it is if the task is killed;
  the queue stays a well-formed doubly linked list with its count right, and no other part of
  the state changes.\<close>

theorem loop_push_fifo:
  assumes "run_queue s xs" and "threads s x = Some t" and "x \<notin> set xs" and "x \<noteq> NULL"
    and "killable s (th_task t)" and "LoopLock \<notin> set (held s)"
  shows "\<exists>s'. anscheduler_loop_push x s = Ret () s' \<and> hide_queue s' = hide_queue s \<and>
    run_queue s' (if task_alive s (th_task t) then xs @ [x] else xs)"
  using anscheduler_loop_push_appends[OF assms(1-5) _ assms(6)]
    anscheduler_loop_push_killed[OF assms(2,5)] assms(1) by (cases "task_alive s (th_task t)") auto

theorem loop_push_fifo_witness:
  "\<exists>s'. anscheduler_loop_push 0x400 queue_ex = Ret () s' \<and> hide_queue s' = hide_queue queue_ex \<and>
    run_queue s' [0x100, 0x200, 0x300, 0x400]"
  using loop_push_fifo[OF queue_ex_list queue_ex_held(2)] queue_ex_held(1)
  by (simp add: killable_def task_alive_def zero_thread_def)

text \<open>C11: \<open>anscheduler_loop_delete\<close> takes exactly the given thread out of the run queue, wherever
  it is in it, keeps the order of the others and the count right, and changes no other part of
  the state; on a thread that is not queued (its links are clear) it does nothing.\<close>

theorem loop_delete_exact:
  assumes "run_queue s xs" and "threads s x = Some t" and "x \<noteq> NULL" and "x \<in> set xs \<or> unlinked t"
    and "LoopLock \<notin> set (held s)"
  shows "\<exists>s'. anscheduler_loop_delete x s = Ret () s' \<and> hide_queue s' = hide_queue s \<and>
    run_queue s' (filter (\<lambda>y. y \<noteq> x) xs)"
  using anscheduler_loop_delete_filters[OF assms] by blast

theorem loop_delete_exact_witness:
  "\<exists>s'. anscheduler_loop_delete 0x200 queue_ex = Ret () s' \<and> hide_queue s' = hide_queue queue_ex \<and>
    run_queue s' [0x100, 0x300]"
  using loop_delete_exact[OF queue_ex_list, of "0x200"] queue_ex_held(1) by (simp add: queue_ex_def)

text \<open>\<open>anscheduler_loop_delete\<close> is not idempotent, although its check "see if it is really in
  the list at all" suggests it: it leaves the links of the thread it removes in place, so a
  second call on the same thread passes the check and decrements \<open>queueCount\<close> again, and the
  count is then one less than the length of the list.\<close>

lemma loop_delete_twice_miscounts:
  assumes "run_queue s (as @ x # bs)" and "as @ bs \<noteq> []" and "LoopLock \<notin> set (held s)"
  shows "\<exists>s1 s2. anscheduler_loop_delete x s = Ret () s1 \<and> run_queue s1 (as @ bs) \<and>
    anscheduler_loop_delete x s1 = Ret () s2 \<and> queueCount s2 = of_nat (length (as @ bs)) - 1"
proof -
  obtain t where t: "threads s x = Some t" using run_queue_thread[OF assms(1)] by auto
  obtain s1 where s1: "anscheduler_loop_delete x s = Ret () s1" "hide_queue s1 = hide_queue s"
    "run_queue s1 (as @ bs)" "\<forall>p. p \<notin> set (as @ bs) \<longrightarrow> threads s1 p = threads s p"
    using anscheduler_loop_delete_removes[OF assms(1,3)] by blast
  have d: "x \<notin> set (as @ bs)" "x \<noteq> NULL" "NULL \<notin> set (as @ bs)"
    using run_queue_distinct[OF assms(1)] run_queue_nonnull[OF assms(1)] by auto
  have t1: "threads s1 x = Some t" using s1(4) d(1) t by simp
  have links: "th_queueNext t = first_of bs" "th_queueLast t = last_of as"
    using dlist_at[OF run_queue_dlist[OF assms(1)]] t by (simp_all add: queue_links_Some)
  have ends: "firstThread s1 \<noteq> x" "lastThread s1 \<noteq> x" "LoopLock \<notin> set (held s1)"
    using s1(3) d first_of_in[of "as @ bs"] last_of_in[of "as @ bs"] assms(3)
      hide_queue_fields(11)[OF s1(2)] by (auto simp: run_queue_def)
  have ex: "y \<noteq> NULL \<Longrightarrow> y \<in> set (as @ bs) \<Longrightarrow> \<exists>ty. threads s1 y = Some ty" for y
    using run_queue_thread[OF s1(3)] by auto
  have nx: "first_of bs \<noteq> NULL \<Longrightarrow> \<exists>ty. threads s1 (first_of bs) = Some ty \<and> first_of bs \<noteq> x"
    and pv: "last_of as \<noteq> NULL \<Longrightarrow> \<exists>ty. threads s1 (last_of as) = Some ty \<and> last_of as \<noteq> x"
    using ex first_of_in[of bs] last_of_in[of as] d(1) by auto
  have "first_of bs \<noteq> NULL \<or> last_of as \<noteq> NULL"
    using assms(2) d(3) by (cases "bs = []") (auto simp: first_of_eq_NULL last_of_eq_NULL)
  then consider (n) ty where "last_of as = NULL" "first_of bs \<noteq> NULL" "threads s1 (first_of bs) = Some ty"
    | (p) ty where "last_of as \<noteq> NULL" "first_of bs = NULL" "threads s1 (last_of as) = Some ty"
    | (b) ty tz where "last_of as \<noteq> NULL" "first_of bs \<noteq> NULL" "threads s1 (last_of as) = Some ty"
        "threads s1 (first_of bs) = Some tz"
    using nx pv by blast
  then have "\<exists>s2. anscheduler_loop_delete x s1 = Ret () s2 \<and> queueCount s2 = queueCount s1 - 1"
  proof cases
    case n
    with t1 links ends show ?thesis by (simp add: anscheduler_loop_delete_def kern)
  next
    case p
    moreover have "last_of as \<noteq> x" using p(1) pv by blast
    ultimately show ?thesis using t1 links ends by (simp add: anscheduler_loop_delete_def kern)
  next
    case b
    moreover have "last_of as \<noteq> x" using b(1) pv by blast
    ultimately show ?thesis
      using t1 links ends by (cases "first_of bs = last_of as") (simp_all add: anscheduler_loop_delete_def kern)
  qed
  then show ?thesis using s1(1,3) by (auto simp: run_queue_def)
qed

lemma loop_delete_twice_miscounts_example:
  "\<exists>s1 s2. anscheduler_loop_delete 0x200 queue_ex = Ret () s1 \<and> run_queue s1 [0x100, 0x300] \<and>
    anscheduler_loop_delete 0x200 s1 = Ret () s2 \<and> queueCount s2 = 1"
  using loop_delete_twice_miscounts[of queue_ex "[0x100]" "0x200" "[0x300]"] queue_ex_list queue_ex_held(1)
  by simp

end
