(* ===== verification/Simulation.thy ===== *)
theory Simulation
  imports Platform
begin

text \<open>
  Sequences of operations that follow an abstract machine. The locale \<open>simulation\<close> is the contract of an object
  whose operations each take a related pair of states to a related pair, or end in an abort of the
  kernel for lack of memory; then so do all sequences of operations that the abstract machine allows. Tasks
  (theory \<open>Task_Life\<close>) and the ends of sockets (theory \<open>Socket_Life\<close>) are such objects.
\<close>

fun run_seq :: "('o \<Rightarrow> ('v, unit) kern) \<Rightarrow> 'o list \<Rightarrow> ('v, unit) kern" where
  "run_seq run [] = skip"
| "run_seq run (op # ops) = bnd (run op) (\<lambda>_. run_seq run ops)"

fun allowed_seq :: "('o \<Rightarrow> 'l \<Rightarrow> bool) \<Rightarrow> ('o \<Rightarrow> 'l \<Rightarrow> 'l) \<Rightarrow> 'o list \<Rightarrow> 'l \<Rightarrow> bool" where
  "allowed_seq allowed step [] l = True"
| "allowed_seq allowed step (op # ops) l = (allowed op l \<and> allowed_seq allowed step ops (step op l))"

text \<open>A call that returns in a state with the property \<open>Q\<close>, or aborts the kernel.\<close>

definition aborts_or :: "(crash, ctl, 'a, 'v sched) outcome \<Rightarrow> ('v sched \<Rightarrow> bool) \<Rightarrow> bool" where
  "aborts_or r Q \<longleftrightarrow> (\<exists>e s'. r = Stop (Aborted e) s') \<or> (\<exists>x s'. r = Ret x s' \<and> Q s')"

lemma aborts_orI: "r = Ret x s' \<Longrightarrow> Q s' \<Longrightarrow> aborts_or r Q"
  by (auto simp: aborts_or_def)

lemma aborts_orE:
  assumes "aborts_or r Q"
  obtains e s' where "r = Stop (Aborted e) s'" | x s' where "r = Ret x s'" "Q s'"
  using assms by (auto simp: aborts_or_def)

locale simulation =
  fixes run :: "'o \<Rightarrow> ('v, unit) kern" and rel :: "'v sched \<Rightarrow> 'l \<Rightarrow> bool"
    and step :: "'o \<Rightarrow> 'l \<Rightarrow> 'l" and allowed :: "'o \<Rightarrow> 'l \<Rightarrow> bool"
  assumes simulates: "rel s l \<Longrightarrow> allowed op l \<Longrightarrow> aborts_or (run op s) (\<lambda>s'. rel s' (step op l))"
begin

lemma simulates_seq:
  "rel s l \<Longrightarrow> allowed_seq allowed step ops l \<Longrightarrow> aborts_or (run_seq run ops s) (\<lambda>s'. rel s' (fold step ops l))"
proof (induction ops arbitrary: s l)
  case Nil
  then show ?case by (simp add: aborts_or_def kern)
next
  case (Cons op ops)
  then have "aborts_or (run op s) (\<lambda>s'. rel s' (step op l))" by (simp add: simulates)
  then show ?case
  proof (cases rule: aborts_orE)
    case (1 e s')
    then show ?thesis by (simp add: aborts_or_def kern)
  next
    case (2 x s')
    then show ?thesis using Cons by (simp add: kern)
  qed
qed

end

end
