(* ===== verification/Task_Life.thy ===== *)
theory Task_Life
  imports Run_Queue Simulation
begin

text \<open>
  The lifetime of a task (\<open>src/task.c\<close>): references to it, killing it, and the job that
  frees it. A task carries a reference count and a kill flag, both guarded by its
  \<open>killLock\<close>. Once the flag is set no new reference can be taken, and the release of the
  last reference takes the task's threads off the run queue and starts the kernel thread
  that runs \<open>_free_task_method\<close>.
\<close>

subsection \<open>The C functions\<close>

definition anscheduler_pager_get :: "('v, addr) kern" where
  "anscheduler_pager_get = gets pagerThread"

definition anscheduler_task_kill :: "addr \<Rightarrow> u64 \<Rightarrow> ('v, unit) kern" where
  "anscheduler_task_kill task reason =
     bnd anscheduler_pager_get (\<lambda>pager.
     bnd (if pager \<noteq> NULL then
            bnd anscheduler_pager_get (\<lambda>pager.
            bnd (rd_thread pager) (\<lambda>th. ret (task = th_task th)))
          else ret False) (\<lambda>is_pager.
     if is_pager then skip
     else
       bnd (anscheduler_lock (KillLock task)) (\<lambda>_.
       bnd (rd_task task) (\<lambda>tk.
       if t_isKilled tk \<noteq> 0 then anscheduler_unlock (KillLock task)
       else
         bnd (wr_task task (\<lambda>t. t\<lparr>t_isKilled := 1\<rparr>)) (\<lambda>_.
         bnd (wr_task task (\<lambda>t. t\<lparr>t_killReason := reason\<rparr>)) (\<lambda>_.
         anscheduler_unlock (KillLock task)))))))"

definition anscheduler_task_reference :: "addr \<Rightarrow> ('v, bool) kern" where
  "anscheduler_task_reference task =
     bnd (anscheduler_lock (KillLock task)) (\<lambda>_.
     bnd (rd_task task) (\<lambda>tk.
     if t_isKilled tk \<noteq> 0 then
       bnd (anscheduler_unlock (KillLock task)) (\<lambda>_. ret False)
     else
       bnd (wr_task task (\<lambda>t. t\<lparr>t_refCount := t_refCount t + 1\<rparr>)) (\<lambda>_.
       bnd (anscheduler_unlock (KillLock task)) (\<lambda>_. ret True))))"

definition delete_threads :: "addr \<Rightarrow> ('v, unit) kern" where
  "delete_threads thread = kwhile (\<lambda>thread.
     if thread = NULL then ret (Inr ())
     else
       bnd (anscheduler_loop_delete thread) (\<lambda>_.
       bnd (rd_thread thread) (\<lambda>th. ret (Inl (th_next th))))) thread"

definition generate_kill_job :: "'v plat \<Rightarrow> addr \<Rightarrow> ('v, unit) kern" where
  "generate_kill_job P task =
     bnd (rd_task task) (\<lambda>tk.
     bnd (delete_threads (t_firstThread tk)) (\<lambda>_.
     anscheduler_loop_push_kernel P task Free_task_method))"

definition anscheduler_task_dereference :: "'v plat \<Rightarrow> addr \<Rightarrow> ('v, unit) kern" where
  "anscheduler_task_dereference P task =
     bnd (anscheduler_lock (KillLock task)) (\<lambda>_.
     bnd (wr_task task (\<lambda>t. t\<lparr>t_refCount := t_refCount t - 1\<rparr>)) (\<lambda>_.
     bnd (rd_task task) (\<lambda>tk.
     if t_refCount tk = 0 \<and> t_isKilled tk \<noteq> 0 then
       bnd (anscheduler_unlock (KillLock task)) (\<lambda>_. generate_kill_job P task)
     else anscheduler_unlock (KillLock task))))"

subsection \<open>The abstraction\<close>

definition thread_next :: "(addr \<rightharpoonup> thread_t) \<Rightarrow> addr \<Rightarrow> addr" where
  "thread_next ts p = (case ts p of Some t \<Rightarrow> th_next t | None \<Rightarrow> NULL)"

definition thread_last :: "(addr \<rightharpoonup> thread_t) \<Rightarrow> addr \<Rightarrow> addr" where
  "thread_last ts p = (case ts p of Some t \<Rightarrow> th_last t | None \<Rightarrow> NULL)"

text \<open>
  The list of threads of a task, linked by \<open>next\<close>; each of them exists and is in the run
  queue or linked nowhere.
\<close>

definition threads_from :: "'v sched \<Rightarrow> addr list \<Rightarrow> addr list \<Rightarrow> bool" where
  "threads_from s xs ths \<longleftrightarrow> slist (thread_next (threads s)) ths \<and>
     (\<forall>x \<in> set ths. \<exists>t. threads s x = Some t \<and> (x \<in> set xs \<or> unlinked t))"

text \<open>
  The abstract life of a task: how many references there are, whether it is killed, and how
  many jobs to free it were started.
\<close>

record life =
  lf_refs :: nat
  lf_killed :: bool
  lf_jobs :: nat

datatype life_op = Reference | Dereference | Kill

fun life_step :: "life_op \<Rightarrow> life \<Rightarrow> life" where
  "life_step Reference l = (if lf_killed l then l else l\<lparr>lf_refs := lf_refs l + 1\<rparr>)"
| "life_step Dereference l =
     (let l' = l\<lparr>lf_refs := lf_refs l - 1\<rparr>
      in if lf_refs l' = 0 \<and> lf_killed l then l'\<lparr>lf_jobs := lf_jobs l + 1\<rparr> else l')"
| "life_step Kill l = l\<lparr>lf_killed := True\<rparr>"

text \<open>A task is released only by somebody who holds a reference.\<close>

fun life_allowed :: "life_op \<Rightarrow> life \<Rightarrow> bool" where
  "life_allowed Reference l = (lf_refs l < 2 ^ 64 - 1)"
| "life_allowed Dereference l = (0 < lf_refs l)"
| "life_allowed Kill l = (0 < lf_refs l)"

definition new_life :: life where
  "new_life = \<lparr>lf_refs = 1, lf_killed = False, lf_jobs = 0\<rparr>"

text \<open>The same operations on the kernel's state, one after the other.\<close>

fun run_op :: "'v plat \<Rightarrow> addr \<Rightarrow> u64 \<Rightarrow> life_op \<Rightarrow> ('v, unit) kern" where
  "run_op P task reason Reference = bnd (anscheduler_task_reference task) (\<lambda>_. skip)"
| "run_op P task reason Dereference = anscheduler_task_dereference P task"
| "run_op P task reason Kill = anscheduler_task_kill task reason"

text \<open>The kernel threads that were started to free a task.\<close>

definition kill_jobs :: "'v sched \<Rightarrow> addr \<Rightarrow> addr set" where
  "kill_jobs s task =
     {p. \<exists>t st. threads s p = Some t \<and> th_state t = TsEntry Free_task_method task st}"

definition task_life :: "'v sched \<Rightarrow> addr \<Rightarrow> life \<Rightarrow> bool" where
  "task_life s task l \<longleftrightarrow>
     (\<exists>tk. tasks s task = Some tk \<and> t_refCount tk = of_nat (lf_refs l) \<and>
           (t_isKilled tk \<noteq> 0) = lf_killed l) \<and>
     lf_refs l < 2 ^ 64 \<and> finite (kill_jobs s task) \<and> card (kill_jobs s task) = lf_jobs l"

text \<open>
  The setting in which the operations are called: a critical section with the locks free and
  a well-formed run queue; the task is not the system pager's; and as long as the task is
  not being freed, each of its threads \<open>ths\<close> is in the run queue or linked nowhere.
\<close>

definition pager_not :: "'v sched \<Rightarrow> addr \<Rightarrow> bool" where
  "pager_not s task \<longleftrightarrow>
     (pagerThread s \<noteq> NULL \<longrightarrow> (\<exists>th. threads s (pagerThread s) = Some th \<and> th_task th \<noteq> task))"

definition life_env :: "'v sched \<Rightarrow> addr \<Rightarrow> addr list \<Rightarrow> bool" where
  "life_env s task ths \<longleftrightarrow> cpu_locked s \<and> LoopLock \<notin> set (held s) \<and> KillLock task \<notin> set (held s) \<and>
     pager_not s task \<and> (\<exists>tk. tasks s task = Some tk \<and> t_firstThread tk = first_of ths) \<and>
     (\<exists>xs. run_queue s xs \<and> (kill_jobs s task = {} \<longrightarrow> threads_from s xs ths))"

text \<open>A job to free the task was started exactly when the task is killed and unreferenced.\<close>

definition life_inv :: "life \<Rightarrow> bool" where
  "life_inv l \<longleftrightarrow> lf_jobs l = (if lf_killed l \<and> lf_refs l = 0 then 1 else 0)"

text \<open>A task with one thread, which waits in the run queue.\<close>

definition life_ex :: "flatvm sched" where
  "life_ex = flat_boot\<lparr>tasks := [0xA0000 \<mapsto> zero_task\<lparr>t_refCount := 1, t_firstThread := 0xB0000\<rparr>],
     threads := [0xB0000 \<mapsto> zero_thread\<lparr>th_task := 0xA0000\<rparr>],
     queueCount := 1, firstThread := 0xB0000, lastThread := 0xB0000\<rparr>"

subsection \<open>References and the kill flag\<close>

lemma task_reference_runs:
  assumes "tasks s task = Some tk" and "KillLock task \<notin> set (held s)"
  shows "anscheduler_task_reference task s =
    (if t_isKilled tk = 0
     then Ret True (s\<lparr>tasks := (tasks s)(task \<mapsto> tk\<lparr>t_refCount := t_refCount tk + 1\<rparr>)\<rparr>)
     else Ret False s)"
  using assms by (simp add: anscheduler_task_reference_def kern)

lemma task_kill_runs:
  assumes "tasks s task = Some tk" and "KillLock task \<notin> set (held s)"
    and "pagerThread s \<noteq> NULL \<Longrightarrow> \<exists>th. threads s (pagerThread s) = Some th \<and> th_task th \<noteq> task"
  shows "anscheduler_task_kill task reason s =
    Ret () (if t_isKilled tk = 0
      then s\<lparr>tasks := (tasks s)(task \<mapsto> tk\<lparr>t_isKilled := 1, t_killReason := reason\<rparr>)\<rparr> else s)"
proof (cases "pagerThread s = NULL")
  case True
  with assms(1,2) show ?thesis
    by (simp add: anscheduler_task_kill_def anscheduler_pager_get_def kern)
next
  case False
  with assms(3) obtain th where "threads s (pagerThread s) = Some th" "th_task th \<noteq> task" by auto
  with False assms(1,2) show ?thesis
    by (simp add: anscheduler_task_kill_def anscheduler_pager_get_def kern)
qed

lemma task_kill_pager:
  assumes "pagerThread s \<noteq> NULL" and "threads s (pagerThread s) = Some th"
  shows "anscheduler_task_kill (th_task th) reason s = Ret () s"
  using assms by (simp add: anscheduler_task_kill_def anscheduler_pager_get_def kern)

lemma task_dereference_runs:
  assumes "tasks s task = Some tk" and "KillLock task \<notin> set (held s)"
  shows "anscheduler_task_dereference P task s =
    (let s' = s\<lparr>tasks := (tasks s)(task \<mapsto> tk\<lparr>t_refCount := t_refCount tk - 1\<rparr>)\<rparr>
     in if t_refCount tk = 1 \<and> t_isKilled tk \<noteq> 0 then generate_kill_job P task s' else Ret () s')"
  using assms by (simp add: anscheduler_task_dereference_def kern Let_def)

subsection \<open>The kill job\<close>

lemma thread_next_cores:
  assumes "cores ts' = cores ts"
  shows "thread_next ts' = thread_next ts"
proof
  fix p
  have "cores ts' p = cores ts p" by (simp only: assms)
  then show "thread_next ts' p = thread_next ts p"
    by (cases "ts p"; cases "ts' p") (auto simp: cores_def thread_next_def dest: thread_core_fields)
qed

lemma threads_from_Cons:
  "threads_from s xs (x # ths) \<longleftrightarrow> x \<noteq> NULL \<and> x \<notin> set ths \<and>
     (\<exists>t. threads s x = Some t \<and> th_next t = first_of ths \<and> (x \<in> set xs \<or> unlinked t)) \<and>
     threads_from s xs ths"
  by (auto simp: threads_from_def slist_Cons thread_next_def)

lemma delete_loop_removes:
  assumes "run_queue s xs" and "threads_from s xs ths" and "LoopLock \<notin> set (held s)"
    and "length ths < n"
  shows "\<exists>s'. kloop n Diverges (\<lambda>thread.
     if thread = NULL then ret (Inr ())
     else
       bnd (anscheduler_loop_delete thread) (\<lambda>_.
       bnd (rd_thread thread) (\<lambda>th. ret (Inl (th_next th))))) (first_of ths) s = Ret () s' \<and>
     hide_queue s' = hide_queue s \<and> run_queue s' (filter (\<lambda>y. y \<notin> set ths) xs)"
  using assms
proof (induction ths arbitrary: s xs n)
  case Nil
  then show ?case by (cases n) (auto simp: kloop_done kern)
next
  case (Cons x ths)
  then obtain m where n: "n = Suc m" and m: "length ths < m" by (cases n) auto
  from Cons.prems(2) obtain t where x: "x \<noteq> NULL" "x \<notin> set ths" "threads s x = Some t"
    "th_next t = first_of ths" "x \<in> set xs \<or> unlinked t" and tf: "threads_from s xs ths"
    by (auto simp: threads_from_Cons)
  obtain s1 where s1: "anscheduler_loop_delete x s = Ret () s1" "hide_queue s1 = hide_queue s"
    "run_queue s1 (filter (\<lambda>y. y \<noteq> x) xs)" "\<forall>p. p \<notin> set xs \<longrightarrow> threads s1 p = threads s p"
    using anscheduler_loop_delete_filters[OF Cons.prems(1) x(3,1,5) Cons.prems(3)] by auto
  note cs = hide_queue_fields(25)[OF s1(2)]
  obtain t1 where t1: "threads s1 x = Some t1" "th_next t1 = first_of ths"
    using cores_Some[OF cs x(3)] x(4) by (auto dest: thread_core_fields)
  have tf1: "threads_from s1 (filter (\<lambda>y. y \<noteq> x) xs) ths"
    unfolding threads_from_def thread_next_cores[OF cs]
  proof (intro conjI ballI)
    show "slist (thread_next (threads s)) ths" using tf by (simp add: threads_from_def)
    fix y assume y: "y \<in> set ths"
    then obtain ty where ty: "threads s y = Some ty" "y \<in> set xs \<or> unlinked ty"
      using tf by (auto simp: threads_from_def)
    show "\<exists>t. threads s1 y = Some t \<and> (y \<in> set (filter (\<lambda>y. y \<noteq> x) xs) \<or> unlinked t)"
      using cores_Some[OF cs ty(1)] ty s1(4) y x(2) by (cases "y \<in> set xs") auto
  qed
  have held: "LoopLock \<notin> set (held s1)" using Cons.prems(3) hide_queue_fields(11)[OF s1(2)] by simp
  obtain s' where s': "kloop m Diverges (\<lambda>thread.
     if thread = NULL then ret (Inr ())
     else
       bnd (anscheduler_loop_delete thread) (\<lambda>_.
       bnd (rd_thread thread) (\<lambda>th. ret (Inl (th_next th))))) (first_of ths) s1 = Ret () s'"
    "hide_queue s' = hide_queue s1"
    "run_queue s' (filter (\<lambda>y. y \<notin> set ths) (filter (\<lambda>y. y \<noteq> x) xs))"
    using Cons.IH[OF s1(3) tf1 held m] by auto
  have f: "filter (\<lambda>y. y \<notin> set ths) (filter (\<lambda>y. y \<noteq> x) xs) = filter (\<lambda>y. y \<notin> set (x # ths)) xs"
    by (auto simp: filter_filter intro: filter_cong)
  show ?case
    unfolding n using s' s1 t1 x(1) by (auto simp: kloop_next[of _ x s _ s1] kern f)
qed

lemma delete_threads_removes:
  assumes "run_queue s xs" and "threads_from s xs ths" and "LoopLock \<notin> set (held s)"
  shows "\<exists>s'. delete_threads (first_of ths) s = Ret () s' \<and>
     hide_queue s' = hide_queue s \<and> run_queue s' (filter (\<lambda>y. y \<notin> set ths) xs)"
  unfolding delete_threads_def kwhile_def
  by (rule delete_loop_removes[OF assms]) (use assms(2) in \<open>auto simp: threads_from_def dest: slist_length\<close>)

context allocator
begin

text \<open>
  The kill job takes the task's threads off the run queue and queues one kernel thread that
  will free the task, or the kernel aborts for lack of memory.
\<close>

lemma kill_job_queued:
  assumes rq: "run_queue s xs" and tk: "tasks s task = Some tk" "t_firstThread tk = first_of ths"
    and tf: "threads_from s xs ths" and c: "cpu_locked s" and l: "LoopLock \<notin> set (held s)"
  shows "(\<exists>e s'. generate_kill_job P task s = Stop (Aborted e) s') \<or>
    (\<exists>p stack s'. p \<noteq> NULL \<and> \<not> live s p \<and> stack \<noteq> NULL \<and> \<not> live s stack \<and> stack \<noteq> p \<and>
       generate_kill_job P task s = Ret () s' \<and>
       run_queue s' (filter (\<lambda>y. y \<notin> set ths) xs @ [p]) \<and>
       hide_queue s' = hide_queue (s\<lparr>allocs := Suc (Suc (allocs s)), raws := (raws s)(stack \<mapsto> 0x1000),
         threads := (threads s)(p \<mapsto> kernel_thread Free_task_method task stack)\<rparr>))"
proof -
  obtain s1 where s1: "delete_threads (first_of ths) s = Ret () s1" "hide_queue s1 = hide_queue s"
    "run_queue s1 (filter (\<lambda>y. y \<notin> set ths) xs)"
    using delete_threads_removes[OF rq tf l] by auto
  note f = hide_queue_fields[OF s1(2)]
  have job: "generate_kill_job P task s = anscheduler_loop_push_kernel P task Free_task_method s1"
    using tk s1(1) by (simp add: generate_kill_job_def kern)
  have "cpu_locked s1" "LoopLock \<notin> set (held s1)" using c l f by simp_all
  from push_kernel_spawns[OF s1(3) this, of task Free_task_method] show ?thesis
    unfolding job live_hide_queue[OF s1(2)] f(1,9) hide_queue_commute[OF s1(2)] .
qed

end

subsection \<open>The abstract life of a task\<close>

lemma life_step_inv: "life_inv l \<Longrightarrow> life_allowed op l \<Longrightarrow> life_inv (life_step op l)"
  by (cases op) (auto simp: life_inv_def Let_def split: if_splits)

lemma kill_jobs_threads: "threads s' = threads s \<Longrightarrow> kill_jobs s' task = kill_jobs s task"
  by (simp add: kill_jobs_def)

lemma kill_jobs_cores:
  assumes "cores (threads s') = cores ts"
  shows "kill_jobs s' task = {p. \<exists>t st. ts p = Some t \<and> th_state t = TsEntry Free_task_method task st}"
proof -
  have "(\<exists>t st. threads s' p = Some t \<and> th_state t = TsEntry Free_task_method task st) =
    (\<exists>t st. ts p = Some t \<and> th_state t = TsEntry Free_task_method task st)" for p
    using arg_cong[OF assms, of "\<lambda>g. g p"]
    by (cases "ts p"; cases "threads s' p") (auto simp: cores_def dest: thread_core_fields(7))
  then show ?thesis by (simp add: kill_jobs_def)
qed

lemma task_life_update:
  assumes "tasks s' task = Some tk" and "t_refCount tk = of_nat (lf_refs l)"
    and "(t_isKilled tk \<noteq> 0) = lf_killed l" and "lf_refs l < 2 ^ 64"
    and "finite (kill_jobs s' task)" and "card (kill_jobs s' task) = lf_jobs l"
  shows "task_life s' task l"
  using assms by (auto simp: task_life_def)

lemma life_env_task_update:
  assumes "life_env s task ths" and "t_firstThread tk = first_of ths"
  shows "life_env (s\<lparr>tasks := (tasks s)(task \<mapsto> tk)\<rparr>) task ths"
  using assms by (auto simp: life_env_def run_queue_def pager_not_def kill_jobs_def threads_from_def)

lemma task_life_task:
  assumes "task_life s task l"
  obtains tk where "tasks s task = Some tk" "t_refCount tk = of_nat (lf_refs l)"
    "(t_isKilled tk \<noteq> 0) = lf_killed l" "lf_refs l < 2 ^ 64"
    "finite (kill_jobs s task)" "card (kill_jobs s task) = lf_jobs l"
  using assms by (auto simp: task_life_def)

lemma life_env_task:
  assumes "life_env s task ths" and "tasks s task = Some tk"
  shows "t_firstThread tk = first_of ths" "KillLock task \<notin> set (held s)" "LoopLock \<notin> set (held s)"
    "cpu_locked s" "pager_not s task"
  using assms by (auto simp: life_env_def)

lemma of_nat_eq_one: "n < 2 ^ 64 \<Longrightarrow> (of_nat n :: u64) = 1 \<longleftrightarrow> n = 1"
  using word_of_nat_eq_iff[where ?'a = 64, of n 1] by (simp add: take_bit_nat_eq_self)

lemma reference_refines:
  assumes tl: "task_life s task l" and env: "life_env s task ths" and al: "life_allowed Reference l"
  shows "\<exists>s'. run_op P task reason Reference s = Ret () s' \<and>
    task_life s' task (life_step Reference l) \<and> life_env s' task ths"
proof -
  obtain tk where tk: "tasks s task = Some tk" "t_refCount tk = of_nat (lf_refs l)"
    "(t_isKilled tk \<noteq> 0) = lf_killed l" "lf_refs l < 2 ^ 64"
    "finite (kill_jobs s task)" "card (kill_jobs s task) = lf_jobs l"
    using tl by (rule task_life_task)
  note e = life_env_task[OF env tk(1)]
  note run = task_reference_runs[OF tk(1) e(2)]
  show ?thesis
  proof (cases "lf_killed l")
    case True
    then show ?thesis using run tk(3) tl env by (simp add: kern)
  next
    case False
    let ?tk = "tk\<lparr>t_refCount := t_refCount tk + 1\<rparr>"
    let ?s = "s\<lparr>tasks := (tasks s)(task \<mapsto> ?tk)\<rparr>"
    have "task_life ?s task (l\<lparr>lf_refs := lf_refs l + 1\<rparr>)"
      by (rule task_life_update[of _ _ ?tk]) (use tk al False kill_jobs_threads[of ?s s] in simp_all)
    moreover have "life_env ?s task ths" by (rule life_env_task_update[OF env]) (simp add: e)
    moreover have "run_op P task reason Reference s = Ret () ?s" using run tk(3) False by (simp add: kern)
    ultimately show ?thesis using False by auto
  qed
qed

lemma kill_refines:
  assumes tl: "task_life s task l" and env: "life_env s task ths"
  shows "\<exists>s'. run_op P task reason Kill s = Ret () s' \<and>
    task_life s' task (life_step Kill l) \<and> life_env s' task ths"
proof -
  obtain tk where tk: "tasks s task = Some tk" "t_refCount tk = of_nat (lf_refs l)"
    "(t_isKilled tk \<noteq> 0) = lf_killed l" "lf_refs l < 2 ^ 64"
    "finite (kill_jobs s task)" "card (kill_jobs s task) = lf_jobs l"
    using tl by (rule task_life_task)
  note e = life_env_task[OF env tk(1)]
  note run = task_kill_runs[OF tk(1) e(2), of reason]
  show ?thesis
  proof (cases "lf_killed l")
    case True
    then have same: "life_step Kill l = l" by (cases l) simp
    show ?thesis unfolding same using run e(5) tk(3) True tl env by (auto simp: pager_not_def)
  next
    case False
    let ?tk = "tk\<lparr>t_isKilled := 1, t_killReason := reason\<rparr>"
    let ?s = "s\<lparr>tasks := (tasks s)(task \<mapsto> ?tk)\<rparr>"
    have "task_life ?s task (l\<lparr>lf_killed := True\<rparr>)"
      by (rule task_life_update[of _ _ ?tk]) (use tk kill_jobs_threads[of ?s s] in simp_all)
    moreover have "life_env ?s task ths" by (rule life_env_task_update[OF env]) (simp add: e)
    moreover have "run_op P task reason Kill s = Ret () ?s"
      using run e(5) tk(3) False by (simp add: pager_not_def)
    ultimately show ?thesis by auto
  qed
qed

context allocator
begin

text \<open>After the kernel thread \<open>p\<close> was started, it is the only one that frees the task, and the pager is the same.\<close>

lemma kill_started:
  assumes h: "hide_queue s' = hide_queue (s\<lparr>allocs := n, raws := rs, threads := (threads s)(p \<mapsto> kernel_thread Free_task_method task stack)\<rparr>)"
    and p: "threads s p = None" and jobs: "kill_jobs s task = {}" and pg: "pager_not s task"
  shows "kill_jobs s' task = {p} \<and> pager_not s' task"
proof
  note f = hide_queue_fields[OF h]
  show "kill_jobs s' task = {p}"
    using jobs p by (subst kill_jobs_cores[OF f(25)]) (auto simp: kill_jobs_def kernel_thread_def)
  show "pager_not s' task"
  proof (cases "pagerThread s = NULL")
    case False
    then obtain th where th: "threads s (pagerThread s) = Some th" "th_task th \<noteq> task"
      using pg by (auto simp: pager_not_def)
    moreover have "pagerThread s \<noteq> p" using th(1) p by auto
    ultimately show ?thesis
      using cores_Some[OF f(25), of "pagerThread s" th] f(22)
      by (auto simp: pager_not_def dest: thread_core_fields)
  qed (simp add: pager_not_def f)
qed

lemma dereference_refines:
  assumes tl: "task_life s task l" and env: "life_env s task ths" and inv: "life_inv l"
    and al: "life_allowed Dereference l"
  shows "(\<exists>e s'. run_op P task reason Dereference s = Stop (Aborted e) s') \<or>
    (\<exists>s'. run_op P task reason Dereference s = Ret () s' \<and>
       task_life s' task (life_step Dereference l) \<and> life_env s' task ths)"
proof -
  obtain tk where tk: "tasks s task = Some tk" "t_refCount tk = of_nat (lf_refs l)"
    "(t_isKilled tk \<noteq> 0) = lf_killed l" "lf_refs l < 2 ^ 64"
    "finite (kill_jobs s task)" "card (kill_jobs s task) = lf_jobs l"
    using tl by (rule task_life_task)
  note e = life_env_task[OF env tk(1)]
  let ?tk = "tk\<lparr>t_refCount := t_refCount tk - 1\<rparr>"
  let ?s = "s\<lparr>tasks := (tasks s)(task \<mapsto> ?tk)\<rparr>"
  have one: "t_refCount tk = 1 \<longleftrightarrow> lf_refs l = 1" using of_nat_eq_one tk(2,4) by simp
  have pos: "0 < lf_refs l" using al by simp
  have dec: "t_refCount tk - 1 = of_nat (lf_refs l - 1)" using tk(2) pos by (simp add: of_nat_diff)
  have run: "run_op P task reason Dereference s =
    (if lf_refs l = 1 \<and> lf_killed l then generate_kill_job P task ?s else Ret () ?s)"
    using task_dereference_runs[OF tk(1) e(2), of P] one tk(3) by (simp add: Let_def)
  have env': "life_env ?s task ths" by (rule life_env_task_update[OF env]) (simp add: e)
  show ?thesis
  proof (cases "lf_refs l = 1 \<and> lf_killed l")
    case False
    then have "life_step Dereference l = l\<lparr>lf_refs := lf_refs l - 1\<rparr>"
      using pos by (auto simp: Let_def)
    moreover have "task_life ?s task (l\<lparr>lf_refs := lf_refs l - 1\<rparr>)"
      by (rule task_life_update[of _ _ ?tk]) (use tk dec kill_jobs_threads[of ?s s] in simp_all)
    ultimately show ?thesis using run False env' by auto
  next
    case True
    have jobs: "kill_jobs s task = {}" using inv True tk(5,6) by (simp add: life_inv_def)
    have step: "life_step Dereference l = l\<lparr>lf_refs := 0, lf_jobs := 1\<rparr>"
      using True inv by (simp add: Let_def life_inv_def)
    obtain xs where xs: "run_queue ?s xs" "threads_from ?s xs ths"
      using env' jobs kill_jobs_threads[of ?s s] by (auto simp: life_env_def)
    have tk': "tasks ?s task = Some ?tk" "t_firstThread ?tk = first_of ths" "cpu_locked ?s"
      "LoopLock \<notin> set (held ?s)" using e by simp_all
    from kill_job_queued[OF xs(1) tk'(1,2) xs(2) tk'(3,4)] show ?thesis
    proof (elim disjE exE conjE)
      fix e s' assume "generate_kill_job P task ?s = Stop (Aborted e) s'"
      then show ?thesis using run True by auto
    next
      fix p stack s'
      let ?k = "kernel_thread Free_task_method task stack"
      assume p: "\<not> live ?s p" "p \<noteq> NULL" "stack \<noteq> NULL" "\<not> live ?s stack" "stack \<noteq> p"
        and s': "generate_kill_job P task ?s = Ret () s'"
        "run_queue s' (filter (\<lambda>y. y \<notin> set ths) xs @ [p])"
        "hide_queue s' = hide_queue (?s\<lparr>allocs := Suc (Suc (allocs ?s)),
           raws := (raws ?s)(stack \<mapsto> 0x1000), threads := (threads ?s)(p \<mapsto> ?k)\<rparr>)"
      note f = hide_queue_fields[OF s'(3)]
      have "threads ?s p = None" "kill_jobs ?s task = {}" "pager_not ?s task"
        using not_live(3)[OF p(1)] jobs e(5) kill_jobs_threads[of ?s s] by (simp_all add: pager_not_def)
      then have j: "kill_jobs s' task = {p}" "pager_not s' task" using kill_started[OF s'(3)] by blast+
      have "task_life s' task (l\<lparr>lf_refs := 0, lf_jobs := 1\<rparr>)"
        by (rule task_life_update[of _ _ ?tk]) (use True tk dec f j(1) in simp_all)
      moreover have "life_env s' task ths" using e f j s'(2) by (auto simp: life_env_def)
      ultimately show ?thesis using run True s'(1) step by auto
    qed
  qed
qed

lemma run_op_refines:
  assumes "task_life s task l" and "life_env s task ths" and "life_inv l" and "life_allowed op l"
  shows "(\<exists>e s'. run_op P task reason op s = Stop (Aborted e) s') \<or>
    (\<exists>s'. run_op P task reason op s = Ret () s' \<and> task_life s' task (life_step op l) \<and> life_env s' task ths)"
proof (cases op)
  case Reference
  then show ?thesis using reference_refines[OF assms(1,2), of P reason] assms(4) by simp
next
  case Dereference
  then show ?thesis using dereference_refines[OF assms(1-3), of reason] assms(4) by simp
next
  case Kill
  then show ?thesis using kill_refines[OF assms(1,2), of P reason] by simp
qed

end

text \<open>The life of a task is a simulation of the abstract one.\<close>

definition life_rel :: "addr \<Rightarrow> addr list \<Rightarrow> 'v sched \<Rightarrow> life \<Rightarrow> bool" where
  "life_rel task ths s l \<longleftrightarrow> task_life s task l \<and> life_env s task ths \<and> life_inv l"

sublocale allocator \<subseteq> life: simulation "run_op P task reason" "life_rel task ths" life_step life_allowed
  for task reason ths
proof
  fix s :: "'v sched" and l op
  assume r: "life_rel task ths s l" and al: "life_allowed op l"
  then have "life_inv (life_step op l)" by (simp add: life_rel_def life_step_inv)
  with run_op_refines[OF _ _ _ al, of s task ths reason] r
  show "aborts_or (run_op P task reason op s) (\<lambda>s'. life_rel task ths s' (life_step op l))"
    unfolding life_rel_def aborts_or_def by blast
qed

context allocator
begin

lemmas life_sequences = life.simulates_seq

end

subsection \<open>Properties\<close>

text \<open>C2: whatever sequence of references, releases and kills a task goes through after its
  creation (a release or a kill only by a holder of a reference), the kernel's state follows the
  abstract reference count and kill flag, and the number of kernel threads started to free the
  task is one if the task is killed and unreferenced, and none otherwise: a task is freed
  exactly once and never while it is alive or referenced. The only other outcome is the kernel's
  abort when no memory is left for that kernel thread.\<close>

theorem task_freed_exactly_once:
  assumes "allocator P" and "task_life s task new_life" and "life_env s task ths"
    and "allowed_seq life_allowed life_step ops new_life"
  shows "(\<exists>e s'. run_seq (run_op P task reason) ops s = Stop (Aborted e) s') \<or>
    (\<exists>s'. run_seq (run_op P task reason) ops s = Ret () s' \<and> task_life s' task (fold life_step ops new_life) \<and>
       card (kill_jobs s' task) =
         (if lf_killed (fold life_step ops new_life) \<and> lf_refs (fold life_step ops new_life) = 0
          then 1 else 0))"
proof -
  have "life_inv new_life" by (simp add: life_inv_def new_life_def)
  then have "life_rel task ths s new_life" using assms(2,3) by (simp add: life_rel_def)
  from allocator.life_sequences[OF assms(1) this assms(4), of reason] show ?thesis
    by (auto simp: aborts_or_def life_rel_def life_inv_def task_life_def)
qed

lemma life_ex_queue: "run_queue life_ex [0xB0000]"
  by (simp add: life_ex_def run_queue_def dlist_def queue_next_def queue_last_def zero_thread_def)

lemma life_ex_kill_jobs: "kill_jobs life_ex 0xA0000 = {}"
  by (simp add: kill_jobs_def life_ex_def zero_thread_def)

lemma life_ex_env: "life_env life_ex 0xA0000 [0xB0000]"
proof -
  have "threads_from life_ex [0xB0000] [0xB0000]"
    by (simp add: threads_from_def life_ex_def slist_def thread_next_def zero_thread_def)
  then show ?thesis
    unfolding life_env_def using life_ex_queue
    by (auto simp: life_ex_def flat_boot_def boot_def pager_not_def)
qed

lemma life_ex_life: "task_life life_ex 0xA0000 new_life"
  unfolding task_life_def life_ex_kill_jobs
  by (simp add: life_ex_def new_life_def zero_task_def)

theorem task_freed_exactly_once_witness:
  "(\<exists>e s'. run_seq (run_op flat_plat 0xA0000 1) [Reference, Kill, Dereference, Dereference] life_ex = Stop (Aborted e) s') \<or>
   (\<exists>s'. run_seq (run_op flat_plat 0xA0000 1) [Reference, Kill, Dereference, Dereference] life_ex = Ret () s' \<and>
     task_life s' 0xA0000 \<lparr>lf_refs = 0, lf_killed = True, lf_jobs = 1\<rparr> \<and> card (kill_jobs s' 0xA0000) = 1)"
  using task_freed_exactly_once[OF flat.allocator_axioms life_ex_life life_ex_env,
      of "[Reference, Kill, Dereference, Dereference]" 1]
  by (simp add: new_life_def Let_def)

text \<open>The job that the release of a killed task's last reference starts: all the task's threads
  leave the run queue, the other threads stay in it in their order, and one new kernel thread
  that will run \<open>_free_task_method\<close> on the task is appended, on a fresh stack; nothing else
  of the state changes. (Or the kernel aborts for lack of memory.)\<close>

lemma kill_job_clears_queue:
  assumes "allocator P" and "run_queue s xs" and "tasks s task = Some tk"
    and "t_firstThread tk = first_of ths" and "threads_from s xs ths" and "cpu_locked s"
    and "LoopLock \<notin> set (held s)" and "KillLock task \<notin> set (held s)"
    and "t_refCount tk = 1" and "t_isKilled tk \<noteq> 0"
  shows "(\<exists>e s'. anscheduler_task_dereference P task s = Stop (Aborted e) s') \<or>
    (\<exists>p stack s'. p \<noteq> NULL \<and> \<not> live s p \<and> stack \<noteq> NULL \<and> \<not> live s stack \<and> stack \<noteq> p \<and>
       anscheduler_task_dereference P task s = Ret () s' \<and>
       run_queue s' (filter (\<lambda>y. y \<notin> set ths) xs @ [p]) \<and>
       hide_queue s' = hide_queue (s\<lparr>tasks := (tasks s)(task \<mapsto> tk\<lparr>t_refCount := 0\<rparr>),
         allocs := Suc (Suc (allocs s)), raws := (raws s)(stack \<mapsto> 0x1000),
         threads := (threads s)(p \<mapsto> kernel_thread Free_task_method task stack)\<rparr>))"
proof -
  let ?s = "s\<lparr>tasks := (tasks s)(task \<mapsto> tk\<lparr>t_refCount := 0\<rparr>)\<rparr>"
  have "anscheduler_task_dereference P task s = generate_kill_job P task ?s"
    using task_dereference_runs[OF assms(3,8), of P] assms(9,10) by (simp add: Let_def)
  moreover have "live ?s = live s" using assms(3) by (rule live_update)
  moreover have "run_queue ?s xs" "threads_from ?s xs ths"
    using assms(2,5) by (simp_all add: run_queue_def threads_from_def)
  moreover have "tasks ?s task = Some (tk\<lparr>t_refCount := 0\<rparr>)" "t_firstThread (tk\<lparr>t_refCount := 0\<rparr>) = first_of ths"
    "cpu_locked ?s" "LoopLock \<notin> set (held ?s)" using assms(4,6,7) by simp_all
  ultimately show ?thesis
    using allocator.kill_job_queued[OF assms(1), of ?s xs task "tk\<lparr>t_refCount := 0\<rparr>" ths] by simp
qed

lemma kill_job_clears_queue_example:
  "let s = life_ex\<lparr>tasks := [0xA0000 \<mapsto> zero_task\<lparr>t_refCount := 1, t_firstThread := 0xB0000, t_isKilled := 1\<rparr>]\<rparr>
   in (\<exists>e s'. anscheduler_task_dereference flat_plat 0xA0000 s = Stop (Aborted e) s') \<or>
      (\<exists>p s'. anscheduler_task_dereference flat_plat 0xA0000 s = Ret () s' \<and> run_queue s' [p] \<and> \<not> live s p)"
proof -
  let ?tk = "zero_task\<lparr>t_refCount := 1, t_firstThread := 0xB0000, t_isKilled := 1\<rparr>"
  let ?s = "life_ex\<lparr>tasks := [0xA0000 \<mapsto> ?tk]\<rparr>"
  have "run_queue ?s [0xB0000]" "threads_from ?s [0xB0000] [0xB0000]"
    using life_ex_queue
    by (simp_all add: run_queue_def threads_from_def life_ex_def slist_def thread_next_def zero_thread_def)
  moreover have "cpu_locked ?s" "held ?s = []" by (simp_all add: life_ex_def flat_boot_def boot_def)
  ultimately show ?thesis
    using kill_job_clears_queue[OF flat.allocator_axioms, of ?s "[0xB0000]" "0xA0000" ?tk "[0xB0000]"]
    unfolding Let_def by auto
qed

text \<open>C27: killing a task that is not the pager's records the first reason given and is final:
  afterwards no reference to the task can be taken, none of its threads can be queued, and
  killing it again changes nothing, not even the reason.\<close>

theorem task_kill_is_final:
  assumes "tasks s task = Some tk" and "KillLock task \<notin> set (held s)" and "pager_not s task"
    and "threads s x = Some t" and "th_task t = task" and "task \<noteq> NULL"
  shows "\<exists>s' tk'. anscheduler_task_kill task reason s = Ret () s' \<and> tasks s' task = Some tk' \<and>
    t_isKilled tk' \<noteq> 0 \<and> t_killReason tk' = (if t_isKilled tk = 0 then reason else t_killReason tk) \<and>
    t_refCount tk' = t_refCount tk \<and>
    anscheduler_task_reference task s' = Ret False s' \<and> anscheduler_loop_push x s' = Ret () s' \<and>
    anscheduler_task_kill task reason2 s' = Ret () s'"
proof -
  let ?tk = "if t_isKilled tk = 0 then tk\<lparr>t_isKilled := 1, t_killReason := reason\<rparr> else tk"
  let ?s = "s\<lparr>tasks := (tasks s)(task \<mapsto> ?tk)\<rparr>"
  have s: "s\<lparr>tasks := (tasks s)(task \<mapsto> tk)\<rparr> = s" using assms(1) by (simp add: fun_upd_idem)
  have run: "anscheduler_task_kill task reason s = Ret () ?s"
    using task_kill_runs[OF assms(1,2), of reason] assms(3) s by (auto simp: pager_not_def)
  have tk: "tasks ?s task = Some ?tk" "t_isKilled ?tk \<noteq> 0" by simp_all
  have h: "KillLock task \<notin> set (held ?s)" "pager_not ?s task" "threads ?s x = Some t"
    using assms(2-4) by (simp_all add: pager_not_def)
  have "anscheduler_task_reference task ?s = Ret False ?s"
    using task_reference_runs[OF tk(1) h(1)] tk(2) by simp
  moreover have "anscheduler_loop_push x ?s = Ret () ?s"
    by (rule anscheduler_loop_push_killed[OF h(3)])
       (use assms(2,5,6) in \<open>simp_all add: killable_def task_alive_def\<close>)
  moreover have "anscheduler_task_kill task reason2 ?s = Ret () ?s"
    using task_kill_runs[OF tk(1) h(1), of reason2] h(2) tk(2) by (simp add: pager_not_def)
  ultimately show ?thesis using run by (intro exI[of _ ?s] exI[of _ ?tk]) simp
qed

theorem task_kill_is_final_witness:
  "\<exists>s' tk'. anscheduler_task_kill 0xA0000 7 life_ex = Ret () s' \<and> tasks s' 0xA0000 = Some tk' \<and>
    t_isKilled tk' \<noteq> 0 \<and> t_killReason tk' = 7 \<and> anscheduler_task_reference 0xA0000 s' = Ret False s' \<and>
    anscheduler_loop_push 0xB0000 s' = Ret () s' \<and> anscheduler_task_kill 0xA0000 9 s' = Ret () s'"
  using task_kill_is_final[of life_ex "0xA0000" "zero_task\<lparr>t_refCount := 1, t_firstThread := 0xB0000\<rparr>"
      "0xB0000" "zero_thread\<lparr>th_task := 0xA0000\<rparr>" 7 9] life_env_task[OF life_ex_env]
  by (auto simp: life_ex_def zero_task_def)

end
