(* ===== verification/Loop.thy ===== *)
theory Loop
  imports Task_Life
begin

text \<open>
  The scheduler loop of \<open>src/loop.c\<close>: choosing the next thread, running it, and the ways a
  thread gives up the CPU. The choice is compared with an abstract scheduler, \<open>pick\<close>, that
  works on the list of queued threads.
\<close>

subsection \<open>The C functions\<close>

definition anscheduler_loop_push_cur :: "'v plat \<Rightarrow> ('v, unit) kern" where
  "anscheduler_loop_push_cur P =
     bnd anscheduler_cpu_get_thread (\<lambda>thread.
     bnd anscheduler_cpu_get_task (\<lambda>task.
     if thread = NULL then skip
     else
       bnd (cond (task \<noteq> NULL) (anscheduler_cpu_set_task NULL)) (\<lambda>_.
       bnd (anscheduler_cpu_set_thread NULL) (\<lambda>_.
       bnd (anscheduler_loop_push thread) (\<lambda>_.
       cond (task \<noteq> NULL) (anscheduler_task_dereference P task))))))"

text \<open>One round of the \<open>for\<close> loop of \<open>_next_thread\<close>, from the index and the timeout so far.\<close>

definition next_thread_round :: "u64 \<Rightarrow> u64 \<Rightarrow> u64 \<times> u64 \<Rightarrow> ('v, u64 \<times> u64 + addr \<times> u64) kern" where
  "next_thread_round max' now' = (\<lambda>(i, timeout).
     if i < max' then
       bnd shift_thread (\<lambda>th.
       bnd (rd_thread th) (\<lambda>t.
       let nextTs = th_nextTimestamp t in
       if now' < nextTs then
         bnd (push_unconditional th) (\<lambda>_.
         ret (Inl (i + 1, if nextTs - now' < timeout then nextTs - now' else timeout)))
       else
         bnd (modify (\<lambda>s. s\<lparr>queueCount := queueCount s - 1\<rparr>)) (\<lambda>_.
         bnd (rd_thread th) (\<lambda>t.
         bnd (if th_task t \<noteq> NULL then anscheduler_task_reference (th_task t) else ret True) (\<lambda>ok.
         if \<not> ok then ret (Inl (i + 1, timeout))
         else
           bnd (anscheduler_unlock LoopLock) (\<lambda>_.
           ret (Inr (th, timeout))))))))
     else
       bnd (anscheduler_unlock LoopLock) (\<lambda>_.
       ret (Inr (NULL, timeout))))"

definition next_thread :: "'v plat \<Rightarrow> ('v, addr \<times> u64) kern" where
  "next_thread P =
     bnd (anscheduler_lock LoopLock) (\<lambda>_.
     bnd (gets queueCount) (\<lambda>max'.
     bnd anscheduler_get_time (\<lambda>now'.
     kwhile (next_thread_round max' now') (0, drop_bit 6 (pf_second_length P)))))"

definition anscheduler_loop_run :: "'v plat \<Rightarrow> ('v, unit) kern" where
  "anscheduler_loop_run P =
     bnd anscheduler_cpu_get_task (\<lambda>task.
     bnd (anscheduler_cpu_set_task NULL) (\<lambda>_.
     bnd (anscheduler_cpu_set_thread NULL) (\<lambda>_.
     bnd (cond (task \<noteq> NULL) (anscheduler_task_dereference P task)) (\<lambda>_.
     bnd (next_thread P) (\<lambda>(thread, timeout).
     bnd (anscheduler_timer_set (ucast timeout)) (\<lambda>_.
     if thread \<noteq> NULL then
       bnd (rd_thread thread) (\<lambda>th.
       bnd (anscheduler_cpu_set_task (th_task th)) (\<lambda>_.
       bnd (anscheduler_cpu_set_thread thread) (\<lambda>_.
       anscheduler_thread_run (th_task th) thread)))
     else
       bnd anscheduler_cpu_unlock (\<lambda>_.
       stop Idle)))))))"

definition run_loop_stub :: "'v plat \<Rightarrow> ('v, unit) kern" where
  "run_loop_stub P = anscheduler_loop_run P"

definition anscheduler_loop_break_task :: "'v plat \<Rightarrow> ('v, unit) kern" where
  "anscheduler_loop_break_task P = run_loop_stub P"

definition resign_stub :: "'v plat \<Rightarrow> ('v, unit) kern" where
  "resign_stub P = bnd (anscheduler_loop_push_cur P) (\<lambda>_. anscheduler_loop_run P)"

definition anscheduler_loop_resign :: "'v plat \<Rightarrow> ('v, unit) kern" where
  "anscheduler_loop_resign P = resign_stub P"

definition save_resign_stub :: "'v plat \<Rightarrow> ('v, unit) kern" where
  "save_resign_stub P = anscheduler_loop_resign P"

definition anscheduler_loop_save_and_resign :: "'v plat \<Rightarrow> ('v, unit) kern" where
  "anscheduler_loop_save_and_resign P =
     bnd anscheduler_cpu_get_thread (\<lambda>thread.
     anscheduler_save_return_state thread NULL (\<lambda>_. save_resign_stub P))"

definition delete_cur_kernel :: "'v plat \<Rightarrow> ('v, unit) kern" where
  "delete_cur_kernel P =
     bnd anscheduler_cpu_get_thread (\<lambda>thread.
     bnd anscheduler_cpu_get_task (\<lambda>task.
     if task \<noteq> NULL then anscheduler_abort ''_delete_cur_kernel in non-kernel thread!''
     else
       bnd (anscheduler_cpu_set_thread NULL) (\<lambda>_.
       bnd (rd_thread thread) (\<lambda>th.
       bnd (anscheduler_free_raw (th_stack th)) (\<lambda>_.
       bnd (anscheduler_free_thread thread) (\<lambda>_.
       anscheduler_loop_run P))))))"

definition anscheduler_loop_delete_cur_kernel :: "'v plat \<Rightarrow> ('v, unit) kern" where
  "anscheduler_loop_delete_cur_kernel P = delete_cur_kernel P"

definition switch_to_thread :: "'v plat \<Rightarrow> addr \<Rightarrow> ('v, unit) kern" where
  "switch_to_thread P thread =
     bnd (anscheduler_loop_push_cur P) (\<lambda>_.
     bnd (rd_thread thread) (\<lambda>th.
     bnd (anscheduler_cpu_set_task (th_task th)) (\<lambda>_.
     bnd (anscheduler_cpu_set_thread thread) (\<lambda>_.
     anscheduler_thread_run (th_task th) thread))))"

definition anscheduler_loop_switch :: "'v plat \<Rightarrow> addr \<Rightarrow> addr \<Rightarrow> ('v, unit) kern" where
  "anscheduler_loop_switch P task thread = switch_to_thread P thread"

subsection \<open>The abstract scheduler\<close>

text \<open>A thread sleeps while its time stamp is in the future.\<close>

definition sleeping :: "'v sched \<Rightarrow> addr \<Rightarrow> bool" where
  "sleeping s x = (case threads s x of Some t \<Rightarrow> now s < th_nextTimestamp t | None \<Rightarrow> False)"

definition wait_time :: "'v sched \<Rightarrow> addr \<Rightarrow> u64" where
  "wait_time s x = (case threads s x of Some t \<Rightarrow> th_nextTimestamp t - now s | None \<Rightarrow> 0)"

definition has_live_task :: "'v sched \<Rightarrow> addr \<Rightarrow> bool" where
  "has_live_task s x = (case threads s x of
     Some t \<Rightarrow> th_task t = NULL \<or>
       (case tasks s (th_task t) of Some tk \<Rightarrow> t_isKilled tk = 0 | None \<Rightarrow> False)
   | None \<Rightarrow> False)"

definition runnable :: "'v sched \<Rightarrow> addr \<Rightarrow> bool" where
  "runnable s x \<longleftrightarrow> \<not> sleeping s x \<and> has_live_task s x"

text \<open>
  \<open>pick s xs sl T\<close> goes through the queued threads \<open>xs\<close>: sleepers are moved to the end
  \<open>sl\<close> and bound the timeout \<open>T\<close>, threads of killed tasks are dropped, and the first
  runnable thread is taken.
\<close>

fun pick :: "'v sched \<Rightarrow> addr list \<Rightarrow> addr list \<Rightarrow> u64 \<Rightarrow> addr option \<times> addr list \<times> u64" where
  "pick s [] sl T = (None, sl, T)"
| "pick s (x # xs) sl T =
     (if sleeping s x then pick s xs (sl @ [x]) (min T (wait_time s x))
      else if has_live_task s x then (Some x, xs @ sl, T)
      else pick s xs sl T)"

text \<open>The reference that the scheduler takes on the task of the chosen thread.\<close>

definition take_ref :: "'v sched \<Rightarrow> addr option \<Rightarrow> addr \<rightharpoonup> task_t" where
  "take_ref s r = (case r of None \<Rightarrow> tasks s | Some x \<Rightarrow>
     (case threads s x of None \<Rightarrow> tasks s | Some t \<Rightarrow>
       if th_task t = NULL then tasks s
       else (tasks s)(th_task t := map_option (\<lambda>tk. tk\<lparr>t_refCount := t_refCount tk + 1\<rparr>)
              (tasks s (th_task t)))))"

definition or_null :: "addr option \<Rightarrow> addr" where
  "or_null r = (case r of None \<Rightarrow> NULL | Some x \<Rightarrow> x)"

text \<open>The tasks of the queued threads exist and their kill locks are free.\<close>

definition queue_ok :: "'v sched \<Rightarrow> addr list \<Rightarrow> bool" where
  "queue_ok s xs \<longleftrightarrow> (\<forall>x \<in> set xs. \<forall>t. threads s x = Some t \<longrightarrow> killable s (th_task t))"

text \<open>The reference that a CPU gives back for its task (none for a kernel thread).\<close>

definition drop_ref :: "'v sched \<Rightarrow> addr \<Rightarrow> addr \<rightharpoonup> task_t" where
  "drop_ref s task = (if task = NULL then tasks s
     else (tasks s)(task := map_option (\<lambda>tk. tk\<lparr>t_refCount := t_refCount tk - 1\<rparr>) (tasks s task)))"

text \<open>The running thread, if there is one, as a list; and the well-formed states of a CPU.\<close>

definition cur_list :: "'v sched \<Rightarrow> addr list" where
  "cur_list s = (if cpu_thread s = NULL then [] else [cpu_thread s])"

definition cpu_ok :: "'v sched \<Rightarrow> addr list \<Rightarrow> bool" where
  "cpu_ok s xs \<longleftrightarrow> run_queue s xs \<and> queue_ok s (xs @ cur_list s) \<and> LoopLock \<notin> set (held s) \<and>
     (if cpu_thread s = NULL then cpu_task s = NULL
      else cpu_thread s \<notin> set xs \<and> has_live_task s (cpu_thread s) \<and>
        (\<exists>t. threads s (cpu_thread s) = Some t \<and> th_task t = cpu_task s))"

text \<open>
  A CPU that runs the kernel thread 0x400 at time 10, with a sleeper, a thread of a killed
  task and a due kernel thread in the queue.
\<close>

definition loop_ex :: "flatvm sched" where
  "loop_ex = flat_boot\<lparr>
     tasks := [0xA0000 \<mapsto> zero_task\<lparr>t_refCount := 1, t_isKilled := 1\<rparr>],
     threads := [0x100 \<mapsto> zero_thread\<lparr>th_queueNext := 0x200, th_nextTimestamp := 50\<rparr>,
       0x200 \<mapsto> zero_thread\<lparr>th_queueNext := 0x300, th_queueLast := 0x100, th_task := 0xA0000\<rparr>,
       0x300 \<mapsto> zero_thread\<lparr>th_queueLast := 0x200\<rparr>, 0x400 \<mapsto> zero_thread],
     now := 10, cpu_thread := 0x400, queueCount := 3, firstThread := 0x100, lastThread := 0x300\<rparr>"

lemma scheduling_cong:
  assumes "threads s' = threads s" and "tasks s' = tasks s" and "now s' = now s"
  shows "sleeping s' = sleeping s" "wait_time s' = wait_time s" "has_live_task s' = has_live_task s"
    "runnable s' = runnable s" "take_ref s' = take_ref s"
  unfolding runnable_def sleeping_def wait_time_def has_live_task_def take_ref_def assms
  by (rule refl)+

lemma same_scheduling:
  assumes "hide_queue s' = hide_queue s"
  shows "sleeping s' = sleeping s" "wait_time s' = wait_time s" "has_live_task s' = has_live_task s"
    "take_ref s' = take_ref s" "queue_ok s' = queue_ok s"
proof -
  note f = hide_queue_fields[OF assms]
  have rel: "threads s' x = None \<and> threads s x = None \<or>
    (\<exists>t' t. threads s' x = Some t' \<and> threads s x = Some t \<and> th_task t' = th_task t \<and>
       th_nextTimestamp t' = th_nextTimestamp t)" for x
    using cores_None[OF f(25), of x] cores_Some[OF f(25), of x]
    by (cases "threads s x") (auto dest: thread_core_fields)
  have "sleeping s' x = sleeping s x" for x
    using rel[of x] f(12) by (auto simp: sleeping_def)
  then show "sleeping s' = sleeping s" by (rule ext)
  have "wait_time s' x = wait_time s x" for x
    using rel[of x] f(12) by (auto simp: wait_time_def)
  then show "wait_time s' = wait_time s" by (rule ext)
  have "has_live_task s' x = has_live_task s x" for x
    using rel[of x] f(2) by (auto simp: has_live_task_def)
  then show "has_live_task s' = has_live_task s" by (rule ext)
  have "take_ref s' r = take_ref s r" for r
  proof (cases r)
    case (Some x)
    then show ?thesis using rel[of x] f(2) by (auto simp: take_ref_def)
  qed (simp add: take_ref_def f)
  then show "take_ref s' = take_ref s" by (rule ext)
  have k: "killable s' x = killable s x" for x using f(2,11) by (simp add: killable_def)
  have q: "(\<forall>t. threads s' x = Some t \<longrightarrow> killable s' (th_task t)) =
    (\<forall>t. threads s x = Some t \<longrightarrow> killable s (th_task t))" for x
    using rel[of x] k by auto
  show "queue_ok s' = queue_ok s" unfolding queue_ok_def q by (rule refl)
qed

subsection \<open>One round of the loop\<close>

lemma push_unconditional_count:
  assumes "push_unconditional x (s\<lparr>queueCount := c\<rparr>) = Ret () s'"
  shows "push_unconditional x s = Ret () (s'\<lparr>queueCount := queueCount s\<rparr>)"
  using assms
  by (auto simp: push_unconditional_def bnd_def wr_thread_def gets_def modify_def
      split: option.splits if_splits)

lemma hide_queue_count [simp]: "hide_queue (s\<lparr>queueCount := c\<rparr>) = hide_queue s"
  by (simp add: hide_queue_def)

lemma round_sleeping:
  assumes rq: "run_queue s (x # q)" and sl: "sleeping s x" and i: "i < m"
  shows "\<exists>s'. next_thread_round m (now s) (i, T) s = Ret (Inl (i + 1, min T (wait_time s x))) s' \<and>
    run_queue s' (q @ [x]) \<and> hide_queue s' = hide_queue s"
proof -
  obtain s1 t1 where s1: "shift_thread s = Ret x s1" "hide_queue s1 = hide_queue s"
    "queueCount s1 = queueCount s" "run_queue (s1\<lparr>queueCount := queueCount s - 1\<rparr>) q"
    "threads s1 x = Some t1"
    using shift_thread_removes[OF rq] by auto
  let ?s1 = "s1\<lparr>queueCount := queueCount s - 1\<rparr>"
  have x: "x \<notin> set q" "x \<noteq> NULL" using run_queue_distinct[OF rq] run_queue_nonnull[OF rq] by auto
  obtain s2 where s2: "push_unconditional x ?s1 = Ret () s2" "hide_queue s2 = hide_queue ?s1"
    "run_queue (s2\<lparr>queueCount := queueCount ?s1 + 1\<rparr>) (q @ [x])"
    using push_unconditional_appends[OF s1(4) _ x, of t1] s1(5) by auto
  have push: "push_unconditional x s1 = Ret () (s2\<lparr>queueCount := queueCount s\<rparr>)"
    using push_unconditional_count[OF s2(1)] s1(3) by simp
  note same = same_scheduling[OF s1(2)] hide_queue_fields(12)[OF s1(2)]
  have ts: "now s < th_nextTimestamp t1" "wait_time s x = th_nextTimestamp t1 - now s"
    using sl s1(5) unfolding same(1)[symmetric] same(2)[symmetric] same(6)[symmetric]
    by (simp_all add: sleeping_def wait_time_def)
  have "next_thread_round m (now s) (i, T) s =
      Ret (Inl (i + 1, min T (wait_time s x))) (s2\<lparr>queueCount := queueCount s\<rparr>)"
    using i s1(1,5) ts push
    by (auto simp: next_thread_round_def kern Let_def min_def)
  moreover have "run_queue (s2\<lparr>queueCount := queueCount s\<rparr>) (q @ [x])" using s2(3) by simp
  moreover have "hide_queue (s2\<lparr>queueCount := queueCount s\<rparr>) = hide_queue s" using s2(2) s1(2) by simp
  ultimately show ?thesis by blast
qed

text \<open>A thread that does not sleep leaves the queue; it is taken if its task is alive.\<close>

lemma round_dead:
  assumes rq: "run_queue s (x # q)" and sl: "\<not> sleeping s x" and al: "\<not> has_live_task s x"
    and ok: "queue_ok s [x]" and i: "i < m"
  shows "\<exists>s'. next_thread_round m (now s) (i, T) s = Ret (Inl (i + 1, T)) s' \<and>
    run_queue s' q \<and> hide_queue s' = hide_queue s"
proof -
  obtain s1 t1 where s1: "shift_thread s = Ret x s1" "hide_queue s1 = hide_queue s"
    "queueCount s1 = queueCount s" "run_queue (s1\<lparr>queueCount := queueCount s - 1\<rparr>) q"
    "threads s1 x = Some t1"
    using shift_thread_removes[OF rq] by auto
  let ?s1 = "s1\<lparr>queueCount := queueCount s - 1\<rparr>"
  note same = same_scheduling[OF s1(2)] hide_queue_fields(12)[OF s1(2)]
  have ts: "\<not> now s < th_nextTimestamp t1"
    using sl s1(5) unfolding same(1)[symmetric] same(6)[symmetric] by (simp add: sleeping_def)
  have dead: "\<not> has_live_task s1 x" "killable s1 (th_task t1)"
    using al ok s1(5) unfolding same(3,5)[symmetric] by (simp_all add: queue_ok_def)
  then obtain tk where tk: "th_task t1 \<noteq> NULL" "tasks ?s1 (th_task t1) = Some tk" "t_isKilled tk \<noteq> 0"
    "KillLock (th_task t1) \<notin> set (held ?s1)"
    using s1(5) by (auto simp: has_live_task_def killable_def)
  have ref: "anscheduler_task_reference (th_task t1) ?s1 = Ret False ?s1"
    using task_reference_runs[OF tk(2,4)] tk(3) by simp
  have "next_thread_round m (now s) (i, T) s = Ret (Inl (i + 1, T)) ?s1"
    using i s1(1,3,5) ts tk(1) ref by (simp add: next_thread_round_def kern Let_def)
  then show ?thesis using s1(2,4) by auto
qed

lemma round_live:
  assumes rq: "run_queue s (x # q)" and sl: "\<not> sleeping s x" and al: "has_live_task s x"
    and ok: "queue_ok s [x]" and i: "i < m" and h: "held s = LoopLock # h"
  shows "\<exists>s'. next_thread_round m (now s) (i, T) s = Ret (Inr (x, T)) s' \<and>
    run_queue s' q \<and> hide_queue s' = hide_queue (s\<lparr>held := h, tasks := take_ref s (Some x)\<rparr>) \<and>
    (\<exists>t. threads s' x = Some t \<and> unlinked t)"
proof -
  obtain s1 t1 where s1: "shift_thread s = Ret x s1" "hide_queue s1 = hide_queue s"
    "queueCount s1 = queueCount s" "run_queue (s1\<lparr>queueCount := queueCount s - 1\<rparr>) q"
    "threads s1 x = Some t1" "unlinked t1"
    using shift_thread_removes[OF rq] by auto
  let ?s1 = "s1\<lparr>queueCount := queueCount s - 1\<rparr>"
  note same = same_scheduling[OF s1(2)] hide_queue_fields(12)[OF s1(2)]
  have ts: "\<not> now s < th_nextTimestamp t1"
    using sl s1(5) unfolding same(1)[symmetric] same(6)[symmetric] by (simp add: sleeping_def)
  have live: "has_live_task s1 x" "killable s1 (th_task t1)"
    using al ok s1(5) unfolding same(3,5)[symmetric] by (simp_all add: queue_ok_def)
  let ?s2 = "?s1\<lparr>tasks := take_ref s1 (Some x)\<rparr>"
  have ref: "(if th_task t1 \<noteq> NULL then anscheduler_task_reference (th_task t1) else ret True) ?s1 = Ret True ?s2"
  proof (cases "th_task t1 = NULL")
    case True
    then have "?s2 = ?s1" using s1(5) by (simp add: take_ref_def)
    then show ?thesis using True by (simp add: kern)
  next
    case False
    then obtain tk where tk: "tasks ?s1 (th_task t1) = Some tk" "t_isKilled tk = 0"
      "KillLock (th_task t1) \<notin> set (held ?s1)"
      using live s1(5) by (auto simp: has_live_task_def killable_def split: option.splits)
    then show ?thesis
      using task_reference_runs[OF tk(1,3)] False s1(5) by (simp add: take_ref_def)
  qed
  have held: "held s1 = LoopLock # h" using hide_queue_fields(11)[OF s1(2)] h by simp
  let ?s3 = "?s2\<lparr>held := h\<rparr>"
  have "next_thread_round m (now s) (i, T) s = Ret (Inr (x, T)) ?s3"
    using i s1(1,3,5) ts ref held by (simp add: next_thread_round_def kern Let_def)
  moreover have "run_queue ?s3 q" using s1(4) by (simp add: run_queue_def)
  moreover have "hide_queue ?s3 = hide_queue (s\<lparr>held := h, tasks := take_ref s (Some x)\<rparr>)"
    using hide_queue_fields[OF s1(2)] unfolding same(4)
    by (intro sched.equality) (simp_all add: hide_queue_def)
  ultimately show ?thesis using s1(5,6) by (intro exI[of _ ?s3]) simp
qed

lemma round_end:
  assumes "held s = LoopLock # h" and "\<not> i < m"
  shows "next_thread_round m n (i, T) s = Ret (Inr (NULL, T)) (s\<lparr>held := h\<rparr>)"
  using assms by (simp add: next_thread_round_def kern)

subsection \<open>The loop refines the abstract scheduler\<close>

lemma hide_queue_commute2:
  assumes "hide_queue s' = hide_queue s"
  shows "hide_queue (s'\<lparr>held := h, tasks := tm\<rparr>) = hide_queue (s\<lparr>held := h, tasks := tm\<rparr>)"
  using hide_queue_fields[OF assms] by (intro sched.equality) (simp_all add: hide_queue_def)

lemma pick_cong:
  assumes "hide_queue s' = hide_queue s"
  shows "pick s' xs sl T = pick s xs sl T"
  by (induction xs arbitrary: sl T) (simp_all add: same_scheduling[OF assms])

lemma next_thread_loop:
  assumes "run_queue s (xs @ sl)" and "queue_ok s xs" and "held s = LoopLock # h"
    and "unat i + length xs = unat m" and "length xs < n"
  shows "\<exists>s'. kloop n Diverges (next_thread_round m (now s)) (i, T) s =
      Ret (or_null (fst (pick s xs sl T)), snd (snd (pick s xs sl T))) s' \<and>
    run_queue s' (fst (snd (pick s xs sl T))) \<and>
    hide_queue s' = hide_queue (s\<lparr>held := h, tasks := take_ref s (fst (pick s xs sl T))\<rparr>) \<and>
    (\<forall>x. fst (pick s xs sl T) = Some x \<longrightarrow> (\<exists>t. threads s' x = Some t \<and> unlinked t))"
  using assms
proof (induction xs arbitrary: s sl i T n)
  case Nil
  then obtain k where n: "n = Suc k" by (cases n) auto
  have i: "\<not> i < m" using Nil.prems(4) by (simp add: word_less_nat_alt)
  show ?case
    unfolding n kloop_done[where body = "next_thread_round m (now s)", OF round_end[OF Nil.prems(3) i]]
    using Nil.prems(1) by (auto simp: or_null_def take_ref_def run_queue_def)
next
  case (Cons x xs)
  obtain k where n: "n = Suc k" and k: "length xs < k" using Cons.prems(5) by (cases n) auto
  have i: "i < m" using Cons.prems(4) by (simp add: word_less_nat_alt)
  have i1: "unat (i + 1) + length xs = unat m"
    using Cons.prems(4) unsigned_less[where ?'a = nat, of m] by (simp add: unat_word_ariths)
  have rq: "run_queue s (x # (xs @ sl))" using Cons.prems(1) by simp
  have ok: "queue_ok s [x]" "queue_ok s xs" using Cons.prems(2) by (simp_all add: queue_ok_def)
  show ?case
  proof (cases "sleeping s x")
    case True
    from round_sleeping[OF rq True i, of T] obtain s1 where
      s1: "next_thread_round m (now s) (i, T) s = Ret (Inl (i + 1, min T (wait_time s x))) s1"
      "run_queue s1 (xs @ (sl @ [x]))" "hide_queue s1 = hide_queue s" by auto
    note same = same_scheduling[OF s1(3)] hide_queue_fields(11,12)[OF s1(3)] pick_cong[OF s1(3)]
    have "queue_ok s1 xs" "held s1 = LoopLock # h" using ok(2) Cons.prems(3) same by simp_all
    from Cons.IH[OF s1(2) this i1 k, of "min T (wait_time s x)"]
    have "\<exists>s'. kloop k Diverges (next_thread_round m (now s)) (i + 1, min T (wait_time s x)) s1 =
        Ret (or_null (fst (pick s (x # xs) sl T)), snd (snd (pick s (x # xs) sl T))) s' \<and>
      run_queue s' (fst (snd (pick s (x # xs) sl T))) \<and>
      hide_queue s' = hide_queue (s\<lparr>held := h, tasks := take_ref s (fst (pick s (x # xs) sl T))\<rparr>) \<and>
      (\<forall>y. fst (pick s (x # xs) sl T) = Some y \<longrightarrow> (\<exists>t. threads s' y = Some t \<and> unlinked t))"
      unfolding same hide_queue_commute2[OF s1(3)] using True by simp
    then show ?thesis unfolding n kloop_next[where body = "next_thread_round m (now s)", OF s1(1)] .
  next
    case False
    show ?thesis
    proof (cases "has_live_task s x")
      case True
      from round_live[OF rq False True ok(1) i Cons.prems(3), of T] obtain s1 where
        s1: "next_thread_round m (now s) (i, T) s = Ret (Inr (x, T)) s1" "run_queue s1 (xs @ sl)"
        "hide_queue s1 = hide_queue (s\<lparr>held := h, tasks := take_ref s (Some x)\<rparr>)"
        "\<exists>t. threads s1 x = Some t \<and> unlinked t" by auto
      show ?thesis
        unfolding n kloop_done[where body = "next_thread_round m (now s)", OF s1(1)]
        using False True s1(2-4) by (auto simp: or_null_def)
    next
      case dead: False
      from round_dead[OF rq False dead ok(1) i, of T] obtain s1 where
        s1: "next_thread_round m (now s) (i, T) s = Ret (Inl (i + 1, T)) s1" "run_queue s1 (xs @ sl)"
        "hide_queue s1 = hide_queue s" by auto
      note same = same_scheduling[OF s1(3)] hide_queue_fields(11,12)[OF s1(3)] pick_cong[OF s1(3)]
      have "queue_ok s1 xs" "held s1 = LoopLock # h" using ok(2) Cons.prems(3) same by simp_all
      from Cons.IH[OF s1(2) this i1 k, of T]
      have "\<exists>s'. kloop k Diverges (next_thread_round m (now s)) (i + 1, T) s1 =
          Ret (or_null (fst (pick s (x # xs) sl T)), snd (snd (pick s (x # xs) sl T))) s' \<and>
        run_queue s' (fst (snd (pick s (x # xs) sl T))) \<and>
        hide_queue s' = hide_queue (s\<lparr>held := h, tasks := take_ref s (fst (pick s (x # xs) sl T))\<rparr>) \<and>
        (\<forall>y. fst (pick s (x # xs) sl T) = Some y \<longrightarrow> (\<exists>t. threads s' y = Some t \<and> unlinked t))"
        unfolding same hide_queue_commute2[OF s1(3)] using False dead by simp
      then show ?thesis unfolding n kloop_next[where body = "next_thread_round m (now s)", OF s1(1)] .
    qed
  qed
qed

text \<open>What the abstract scheduler does, in closed form.\<close>

lemma pick_closed:
  "fst (pick s xs sl T) = (case dropWhile (\<lambda>x. \<not> runnable s x) xs of [] \<Rightarrow> None | x # _ \<Rightarrow> Some x)"
  "fst (snd (pick s xs sl T)) = tl (dropWhile (\<lambda>x. \<not> runnable s x) xs) @ sl @
     filter (sleeping s) (takeWhile (\<lambda>x. \<not> runnable s x) xs)"
  "snd (snd (pick s xs sl T)) =
     fold (\<lambda>x T. min T (wait_time s x)) (filter (sleeping s) (takeWhile (\<lambda>x. \<not> runnable s x) xs)) T"
  by (induction xs arbitrary: sl T) (simp_all add: runnable_def)

lemma fold_min_le: "fold (\<lambda>x T. min T (f x)) xs T \<le> (T :: u64)"
proof (induction xs arbitrary: T)
  case (Cons x xs)
  show ?case using order_trans[OF Cons.IH[of "min T (f x)"], of T] by simp
qed simp

lemma fold_min_le_elem: "x \<in> set xs \<Longrightarrow> fold (\<lambda>x T. min T (f x)) xs T \<le> (f x :: u64)"
proof (induction xs arbitrary: T)
  case (Cons y xs)
  show ?case
  proof (cases "x = y")
    case True
    then show ?thesis using order_trans[OF fold_min_le[of f xs "min T (f y)"], of "f y"] by simp
  qed (use Cons in auto)
qed simp

lemma run_queue_unat: "run_queue s xs \<Longrightarrow> unat (queueCount s) = length xs"
  using run_queue_length[of s xs] by (simp add: run_queue_def unsigned_of_nat take_bit_nat_eq_self)

lemma next_thread_refines:
  assumes rq: "run_queue s xs" and ok: "queue_ok s xs" and l: "LoopLock \<notin> set (held s)"
  shows "\<exists>s'. next_thread P s = Ret (or_null (fst (pick s xs [] (drop_bit 6 (pf_second_length P)))),
        snd (snd (pick s xs [] (drop_bit 6 (pf_second_length P))))) s' \<and>
    run_queue s' (fst (snd (pick s xs [] (drop_bit 6 (pf_second_length P))))) \<and>
    hide_queue s' = hide_queue (s\<lparr>tasks := take_ref s (fst (pick s xs [] (drop_bit 6 (pf_second_length P))))\<rparr>) \<and>
    (\<forall>x. fst (pick s xs [] (drop_bit 6 (pf_second_length P))) = Some x \<longrightarrow>
       (\<exists>t. threads s' x = Some t \<and> unlinked t))"
proof -
  let ?s = "s\<lparr>held := LoopLock # held s\<rparr>"
  have rq': "run_queue ?s (xs @ [])" and ok': "queue_ok ?s xs"
    using rq ok by (simp_all add: run_queue_def queue_ok_def killable_def)
  have eqs: "sleeping ?s = sleeping s" "wait_time ?s = wait_time s"
    "has_live_task ?s = has_live_task s" and tr: "take_ref ?s = take_ref s"
    by (rule scheduling_cong; simp)+
  have pk: "pick ?s xs sl T = pick s xs sl T" for sl T
    by (induction xs arbitrary: sl T) (simp_all add: eqs)
  have cnt: "unat (0 :: u64) + length xs = unat (queueCount s)" using run_queue_unat[OF rq] by simp
  have run: "next_thread P s = kloop max_steps Diverges (next_thread_round (queueCount s) (now ?s))
      (0, drop_bit 6 (pf_second_length P)) ?s"
    using l by (simp add: next_thread_def kwhile_def kern)
  show ?thesis
    using next_thread_loop[OF rq' ok' _ cnt, of "held s" max_steps "drop_bit 6 (pf_second_length P)"]
      dlist_length[OF run_queue_dlist[OF rq]]
    unfolding run pk tr by simp
qed

lemma next_thread_schedules_lemma:
  assumes "run_queue s xs" and "queue_ok s xs" and "LoopLock \<notin> set (held s)"
  shows "\<exists>s' T. next_thread P s = Ret (first_of (dropWhile (\<lambda>x. \<not> runnable s x) xs), T) s' \<and>
    run_queue s' (tl (dropWhile (\<lambda>x. \<not> runnable s x) xs) @
      filter (sleeping s) (takeWhile (\<lambda>x. \<not> runnable s x) xs)) \<and>
    hide_queue s' = hide_queue (s\<lparr>tasks := take_ref s
      (case dropWhile (\<lambda>x. \<not> runnable s x) xs of [] \<Rightarrow> None | x # _ \<Rightarrow> Some x)\<rparr>) \<and>
    (\<forall>x. (case dropWhile (\<lambda>x. \<not> runnable s x) xs of [] \<Rightarrow> None | x # _ \<Rightarrow> Some x) = Some x \<longrightarrow>
       (\<exists>t. threads s' x = Some t \<and> unlinked t)) \<and>
    T \<le> drop_bit 6 (pf_second_length P) \<and>
    (\<forall>x \<in> set (takeWhile (\<lambda>x. \<not> runnable s x) xs). sleeping s x \<longrightarrow> T \<le> wait_time s x)"
proof -
  have "or_null (case ys of [] \<Rightarrow> None | x # _ \<Rightarrow> Some x) = first_of ys" for ys
    by (cases ys) (simp_all add: or_null_def)
  then show ?thesis
    using next_thread_refines[OF assms, of P] unfolding pick_closed
    by (fastforce simp: fold_min_le fold_min_le_elem)
qed

text \<open>What a run of the loop leaves alone besides that: it only moves threads in the queue and takes a reference.\<close>

definition loop_frame :: "'v sched \<Rightarrow> 'v sched \<Rightarrow> bool" where
  "loop_frame s s' \<longleftrightarrow> raws s' = raws s \<and> sockets s' = sockets s \<and> descs s' = descs s \<and> msgs s' = msgs s \<and> held s' = held s \<and>
     (\<forall>y. (threads s' y = None) = (threads s y = None)) \<and>
     (\<forall>p. map_option t_firstPending (tasks s' p) = map_option t_firstPending (tasks s p))"

lemma take_ref_first: "map_option t_firstPending (take_ref s r p) = map_option t_firstPending (tasks s p)"
  by (simp add: take_ref_def option.map_comp comp_def split: option.split)

lemma loop_run_framed:
  assumes rq: "run_queue s xs" and ok: "queue_ok s xs" and l: "LoopLock \<notin> set (held s)"
    and t: "cpu_task s = NULL" and c: "cpu_locked s"
  shows "if \<exists>x \<in> set xs. runnable s x then
      \<exists>s' th. anscheduler_loop_run P s =
          Stop (RunThread (th_task th) (first_of (dropWhile (\<lambda>x. \<not> runnable s x) xs))) s' \<and>
        threads s' (first_of (dropWhile (\<lambda>x. \<not> runnable s x) xs)) = Some th \<and>
        cpu_thread s' = first_of (dropWhile (\<lambda>x. \<not> runnable s x) xs) \<and> cpu_task s' = th_task th \<and>
        cpu_locked s' = cpuLocked (th_state th) \<and>
        run_queue s' (tl (dropWhile (\<lambda>x. \<not> runnable s x) xs) @
          filter (sleeping s) (takeWhile (\<lambda>x. \<not> runnable s x) xs)) \<and>
        tasks s' = take_ref s (Some (first_of (dropWhile (\<lambda>x. \<not> runnable s x) xs))) \<and> loop_frame s s'
    else \<exists>s'. anscheduler_loop_run P s = Stop Idle s' \<and> cpu_task s' = NULL \<and> cpu_thread s' = NULL \<and>
        \<not> cpu_locked s' \<and> tasks s' = tasks s \<and> run_queue s' (filter (sleeping s) xs) \<and>
        loop_frame s s'"
proof -
  let ?s = "s\<lparr>cpu_task := NULL, cpu_thread := NULL\<rparr>"
  let ?d = "dropWhile (\<lambda>x. \<not> runnable s x) xs" and ?t = "takeWhile (\<lambda>x. \<not> runnable s x) xs"
  have eqs: "sleeping ?s = sleeping s" "runnable ?s = runnable s" "take_ref ?s = take_ref s"
    by (rule scheduling_cong; simp)+
  have "run_queue ?s xs" "queue_ok ?s xs" "LoopLock \<notin> set (held ?s)"
    using rq ok l by (simp_all add: run_queue_def queue_ok_def killable_def)
  from next_thread_schedules_lemma[OF this, of P] obtain s1 T where
    s1: "next_thread P ?s = Ret (first_of ?d, T) s1"
    "run_queue s1 (tl ?d @ filter (sleeping s) ?t)"
    "hide_queue s1 = hide_queue (?s\<lparr>tasks := take_ref s (case ?d of [] \<Rightarrow> None | x # _ \<Rightarrow> Some x)\<rparr>)"
    "\<forall>x. (case ?d of [] \<Rightarrow> None | x # _ \<Rightarrow> Some x) = Some x \<longrightarrow> (\<exists>t. threads s1 x = Some t \<and> unlinked t)"
    unfolding eqs by blast
  note f = hide_queue_fields[OF s1(3)]
  have thr: "(threads s1 y = None) = (threads s y = None)" for y using cores_None[OF f(25), of y] by simp
  have frame: "loop_frame s s2" if "raws s2 = raws s1" "sockets s2 = sockets s1" "descs s2 = descs s1" "msgs s2 = msgs s1"
    "held s2 = held s1" "threads s2 = threads s1" "tasks s2 = tasks s1" for s2
    using that f(1-5,11) thr by (simp add: loop_frame_def take_ref_first)
  have start: "anscheduler_loop_run P s = bnd (next_thread P) (\<lambda>(thread, timeout).
     bnd (anscheduler_timer_set (ucast timeout)) (\<lambda>_.
     if thread \<noteq> NULL then
       bnd (rd_thread thread) (\<lambda>th.
       bnd (anscheduler_cpu_set_task (th_task th)) (\<lambda>_.
       bnd (anscheduler_cpu_set_thread thread) (\<lambda>_.
       anscheduler_thread_run (th_task th) thread)))
     else
       bnd anscheduler_cpu_unlock (\<lambda>_.
       stop Idle))) ?s"
    using t by (simp add: anscheduler_loop_run_def kern)
  show ?thesis
  proof (cases ?d)
    case Nil
    then have none: "\<forall>x \<in> set xs. \<not> runnable s x" "?t = xs"
      by (simp_all add: dropWhile_eq_Nil_conv takeWhile_eq_all_conv)
    let ?s' = "s1\<lparr>cpu_nextInterrupt := now s1 + ucast (ucast T :: u32), cpu_locked := False\<rparr>"
    have "anscheduler_loop_run P s = Stop Idle ?s'"
      using start s1(1) Nil c f(15) by (simp add: kern)
    moreover have "run_queue ?s' (filter (sleeping s) xs)"
      using s1(2) Nil unfolding none(2) by (simp add: run_queue_def)
    moreover have "cpu_task ?s' = NULL" "cpu_thread ?s' = NULL" "tasks ?s' = tasks s"
      using f(2,13,14) Nil by (simp_all add: take_ref_def)
    moreover have "loop_frame s ?s'" by (rule frame) simp_all
    ultimately have "\<exists>s'. anscheduler_loop_run P s = Stop Idle s' \<and> cpu_task s' = NULL \<and>
        cpu_thread s' = NULL \<and> \<not> cpu_locked s' \<and> tasks s' = tasks s \<and> run_queue s' (filter (sleeping s) xs) \<and> loop_frame s s'"
      by (intro exI[of _ ?s']) simp
    moreover have "\<not> (\<exists>x \<in> set xs. runnable s x)" using none(1) by blast
    ultimately show ?thesis by (simp only: if_False)
  next
    case (Cons x ys)
    then have x: "x \<in> set xs" "runnable s x"
      by (metis dropWhile_eq_Cons_conv in_set_conv_decomp)+ 
    have nn: "x \<noteq> NULL" using x(1) run_queue_nonnull[OF rq] by auto
    obtain th where th: "threads s1 x = Some th" using s1(4) Cons by auto
    let ?s' = "s1\<lparr>cpu_nextInterrupt := now s1 + ucast (ucast T :: u32), cpu_task := th_task th,
      cpu_thread := x, cpu_locked := cpuLocked (th_state th)\<rparr>"
    have "anscheduler_loop_run P s = Stop (RunThread (th_task th) x) ?s'"
      using start s1(1) Cons nn th by (simp add: kern)
    moreover have "run_queue ?s' (tl ?d @ filter (sleeping s) ?t)" using s1(2) by (simp add: run_queue_def)
    moreover have "tasks ?s' = take_ref s (Some x)" using f(2) Cons by simp
    moreover have "loop_frame s ?s'" by (rule frame) simp_all
    ultimately have "\<exists>s' th. anscheduler_loop_run P s = Stop (RunThread (th_task th) (first_of ?d)) s' \<and>
        threads s' (first_of ?d) = Some th \<and> cpu_thread s' = first_of ?d \<and> cpu_task s' = th_task th \<and>
        cpu_locked s' = cpuLocked (th_state th) \<and> run_queue s' (tl ?d @ filter (sleeping s) ?t) \<and>
        tasks s' = take_ref s (Some (first_of ?d)) \<and> loop_frame s s'"
      using th Cons by (intro exI[of _ ?s'] exI[of _ th]) simp
    then show ?thesis using x by auto
  qed
qed

lemma loop_run_no_task:
  assumes rq: "run_queue s xs" and ok: "queue_ok s xs" and l: "LoopLock \<notin> set (held s)"
    and t: "cpu_task s = NULL" and c: "cpu_locked s"
  shows "if \<exists>x \<in> set xs. runnable s x then
      \<exists>s' th. anscheduler_loop_run P s =
          Stop (RunThread (th_task th) (first_of (dropWhile (\<lambda>x. \<not> runnable s x) xs))) s' \<and>
        threads s' (first_of (dropWhile (\<lambda>x. \<not> runnable s x) xs)) = Some th \<and>
        cpu_thread s' = first_of (dropWhile (\<lambda>x. \<not> runnable s x) xs) \<and> cpu_task s' = th_task th \<and>
        cpu_locked s' = cpuLocked (th_state th) \<and>
        run_queue s' (tl (dropWhile (\<lambda>x. \<not> runnable s x) xs) @
          filter (sleeping s) (takeWhile (\<lambda>x. \<not> runnable s x) xs)) \<and>
        tasks s' = take_ref s (Some (first_of (dropWhile (\<lambda>x. \<not> runnable s x) xs)))
    else \<exists>s'. anscheduler_loop_run P s = Stop Idle s' \<and> cpu_task s' = NULL \<and> cpu_thread s' = NULL \<and>
        \<not> cpu_locked s' \<and> tasks s' = tasks s \<and> run_queue s' (filter (sleeping s) xs)"
  using loop_run_framed[OF assms, of P] by (simp only: split: if_splits) blast+

lemma loop_run_ends:
  assumes "run_queue s xs" and "queue_ok s xs" and "LoopLock \<notin> set (held s)" and "cpu_task s = NULL" and "cpu_locked s"
  shows "\<exists>c s'. anscheduler_loop_run P s = Stop c s' \<and> (c = Idle \<or> (\<exists>tk. \<exists>y \<in> set xs. c = RunThread tk y)) \<and> loop_frame s s'"
proof (cases "\<exists>x \<in> set xs. runnable s x")
  case True
  then obtain y ys where d: "dropWhile (\<lambda>x. \<not> runnable s x) xs = y # ys"
    by (cases "dropWhile (\<lambda>x. \<not> runnable s x) xs") (auto simp: dropWhile_eq_Nil_conv)
  then have "y \<in> set xs" using set_dropWhileD[of y "\<lambda>x. \<not> runnable s x" xs] by simp
  then show ?thesis using loop_run_framed[OF assms, of P] True d by (simp only: if_True first_of_simps) blast
next
  case False
  then show ?thesis using loop_run_framed[OF assms, of P] by (simp only: if_False) blast
qed

text \<open>A kernel thread that has done its job: its stack and its struct are freed, and the CPU goes to another thread or idles.\<close>

lemma delete_cur_kernel_ends:
  assumes "run_queue s xs" and "queue_ok s xs" and "LoopLock \<notin> set (held s)" and "cpu_task s = NULL" and "cpu_locked s"
    and "threads s (cpu_thread s) = Some t" and "cpu_thread s \<notin> set xs" and "raws s (th_stack t) \<noteq> None"
  shows "\<exists>c s'. anscheduler_loop_delete_cur_kernel P s = Stop c s' \<and> (c = Idle \<or> (\<exists>tk. \<exists>y \<in> set xs. c = RunThread tk y)) \<and>
    loop_frame (s\<lparr>raws := (raws s)(th_stack t := None), threads := (threads s)(cpu_thread s := None)\<rparr>) s'"
proof -
  let ?s = "s\<lparr>cpu_thread := NULL, raws := (raws s)(th_stack t := None), threads := (threads s)(cpu_thread s := None)\<rparr>"
  have run: "anscheduler_loop_delete_cur_kernel P s = anscheduler_loop_run P ?s"
    using assms(4-6,8) by (auto simp: anscheduler_loop_delete_cur_kernel_def delete_cur_kernel_def kern)
  have "dlist (queue_next (threads ?s)) (queue_last (threads ?s)) xs = dlist (queue_next (threads s)) (queue_last (threads s)) xs"
    using assms(7) by (intro dlist_cong) (auto simp: queue_next_def queue_last_def)
  then have "run_queue ?s xs" using assms(1,7) by (auto simp: run_queue_def)
  moreover have "queue_ok ?s xs" using assms(2) by (auto simp: queue_ok_def killable_def)
  ultimately obtain c s' where "anscheduler_loop_run P ?s = Stop c s'" "c = Idle \<or> (\<exists>tk. \<exists>y \<in> set xs. c = RunThread tk y)"
    "loop_frame ?s s'" using loop_run_ends[of ?s xs P] assms(3-5) by auto
  then show ?thesis unfolding run by (intro exI[of _ c] exI[of _ s']) (simp add: loop_frame_def)
qed

lemma refcount_scheduling:
  assumes "tasks s task = Some tk"
  shows "sleeping (s\<lparr>tasks := (tasks s)(task \<mapsto> tk\<lparr>t_refCount := r\<rparr>)\<rparr>) = sleeping s"
    "runnable (s\<lparr>tasks := (tasks s)(task \<mapsto> tk\<lparr>t_refCount := r\<rparr>)\<rparr>) = runnable s"
    "queue_ok (s\<lparr>tasks := (tasks s)(task \<mapsto> tk\<lparr>t_refCount := r\<rparr>)\<rparr>) = queue_ok s"
proof -
  let ?s = "s\<lparr>tasks := (tasks s)(task \<mapsto> tk\<lparr>t_refCount := r\<rparr>)\<rparr>"
  show sl: "sleeping ?s = sleeping s" by (rule ext) (simp add: sleeping_def cong: option.case_cong)
  have "has_live_task ?s x = has_live_task s x" for x
    using assms by (cases "threads s x") (simp_all add: has_live_task_def)
  then show "runnable ?s = runnable s" by (simp add: runnable_def fun_eq_iff sl)
  have "killable ?s x = killable s x" for x using assms by (simp add: killable_def)
  then show "queue_ok ?s = queue_ok s" by (simp add: queue_ok_def fun_eq_iff)
qed

lemma push_cur_appends:
  assumes rq: "run_queue s xs" and ok: "queue_ok s (xs @ [x])" and l: "LoopLock \<notin> set (held s)"
    and x: "cpu_thread s = x" "x \<noteq> NULL" "x \<notin> set xs" "threads s x = Some t" "th_task t = cpu_task s"
    and live: "has_live_task s x"
  shows "\<exists>s'. anscheduler_loop_push_cur P s = Ret () s' \<and> run_queue s' (xs @ [x]) \<and>
    queue_ok s' (xs @ [x]) \<and> runnable s' = runnable s \<and> sleeping s' = sleeping s \<and>
    held s' = held s \<and> cpu_task s' = NULL \<and> cpu_thread s' = NULL \<and> cpu_locked s' = cpu_locked s \<and>
    hide_queue s' = hide_queue (s\<lparr>tasks := drop_ref s (cpu_task s), cpu_task := NULL, cpu_thread := NULL\<rparr>)"
proof -
  let ?s0 = "s\<lparr>cpu_task := NULL, cpu_thread := NULL\<rparr>"
  have eqs: "sleeping ?s0 = sleeping s" "runnable ?s0 = runnable s" by (rule scheduling_cong; simp)+
  have kill: "killable s (th_task t)" using ok x(4) by (simp add: queue_ok_def)
  have alive: "task_alive s (th_task t)"
    using live x(4) by (auto simp: has_live_task_def task_alive_def split: option.splits)
  have "run_queue ?s0 xs" using rq by (simp add: run_queue_def)
  moreover have "killable ?s0 (th_task t)" "task_alive ?s0 (th_task t)"
    using kill alive by (simp_all add: killable_def task_alive_def)
  ultimately obtain s1 where s1: "anscheduler_loop_push x ?s0 = Ret () s1"
    "hide_queue s1 = hide_queue ?s0" "run_queue s1 (xs @ [x])"
    using anscheduler_loop_push_appends[of ?s0 xs x t] x(2-4) l by auto
  note f = hide_queue_fields[OF s1(2)] and same = same_scheduling[OF s1(2)]
  have run1: "runnable s1 = runnable s"
    using same eqs(2) by (simp add: runnable_def fun_eq_iff)
  have ok1: "queue_ok s1 (xs @ [x])"
    using ok unfolding same by (simp add: queue_ok_def killable_def)
  show ?thesis
  proof (cases "cpu_task s = NULL")
    case True
    have "s\<lparr>cpu_thread := NULL\<rparr> = ?s0" using True by (intro sched.equality) simp_all
    then have "anscheduler_loop_push x (s\<lparr>cpu_thread := NULL\<rparr>) = Ret () s1" using s1(1) by simp
    then have "anscheduler_loop_push_cur P s = Ret () s1"
      using x(1,2) True by (simp add: anscheduler_loop_push_cur_def kern)
    moreover have "s\<lparr>tasks := drop_ref s (cpu_task s), cpu_task := NULL, cpu_thread := NULL\<rparr> = ?s0"
      using True by (intro sched.equality) (simp_all add: drop_ref_def)
    ultimately show ?thesis using s1(2,3) ok1 run1 same(1) eqs(1) f(11,13-15) by (intro exI[of _ s1]) simp
  next
    case False
    then obtain tk where tk: "tasks s1 (cpu_task s) = Some tk" "t_isKilled tk = 0"
      "KillLock (cpu_task s) \<notin> set (held s1)"
      using kill alive x(5) f by (auto simp: killable_def task_alive_def)
    let ?s2 = "s1\<lparr>tasks := (tasks s1)(cpu_task s \<mapsto> tk\<lparr>t_refCount := t_refCount tk - 1\<rparr>)\<rparr>"
    have "anscheduler_task_dereference P (cpu_task s) s1 = Ret () ?s2"
      using task_dereference_runs[OF tk(1,3), of P] tk(2) by (simp add: Let_def)
    then have "anscheduler_loop_push_cur P s = Ret () ?s2"
      using x(1,2) s1(1) False by (simp add: anscheduler_loop_push_cur_def kern)
    moreover have "run_queue ?s2 (xs @ [x])" using s1(3) by (simp add: run_queue_def)
    moreover have "hide_queue ?s2 =
      hide_queue (s\<lparr>tasks := drop_ref s (cpu_task s), cpu_task := NULL, cpu_thread := NULL\<rparr>)"
    proof -
      have tm: "tasks ?s2 = drop_ref s (cpu_task s)" using tk(1) f(2) False by (simp add: drop_ref_def)
      have "hide_queue ?s2 = hide_queue (?s0\<lparr>tasks := tasks ?s2\<rparr>)"
        using hide_queue_commute(3)[OF s1(2), of "tasks ?s2"] by simp
      moreover have "?s0\<lparr>tasks := tasks ?s2\<rparr> =
        s\<lparr>tasks := drop_ref s (cpu_task s), cpu_task := NULL, cpu_thread := NULL\<rparr>" unfolding tm by simp
      ultimately show ?thesis by simp
    qed
    ultimately show ?thesis
      using ok1 run1 same(1) eqs(1) f(11,13-15) refcount_scheduling[OF tk(1)] by (intro exI[of _ ?s2]) simp
  qed
qed

text \<open>Switching to a thread puts the running thread, if there is one, at the end of the queue.\<close>

lemma push_cur_runs:
  assumes c: "cpu_ok s xs"
  shows "\<exists>s'. anscheduler_loop_push_cur P s = Ret () s' \<and> run_queue s' (xs @ cur_list s) \<and>
    hide_queue s' = hide_queue (s\<lparr>tasks := drop_ref s (cpu_task s), cpu_task := NULL, cpu_thread := NULL\<rparr>)"
proof (cases "cpu_thread s = NULL")
  case True
  then have "s\<lparr>tasks := drop_ref s (cpu_task s), cpu_task := NULL, cpu_thread := NULL\<rparr> = s"
    using c by (intro sched.equality) (simp_all add: drop_ref_def cpu_ok_def)
  moreover have "anscheduler_loop_push_cur P s = Ret () s"
    using True by (simp add: anscheduler_loop_push_cur_def kern)
  ultimately show ?thesis using True c by (simp add: cur_list_def cpu_ok_def)
next
  case False
  then obtain t where "threads s (cpu_thread s) = Some t" "th_task t = cpu_task s" using c by (auto simp: cpu_ok_def)
  then show ?thesis
    using push_cur_appends[of s xs "cpu_thread s" t P] c False by (auto simp: cpu_ok_def cur_list_def)
qed

lemma loop_switch_runs:
  assumes c: "cpu_ok s xs" and th: "threads s y = Some th"
  shows "\<exists>s'. anscheduler_loop_switch P task y s = Stop (RunThread (th_task th) y) s' \<and>
    run_queue s' (xs @ cur_list s) \<and>
    hide_queue s' = hide_queue (s\<lparr>tasks := drop_ref s (cpu_task s), cpu_task := th_task th, cpu_thread := y,
      cpu_locked := cpuLocked (th_state th)\<rparr>)"
proof -
  let ?r = "s\<lparr>tasks := drop_ref s (cpu_task s), cpu_task := NULL, cpu_thread := NULL\<rparr>"
  obtain s1 where s1: "anscheduler_loop_push_cur P s = Ret () s1" "run_queue s1 (xs @ cur_list s)"
    "hide_queue s1 = hide_queue ?r" using push_cur_runs[OF c] by blast
  note f = hide_queue_fields[OF s1(3)]
  obtain t1 where t1: "threads s1 y = Some t1" "thread_core t1 = thread_core th"
    using cores_Some[OF f(25), of y] th by auto
  note tf = thread_core_fields[OF t1(2)]
  let ?s' = "s1\<lparr>cpu_task := th_task th, cpu_thread := y, cpu_locked := cpuLocked (th_state th)\<rparr>"
  have "anscheduler_loop_switch P task y s = Stop (RunThread (th_task th) y) ?s'"
    using s1(1) t1(1) tf by (simp add: anscheduler_loop_switch_def switch_to_thread_def kern)
  moreover have "run_queue ?s' (xs @ cur_list s)" using s1(2) by (simp add: run_queue_def)
  moreover have "hide_queue ?s' = hide_queue (?r\<lparr>cpu_task := th_task th, cpu_thread := y,
      cpu_locked := cpuLocked (th_state th)\<rparr>)"
    by (intro sched.equality) (use f in \<open>simp_all add: hide_queue_def\<close>)
  ultimately show ?thesis by (intro exI[of _ ?s']) simp
qed

subsection \<open>Properties\<close>

text \<open>C3: the choice of the next thread. \<open>_next_thread\<close> returns the first queued thread that is due
  and whose task is alive, NULL if there is none. The threads behind it stay in front of the
  queue, the sleepers found before it follow in their order, and the threads of killed
  tasks found before it are dropped; the chosen thread is out of the queue, its links are clear,
  its task has one more reference, and nothing else changes. The timeout is at most 1/64 of a
  second and never later than the time at which one of the sleepers passed over is due.\<close>

theorem next_thread_schedules:
  assumes "run_queue s xs" and "queue_ok s xs" and "LoopLock \<notin> set (held s)"
  shows "\<exists>s' T. next_thread P s = Ret (first_of (dropWhile (\<lambda>x. \<not> runnable s x) xs), T) s' \<and>
    run_queue s' (tl (dropWhile (\<lambda>x. \<not> runnable s x) xs) @
      filter (sleeping s) (takeWhile (\<lambda>x. \<not> runnable s x) xs)) \<and>
    hide_queue s' = hide_queue (s\<lparr>tasks := take_ref s
      (case dropWhile (\<lambda>x. \<not> runnable s x) xs of [] \<Rightarrow> None | x # _ \<Rightarrow> Some x)\<rparr>) \<and>
    (\<forall>x. (case dropWhile (\<lambda>x. \<not> runnable s x) xs of [] \<Rightarrow> None | x # _ \<Rightarrow> Some x) = Some x \<longrightarrow>
       (\<exists>t. threads s' x = Some t \<and> unlinked t)) \<and>
    T \<le> drop_bit 6 (pf_second_length P) \<and>
    (\<forall>x \<in> set (takeWhile (\<lambda>x. \<not> runnable s x) xs). sleeping s x \<longrightarrow> T \<le> wait_time s x)"
  by (rule next_thread_schedules_lemma[OF assms])

lemma loop_ex_queue: "run_queue loop_ex [0x100, 0x200, 0x300]"
  by (simp add: run_queue_def loop_ex_def dlist_def queue_next_def queue_last_def zero_thread_def)

lemma loop_ex_ok: "queue_ok loop_ex [0x100, 0x200, 0x300, 0x400]"
  by (simp add: queue_ok_def loop_ex_def killable_def zero_thread_def flat_boot_def boot_def)

lemma loop_ex_states:
  "sleeping loop_ex 0x100" "\<not> sleeping loop_ex 0x200" "\<not> sleeping loop_ex 0x300" "\<not> sleeping loop_ex 0x400"
  "\<not> has_live_task loop_ex 0x200" "has_live_task loop_ex 0x300" "has_live_task loop_ex 0x400"
  by (simp_all add: sleeping_def has_live_task_def loop_ex_def zero_thread_def)

lemma loop_ex_runnable:
  "\<not> runnable loop_ex 0x100" "\<not> runnable loop_ex 0x200" "runnable loop_ex 0x300" "runnable loop_ex 0x400"
  by (simp_all add: runnable_def loop_ex_states)

lemma loop_ex_fields:
  "held loop_ex = []" "cpu_locked loop_ex" "cpu_thread loop_ex = 0x400" "cpu_task loop_ex = NULL"
  "threads loop_ex 0x400 = Some zero_thread" "th_task zero_thread = NULL" "wait_time loop_ex 0x100 = 40"
  by (simp_all add: loop_ex_def flat_boot_def boot_def zero_thread_def wait_time_def)

theorem next_thread_schedules_witness:
  "\<exists>s' T. next_thread flat_plat loop_ex = Ret (0x300, T) s' \<and> run_queue s' [0x100] \<and> T \<le> 40"
  using next_thread_schedules[OF loop_ex_queue, of flat_plat] loop_ex_ok
  by (auto simp: loop_ex_runnable loop_ex_states loop_ex_fields queue_ok_def)

text \<open>C9: giving up the CPU is round robin and never idles a runnable thread. When the running
  thread resigns, it goes to the end of the queue and the CPU runs the first runnable thread
  of the queue with it at the end: so every other runnable thread comes first, and if there is
  none the thread itself runs again; the CPU's task and thread are those of the thread
  that runs, and it resumes with the lock flag it was saved with.\<close>

theorem resign_round_robin:
  assumes "run_queue s xs" and "queue_ok s (xs @ [x])" and "LoopLock \<notin> set (held s)"
    and "cpu_locked s" and "cpu_thread s = x" and "x \<noteq> NULL" and "x \<notin> set xs"
    and "threads s x = Some t" and "th_task t = cpu_task s" and "runnable s x"
  shows "\<exists>s' th. anscheduler_loop_resign P s =
      Stop (RunThread (th_task th) (first_of (dropWhile (\<lambda>y. \<not> runnable s y) (xs @ [x])))) s' \<and>
    threads s' (cpu_thread s') = Some th \<and> cpu_task s' = th_task th \<and>
    cpu_thread s' = first_of (dropWhile (\<lambda>y. \<not> runnable s y) (xs @ [x])) \<and>
    cpu_locked s' = cpuLocked (th_state th) \<and>
    run_queue s' (tl (dropWhile (\<lambda>y. \<not> runnable s y) (xs @ [x])) @
      filter (sleeping s) (takeWhile (\<lambda>y. \<not> runnable s y) (xs @ [x])))"
proof -
  have live: "has_live_task s x" using assms(10) by (simp add: runnable_def)
  from push_cur_appends[OF assms(1,2,3,5-9) live, of P] obtain s1 where
    s1: "anscheduler_loop_push_cur P s = Ret () s1" "run_queue s1 (xs @ [x])" "queue_ok s1 (xs @ [x])"
      "runnable s1 = runnable s" "sleeping s1 = sleeping s" "held s1 = held s" "cpu_task s1 = NULL"
      "cpu_locked s1 = cpu_locked s" by blast
  have "anscheduler_loop_resign P s = anscheduler_loop_run P s1"
    using s1(1) by (simp add: anscheduler_loop_resign_def resign_stub_def kern)
  moreover have "\<exists>y \<in> set (xs @ [x]). runnable s1 y" using assms(10) s1(4) by simp
  moreover have "LoopLock \<notin> set (held s1)" "cpu_locked s1" using assms(3,4) s1(6,8) by simp_all
  ultimately have run: "anscheduler_loop_resign P s = anscheduler_loop_run P s1"
    and ex: "(\<exists>y \<in> set (xs @ [x]). runnable s y) = True"
    and lc: "LoopLock \<notin> set (held s1)" "cpu_locked s1" using s1(4) by simp_all
  show ?thesis
    using loop_run_no_task[OF s1(2,3) lc(1) s1(7) lc(2), of P] unfolding s1(4,5) run ex if_True
    by (elim exE conjE) (intro exI conjI, assumption, simp_all)
qed

theorem resign_round_robin_witness:
  "\<exists>s' th. anscheduler_loop_resign flat_plat loop_ex = Stop (RunThread (th_task th) 0x300) s' \<and>
      threads s' 0x300 = Some th \<and> cpu_thread s' = 0x300 \<and> run_queue s' [0x400, 0x100]"
  using resign_round_robin[OF loop_ex_queue, of "0x400" zero_thread flat_plat] loop_ex_ok
  by (auto simp: loop_ex_runnable loop_ex_states loop_ex_fields)

end
