(* ===== verification/Intrusive.thy ===== *)
theory Intrusive
  imports Kernel_State
begin

text \<open>
  Lists and hash tables that are threaded through the objects they hold, as the kernel keeps
  its PID table, the socket table and the thread list of a task.

  The locale \<open>intrusive_list\<close> is the interface to the two link fields of a struct, and the
  locale \<open>hash_table\<close> adds a key and a hash function. The list and table operations are
  functions on the heap of the struct; what they do to the list is proved once here and
  holds for every struct that interprets the locales.
\<close>

definition fld :: "('o \<Rightarrow> addr) \<Rightarrow> (addr \<rightharpoonup> 'o) \<Rightarrow> addr \<Rightarrow> addr" where
  "fld f h p = (case h p of Some x \<Rightarrow> f x | None \<Rightarrow> NULL)"

definition upd :: "addr \<Rightarrow> ('o \<Rightarrow> 'o) \<Rightarrow> (addr \<rightharpoonup> 'o) \<Rightarrow> addr \<rightharpoonup> 'o" where
  "upd p f h = h(p := map_option f (h p))"

definition chain :: "('o \<Rightarrow> addr) \<Rightarrow> ('o \<Rightarrow> addr) \<Rightarrow> (addr \<rightharpoonup> 'o) \<Rightarrow> addr list \<Rightarrow> bool" where
  "chain nxt pv h xs \<longleftrightarrow> dlist (fld nxt h) (fld pv h) xs \<and> (\<forall>x \<in> set xs. h x \<noteq> None)"

text \<open>Insertion of \<open>x\<close> before the first element, and removal of \<open>x\<close> from between its neighbours.\<close>

definition insert_front ::
  "(addr \<Rightarrow> 'o \<Rightarrow> 'o) \<Rightarrow> (addr \<Rightarrow> 'o \<Rightarrow> 'o) \<Rightarrow> addr \<Rightarrow> addr \<Rightarrow> (addr \<rightharpoonup> 'o) \<Rightarrow> addr \<rightharpoonup> 'o" where
  "insert_front set_nxt set_pv x first h =
     upd x (\<lambda>a. set_nxt first (set_pv NULL a)) (if first = NULL then h else upd first (set_pv x) h)"

definition unlink ::
  "(addr \<Rightarrow> 'o \<Rightarrow> 'o) \<Rightarrow> (addr \<Rightarrow> 'o \<Rightarrow> 'o) \<Rightarrow> addr \<Rightarrow> addr \<Rightarrow> (addr \<rightharpoonup> 'o) \<Rightarrow> addr \<rightharpoonup> 'o" where
  "unlink set_nxt set_pv before after h =
     (let h1 = (if before = NULL then h else upd before (set_nxt after) h)
      in if after = NULL then h1 else upd after (set_pv before) h1)"

definition table ::
  "('o \<Rightarrow> addr) \<Rightarrow> ('o \<Rightarrow> addr) \<Rightarrow> ('o \<Rightarrow> u64) \<Rightarrow> (u64 \<Rightarrow> u8) \<Rightarrow> (u8 \<Rightarrow> addr) \<Rightarrow> (addr \<rightharpoonup> 'o) \<Rightarrow>
   (u8 \<Rightarrow> addr list) \<Rightarrow> bool" where
  "table nxt pv key hash heads h B \<longleftrightarrow> (\<forall>i. chain nxt pv h (B i) \<and> heads i = first_of (B i) \<and>
     (\<forall>x \<in> set (B i). \<forall>a. h x = Some a \<longrightarrow> hash (key a) = i))"

text \<open>The finite map from keys to objects that a table represents.\<close>

definition table_rep ::
  "('o \<Rightarrow> addr) \<Rightarrow> ('o \<Rightarrow> addr) \<Rightarrow> ('o \<Rightarrow> u64) \<Rightarrow> (u64 \<Rightarrow> u8) \<Rightarrow> (u8 \<Rightarrow> addr) \<Rightarrow> (addr \<rightharpoonup> 'o) \<Rightarrow>
   (u64 \<rightharpoonup> addr) \<Rightarrow> bool" where
  "table_rep nxt pv key hash heads h M \<longleftrightarrow> (\<exists>B. table nxt pv key hash heads h B \<and>
     (\<forall>k x. M k = Some x \<longleftrightarrow> x \<in> set (B (hash k)) \<and> map_option key (h x) = Some k))"

subsection \<open>Heaps\<close>

lemma upd_apply: "upd p f h q = (if q = p then map_option f (h q) else h q)"
  by (simp add: upd_def)

lemma upd_Some [simp]: "h p = Some a \<Longrightarrow> upd p f h = h(p \<mapsto> f a)"
  by (simp add: upd_def)

lemma fld_upd: "h p = Some a \<Longrightarrow> fld f (h(p \<mapsto> b)) = (fld f h)(p := f b)"
  by (auto simp: fld_def)

lemma fld_Some: "h p = Some a \<Longrightarrow> fld f h p = f a"
  by (simp add: fld_def)

lemma fld_upd_same: "h p = Some a \<Longrightarrow> f b = f a \<Longrightarrow> fld f (h(p \<mapsto> b)) = fld f h"
  by (auto simp: fld_def)

lemma slist_fld_frame: "x \<notin> set xs \<Longrightarrow> slist (fld f (h(x := v))) xs = slist (fld f h) xs"
  by (intro slist_cong) (auto simp: fld_def)

lemma chain_dlist: "chain nxt pv h xs \<Longrightarrow> dlist (fld nxt h) (fld pv h) xs"
  by (simp add: chain_def)

lemmas chain_distinct = chain_dlist [THEN dlist_distinct]
lemmas chain_nonnull = chain_dlist [THEN dlist_nonnull]
lemmas chain_length = chain_dlist [THEN dlist_length]

lemma chain_Some: "chain nxt pv h xs \<Longrightarrow> x \<in> set xs \<Longrightarrow> \<exists>a. h x = Some a"
  by (auto simp: chain_def)

lemma chain_Nil [simp]: "chain nxt pv h []"
  by (simp add: chain_def)

lemma chain_frame:
  assumes "\<And>p. p \<in> set xs \<Longrightarrow> h' p = h p"
  shows "chain nxt pv h' xs = chain nxt pv h xs"
proof -
  have "dlist (fld nxt h') (fld pv h') xs = dlist (fld nxt h) (fld pv h) xs"
    using assms by (intro dlist_cong) (simp_all add: fld_def)
  then show ?thesis using assms by (auto simp: chain_def)
qed

lemma chain_at:
  assumes "chain nxt pv h (as @ x # bs)" and "h x = Some a"
  shows "pv a = last_of as" "nxt a = first_of bs"
  using dlist_at[OF chain_dlist[OF assms(1)]] assms(2) by (simp_all add: fld_def)

lemma chain_Cons:
  assumes "chain nxt pv h (x # xs)"
  shows "\<exists>a. h x = Some a \<and> nxt a = first_of xs" "x \<noteq> NULL"
  using chain_Some[OF assms, of x] chain_at[of nxt pv h "[]" x xs] chain_nonnull[OF assms] assms by auto

lemma tableI:
  assumes "\<And>i. chain nxt pv h (B i)" and "\<And>i. heads i = first_of (B i)"
    and "\<And>i x a. x \<in> set (B i) \<Longrightarrow> h x = Some a \<Longrightarrow> hash (key a) = i"
  shows "table nxt pv key hash heads h B"
  using assms by (simp add: table_def)

subsection \<open>Lists\<close>

locale intrusive_list =
  fixes nxt pv :: "'o \<Rightarrow> addr" and set_nxt set_pv :: "addr \<Rightarrow> 'o \<Rightarrow> 'o"
  assumes nxt_set_nxt [simp]: "nxt (set_nxt p a) = p"
    and pv_set_pv [simp]: "pv (set_pv p a) = p"
    and nxt_set_pv [simp]: "nxt (set_pv p a) = nxt a"
    and pv_set_nxt [simp]: "pv (set_nxt p a) = pv a"
begin

lemma insert_front_chain:
  assumes c: "chain nxt pv h xs" and x: "h x = Some a" "x \<notin> set xs" "x \<noteq> NULL"
  shows "chain nxt pv (insert_front set_nxt set_pv x (first_of xs) h) (x # xs)"
proof (cases xs)
  case Nil
  then show ?thesis using x by (simp add: insert_front_def chain_def dlist_def fld_def)
next
  case (Cons y ys)
  then obtain b where b: "h y = Some b" using chain_Some[OF c, of y] by auto
  have ne: "y \<noteq> x" "y \<noteq> NULL" "y \<notin> set ys"
    using Cons x(2) chain_nonnull[OF c] chain_distinct[OF c] by auto
  let ?h = "h(y \<mapsto> set_pv x b, x \<mapsto> set_nxt y (set_pv NULL a))"
  have h: "insert_front set_nxt set_pv x (first_of xs) h = ?h"
    using Cons ne(1,2) b x(1) by (simp add: insert_front_def)
  have "dlist (fld nxt ?h) (fld pv ?h) (x # xs)"
    by (rule dlist_push_front[OF chain_dlist[OF c] x(3,2)])
       (use Cons b x(1,2) ne in \<open>auto simp: fld_def\<close>)
  then show ?thesis unfolding h chain_def using c by (auto simp: chain_def)
qed

lemma unlink_chain:
  assumes c: "chain nxt pv h (as @ x # bs)"
  shows "chain nxt pv (unlink set_nxt set_pv (last_of as) (first_of bs) h) (as @ bs)"
proof -
  let ?h = "unlink set_nxt set_pv (last_of as) (first_of bs) h"
  have d: "set as \<inter> set bs = {}" "distinct as" "distinct bs" "NULL \<notin> set as" "NULL \<notin> set bs"
    using chain_distinct[OF c] chain_nonnull[OF c] by auto
  have ends: "last_of as \<noteq> NULL \<longleftrightarrow> as \<noteq> []" "first_of bs \<noteq> NULL \<longleftrightarrow> bs \<noteq> []"
    using d(4,5) by (simp_all add: first_of_eq_NULL last_of_eq_NULL)
  have ne: "last_of as \<noteq> NULL \<Longrightarrow> first_of bs \<noteq> NULL \<Longrightarrow> last_of as \<noteq> first_of bs"
    using d(1) first_of_in[of bs] last_of_in[of as] by auto
  have at: "?h p = (if p = NULL then h p else if p = last_of as then map_option (set_nxt (first_of bs)) (h p)
      else if p = first_of bs then map_option (set_pv (last_of as)) (h p) else h p)" for p
    using ne by (auto simp: unlink_def Let_def upd_apply)
  have some: "p \<in> set (as @ bs) \<Longrightarrow> p \<noteq> NULL \<and> (\<exists>a. h p = Some a)" for p
    using c d by (auto simp: chain_def)
  have la: "as \<noteq> [] \<Longrightarrow> last as = last_of as" "bs \<noteq> [] \<Longrightarrow> hd bs = first_of bs"
    by (simp add: last_of_def) (cases bs; simp)
  have "dlist (fld nxt ?h) (fld pv ?h) (as @ bs)"
  proof (rule dlist_unlink[OF chain_dlist[OF c]])
    fix y assume y: "y \<in> set bs \<union> set (butlast as)"
    then have "y \<noteq> last_of as" using d by (cases as rule: rev_cases) auto
    with y some[of y] show "fld nxt ?h y = fld nxt h y"
      by (auto simp: fld_def at dest: in_set_butlastD split: option.split)
  next
    fix y assume y: "y \<in> set as \<union> set (tl bs)"
    then have "y \<noteq> first_of bs" using d by (cases bs) auto
    moreover have "y \<in> set (as @ bs)" using y by (cases bs) auto
    ultimately show "fld pv ?h y = fld pv h y"
      using some[of y] by (auto simp: fld_def at split: option.split)
  next
    assume a: "as \<noteq> []"
    then have "last_of as \<in> set as" by (simp add: last_of_def)
    then show "fld nxt ?h (last as) = first_of bs"
      using some[of "last_of as"] a by (auto simp: la fld_def at)
  next
    assume b: "bs \<noteq> []"
    then have "first_of bs \<in> set bs" using la by (cases bs) auto
    then show "fld pv ?h (hd bs) = last_of as"
      using some[of "first_of bs"] b ne by (auto simp: la fld_def at)
  qed
  moreover have "?h p \<noteq> None" if "p \<in> set (as @ bs)" for p using some[OF that] by (auto simp: at)
  ultimately show ?thesis by (simp add: chain_def)
qed

text \<open>Which addresses the operations leave alone, and which functions of the objects.\<close>

lemma insert_front_other: "p \<noteq> x \<Longrightarrow> p \<noteq> first \<Longrightarrow> insert_front set_nxt set_pv x first h p = h p"
  by (simp add: insert_front_def upd_apply)

lemma unlink_other: "p \<noteq> a \<Longrightarrow> p \<noteq> b \<Longrightarrow> unlink set_nxt set_pv a b h p = h p"
  by (simp add: unlink_def upd_apply Let_def)

lemma insert_front_map:
  assumes "\<And>q a. g (set_nxt q a) = g a" and "\<And>q a. g (set_pv q a) = g a"
  shows "map_option g (insert_front set_nxt set_pv x first h p) = map_option g (h p)"
  by (simp add: insert_front_def upd_apply option.map_comp comp_def assms)

lemma unlink_map:
  assumes "\<And>q a. g (set_nxt q a) = g a" and "\<And>q a. g (set_pv q a) = g a"
  shows "map_option g (unlink set_nxt set_pv a b h p) = map_option g (h p)"
  by (simp add: unlink_def upd_apply Let_def option.map_comp comp_def assms)

end

subsection \<open>Hash tables\<close>

locale hash_table = intrusive_list nxt pv set_nxt set_pv
  for nxt pv :: "'o \<Rightarrow> addr" and set_nxt set_pv :: "addr \<Rightarrow> 'o \<Rightarrow> 'o" +
  fixes key :: "'o \<Rightarrow> u64" and hash :: "u64 \<Rightarrow> u8"
  assumes key_set_nxt [simp]: "key (set_nxt p a) = key a"
    and key_set_pv [simp]: "key (set_pv p a) = key a"
begin

lemma table_bucket:
  assumes "table nxt pv key hash heads h B"
  shows "chain nxt pv h (B i)" "heads i = first_of (B i)"
    "x \<in> set (B i) \<Longrightarrow> h x = Some a \<Longrightarrow> hash (key a) = i"
  using assms by (auto simp: table_def)

lemma table_disjoint:
  assumes "table nxt pv key hash heads h B" and "x \<in> set (B i)" and "x \<in> set (B j)"
  shows "i = j"
proof -
  obtain a where "h x = Some a" using chain_Some[OF table_bucket(1)[OF assms(1)] assms(2)] by auto
  then show ?thesis using table_bucket(3)[OF assms(1)] assms(2,3) by blast
qed

lemma same_key:
  assumes "map_option key (h' x) = map_option key (h x)" and "h' x = Some a'"
  shows "\<exists>a. h x = Some a \<and> key a = key a'"
  using assms by (cases "h x") auto

text \<open>Inserting an object puts it in front of the bucket of its key.\<close>

lemma table_insert:
  assumes T: "table nxt pv key hash heads h B" and x: "h x = Some a" "x \<noteq> NULL" "\<And>i. x \<notin> set (B i)"
  shows "table nxt pv key hash (heads(hash (key a) := x))
    (insert_front set_nxt set_pv x (first_of (B (hash (key a)))) h)
    (B(hash (key a) := x # B (hash (key a))))"
proof -
  let ?i = "hash (key a)"
  let ?h = "insert_front set_nxt set_pv x (first_of (B ?i)) h"
  have keys: "map_option key (?h p) = map_option key (h p)" for p by (rule insert_front_map) simp_all
  have others: "chain nxt pv ?h (B i)" if "i \<noteq> ?i" for i
  proof -
    have "?h p = h p" if "p \<in> set (B i)" for p
    proof (rule insert_front_other)
      show "p \<noteq> x" using that x(3) by auto
      have "first_of (B ?i) \<noteq> NULL \<Longrightarrow> first_of (B ?i) \<notin> set (B i)"
        using first_of_in[of "B ?i"] table_disjoint[OF T, of _ i ?i] \<open>i \<noteq> ?i\<close> by blast
      moreover have "p \<noteq> NULL" using that chain_nonnull[OF table_bucket(1)[OF T, of i]] by auto
      ultimately show "p \<noteq> first_of (B ?i)" using that by auto
    qed
    then show ?thesis using chain_frame[of "B i" ?h h nxt pv] table_bucket(1)[OF T, of i] by simp
  qed
  have mine: "chain nxt pv ?h (x # B ?i)"
    by (rule insert_front_chain[OF table_bucket(1)[OF T] x(1) x(3) x(2)])
  have old: "hash (key b) = i" if "p \<in> set (B i)" "?h p = Some b" for p b i
    using same_key[of ?h p h, OF keys that(2)] table_bucket(3)[OF T that(1)] by auto
  have new: "hash (key b) = ?i" if "?h x = Some b" for b
    using same_key[of ?h x h, OF keys that] x(1) by auto
  show ?thesis
  proof (rule tableI)
    show "chain nxt pv ?h ((B(?i := x # B ?i)) i)" for i using others mine by (cases "i = ?i") simp_all
    show "(heads(?i := x)) i = first_of ((B(?i := x # B ?i)) i)" for i
      using table_bucket(2)[OF T, of i] by (cases "i = ?i") simp_all
    show "hash (key b) = i" if "p \<in> set ((B(?i := x # B ?i)) i)" "?h p = Some b" for i p b
    proof (cases "p = x \<and> i = ?i")
      case True
      then show ?thesis using new that(2) by simp
    next
      case False
      then have "p \<in> set (B i)" using that(1) by (simp split: if_splits)
      then show ?thesis using that(2) by (rule old)
    qed
  qed
qed

text \<open>Removing an object takes it out of its bucket.\<close>

lemma table_delete:
  assumes T: "table nxt pv key hash heads h B" and B: "B i = as @ x # bs"
  shows "table nxt pv key hash (heads(i := first_of (as @ bs)))
    (unlink set_nxt set_pv (last_of as) (first_of bs) h) (B(i := as @ bs))"
proof -
  let ?h = "unlink set_nxt set_pv (last_of as) (first_of bs) h"
  have keys: "map_option key (?h p) = map_option key (h p)" for p by (rule unlink_map) simp_all
  have others: "chain nxt pv ?h (B j)" if "j \<noteq> i" for j
  proof -
    have "?h p = h p" if "p \<in> set (B j)" for p
    proof (rule unlink_other)
      have "p \<noteq> NULL" "p \<notin> set (as @ bs)"
        using that chain_nonnull[OF table_bucket(1)[OF T, of j]] table_disjoint[OF T, of p j i]
          \<open>j \<noteq> i\<close> B by auto
      then show "p \<noteq> last_of as" "p \<noteq> first_of bs" using last_of_in[of as] first_of_in[of bs] by auto
    qed
    then show ?thesis using chain_frame[of "B j" ?h h nxt pv] table_bucket(1)[OF T, of j] by simp
  qed
  have mine: "chain nxt pv ?h (as @ bs)"
    by (rule unlink_chain[of h as x]) (use table_bucket(1)[OF T, of i] B in simp)
  have old: "hash (key b) = j" if "p \<in> set (B j)" "?h p = Some b" for p b j
    using same_key[of ?h p h, OF keys that(2)] table_bucket(3)[OF T that(1)] by auto
  show ?thesis
  proof (rule tableI)
    show "chain nxt pv ?h ((B(i := as @ bs)) j)" for j using others mine by (cases "j = i") simp_all
    show "(heads(i := first_of (as @ bs))) j = first_of ((B(i := as @ bs)) j)" for j
      using table_bucket(2)[OF T, of j] by (cases "j = i") simp_all
    show "hash (key b) = j" if "p \<in> set ((B(i := as @ bs)) j)" "?h p = Some b" for j p b
      using that old[of p j b] B by (cases "j = i") auto
  qed
qed

text \<open>An object outside the table can be changed freely.\<close>

lemma table_frame:
  assumes "table nxt pv key hash heads h B" and "\<And>i p. p \<in> set (B i) \<Longrightarrow> h' p = h p"
  shows "table nxt pv key hash heads h' B"
  using assms chain_frame[of _ h' h nxt pv] unfolding table_def by metis

text \<open>The table as a map.\<close>

lemma rep_member:
  assumes "table nxt pv key hash heads h B"
    and "\<forall>k x. M k = Some x \<longleftrightarrow> x \<in> set (B (hash k)) \<and> map_option key (h x) = Some k"
    and "x \<in> set (B i)"
  shows "\<exists>k. M k = Some x \<and> hash k = i \<and> map_option key (h x) = Some k"
proof -
  obtain a where a: "h x = Some a" using chain_Some[OF table_bucket(1)[OF assms(1)] assms(3)] by auto
  have "hash (key a) = i" by (rule table_bucket(3)[OF assms(1,3) a])
  then show ?thesis using assms(2,3) a by (intro exI[of _ "key a"]) auto
qed

lemma rep_head:
  assumes "table_rep nxt pv key hash heads h M" and "heads i \<noteq> NULL"
  shows "heads i \<in> ran M" "\<exists>a. h (heads i) = Some a"
proof -
  obtain B where B: "table nxt pv key hash heads h B"
    "\<forall>k x. M k = Some x \<longleftrightarrow> x \<in> set (B (hash k)) \<and> map_option key (h x) = Some k"
    using assms(1) by (auto simp: table_rep_def)
  have "heads i \<in> set (B i)"
    using assms(2) first_of_in[of "B i"] unfolding table_bucket(2)[OF B(1), of i] by simp
  from rep_member[OF B this] show "heads i \<in> ran M" "\<exists>a. h (heads i) = Some a"
    by (auto simp: ran_def)
qed

lemma rep_insert:
  assumes M: "table_rep nxt pv key hash heads h M" and x: "h x = Some a" "x \<noteq> NULL" "x \<notin> ran M"
    and k: "M (key a) = None"
  shows "table_rep nxt pv key hash (heads(hash (key a) := x))
    (insert_front set_nxt set_pv x (heads (hash (key a))) h) (M(key a \<mapsto> x))"
proof -
  obtain B where B: "table nxt pv key hash heads h B"
    "\<forall>k x. M k = Some x \<longleftrightarrow> x \<in> set (B (hash k)) \<and> map_option key (h x) = Some k"
    using M by (auto simp: table_rep_def)
  have nin: "x \<notin> set (B i)" for i using rep_member[OF B, of x i] x(3) by (auto simp: ran_def)
  let ?i = "hash (key a)"
  let ?h = "insert_front set_nxt set_pv x (heads ?i) h" and ?B = "B(?i := x # B ?i)"
  have keys: "map_option key (?h y) = map_option key (h y)" for y by (rule insert_front_map) simp_all
  have "table nxt pv key hash (heads(?i := x)) ?h ?B"
    unfolding table_bucket(2)[OF B(1), of ?i] by (rule table_insert[OF B(1) x(1,2) nin])
  moreover have "(M(key a \<mapsto> x)) q = Some y \<longleftrightarrow> y \<in> set (?B (hash q)) \<and> map_option key (?h y) = Some q" for q y
  proof (cases "q = key a")
    case True
    have "\<not> (y \<in> set (B ?i) \<and> map_option key (h y) = Some (key a))" using B(2) k by force
    then show ?thesis unfolding keys using True x(1) by auto
  next
    case False
    have "map_option key (h x) = Some (key a)" using x(1) by simp
    then show ?thesis unfolding keys using False B(2) by (cases "y = x") auto
  qed
  ultimately show ?thesis unfolding table_rep_def by (intro exI[of _ ?B]) simp
qed

text \<open>A table is not touched by changes to objects outside it.\<close>

lemma rep_frame:
  assumes M: "table_rep nxt pv key hash heads h M" and h: "\<And>p. p \<in> ran M \<Longrightarrow> h' p = h p"
  shows "table_rep nxt pv key hash heads h' M"
proof -
  obtain B where B: "table nxt pv key hash heads h B"
    "\<forall>k x. M k = Some x \<longleftrightarrow> x \<in> set (B (hash k)) \<and> map_option key (h x) = Some k"
    using M by (auto simp: table_rep_def)
  have in_ran: "p \<in> ran M" if "p \<in> set (B i)" for i p using rep_member[OF B that] by (auto simp: ran_def)
  then have eq: "h' p = h p" if "p \<in> set (B i)" for i p using that h by blast
  have "table nxt pv key hash heads h' B" by (rule table_frame[OF B(1) eq])
  moreover have "\<forall>k x. M k = Some x \<longleftrightarrow> x \<in> set (B (hash k)) \<and> map_option key (h' x) = Some k"
    using B(2) eq by metis
  ultimately show ?thesis by (auto simp: table_rep_def)
qed

text \<open>The neighbours of a member, as its own links give them.\<close>

lemma rep_neighbours:
  assumes M: "table_rep nxt pv key hash heads h M" and k: "M k = Some x" and a: "h x = Some a"
  shows "pv a \<noteq> NULL \<Longrightarrow> pv a \<noteq> x \<and> (\<exists>b. h (pv a) = Some b)"
    and "nxt a \<noteq> NULL \<Longrightarrow> nxt a \<noteq> x \<and> (\<exists>b. h (nxt a) = Some b)"
    and "pv a \<noteq> NULL \<Longrightarrow> nxt a \<noteq> NULL \<Longrightarrow> nxt a \<noteq> pv a" and "key a = k" and "x \<noteq> NULL"
    and "pv a = NULL \<longleftrightarrow> heads (hash k) = x"
proof -
  obtain B where B: "table nxt pv key hash heads h B"
    "\<forall>k x. M k = Some x \<longleftrightarrow> x \<in> set (B (hash k)) \<and> map_option key (h x) = Some k"
    using M by (auto simp: table_rep_def)
  have xB: "x \<in> set (B (hash k))" and "map_option key (h x) = Some k" using B(2) k by auto
  then show "key a = k" using a by simp
  obtain as bs where sp: "B (hash k) = as @ x # bs" using split_list[OF xB] by auto
  have c: "chain nxt pv h (as @ x # bs)" using table_bucket(1)[OF B(1), of "hash k"] sp by simp
  have d: "x \<notin> set as" "x \<notin> set bs" "set as \<inter> set bs = {}" "NULL \<notin> set as" "x \<noteq> NULL"
    using chain_distinct[OF c] chain_nonnull[OF c] by auto
  note l = chain_at[OF c a]
  show p: "pv a \<noteq> x \<and> (\<exists>b. h (pv a) = Some b)" if "pv a \<noteq> NULL"
    using that l last_of_in[of as] d(1) chain_Some[OF c, of "last_of as"] by auto
  show n: "nxt a \<noteq> x \<and> (\<exists>b. h (nxt a) = Some b)" if "nxt a \<noteq> NULL"
    using that l first_of_in[of bs] d(2) chain_Some[OF c, of "first_of bs"] by auto
  show "nxt a \<noteq> pv a" if "pv a \<noteq> NULL" "nxt a \<noteq> NULL"
    using that l first_of_in[of bs] last_of_in[of as] d(3) by auto
  show "x \<noteq> NULL" by (rule d(5))
  show "pv a = NULL \<longleftrightarrow> heads (hash k) = x"
    using l(1) d(1,4) table_bucket(2)[OF B(1), of "hash k"] sp
    by (cases as) (auto simp: last_of_eq_NULL)
qed

lemma rep_delete:
  assumes M: "table_rep nxt pv key hash heads h M" and k: "M k = Some x" and a: "h x = Some a"
  shows "table_rep nxt pv key hash (if pv a = NULL then heads(hash k := nxt a) else heads)
    (upd x (\<lambda>a. set_nxt NULL (set_pv NULL a)) (unlink set_nxt set_pv (pv a) (nxt a) h)) (M(k := None))"
proof -
  obtain B where B: "table nxt pv key hash heads h B"
    "\<forall>k x. M k = Some x \<longleftrightarrow> x \<in> set (B (hash k)) \<and> map_option key (h x) = Some k"
    using M by (auto simp: table_rep_def)
  let ?i = "hash k"
  have xB: "x \<in> set (B ?i)" and xk: "map_option key (h x) = Some k" using B(2) k by auto
  obtain as bs where sp: "B ?i = as @ x # bs" using split_list[OF xB] by auto
  have c: "chain nxt pv h (as @ x # bs)" using table_bucket(1)[OF B(1), of ?i] sp by simp
  note l = chain_at[OF c a]
  let ?u = "unlink set_nxt set_pv (pv a) (nxt a) h"
  let ?h = "upd x (\<lambda>a. set_nxt NULL (set_pv NULL a)) ?u" and ?B = "B(?i := as @ bs)"
  have keys: "map_option key (?h y) = map_option key (h y)" for y
  proof -
    have "map_option key (?h y) = map_option key (?u y)" by (simp add: upd_apply option.map_comp comp_def)
    also have "\<dots> = map_option key (h y)" by (rule unlink_map) simp_all
    finally show ?thesis .
  qed
  have d: "x \<notin> set (as @ bs)" "NULL \<notin> set as" using chain_distinct[OF c] chain_nonnull[OF c] by auto
  have xout: "x \<notin> set (?B j)" for j using d(1) table_disjoint[OF B(1) xB, of j] by (cases "j = ?i") auto
  have heads: "(if pv a = NULL then heads(?i := nxt a) else heads) = heads(?i := first_of (as @ bs))"
    using l d(2) table_bucket(2)[OF B(1), of ?i] sp by (cases as) (auto simp: last_of_eq_NULL fun_upd_idem)
  have "?h y = ?u y" if "y \<in> set (?B j)" for j y using that xout[of j] by (auto simp: upd_apply)
  then have "table nxt pv key hash (heads(?i := first_of (as @ bs))) ?h ?B"
    by (rule table_frame[OF table_delete[OF B(1) sp, folded l]])
  moreover have "(M(k := None)) q = Some y \<longleftrightarrow> y \<in> set (?B (hash q)) \<and> map_option key (?h y) = Some q" for q y
  proof (cases "q = k")
    case True
    have "y = x" if "y \<in> set (as @ bs)" "map_option key (h y) = Some k" for y
    proof -
      have "M k = Some y" using that sp B(2) by auto
      then show ?thesis using k by simp
    qed
    then show ?thesis unfolding keys using True d(1) by auto
  next
    case False
    then have "y \<in> set (B (hash q)) \<and> map_option key (h y) = Some q \<longleftrightarrow>
      y \<in> set (?B (hash q)) \<and> map_option key (h y) = Some q"
      using sp xk by auto
    then show ?thesis unfolding keys using False B(2) by auto
  qed
  ultimately show ?thesis unfolding heads table_rep_def by (intro exI[of _ ?B]) simp
qed

end

end
