(* ===== verification/Pidmap.thy ===== *)
theory Pidmap
  imports Intrusive Task_Life Anidxset
begin

unbundle bit_operations_syntax

text \<open>
  The PID table of \<open>src/pidmap.c\<close>: the pool of process identifiers and the hash table from
  identifiers to the tasks that were launched. \<open>pidmap_rep s M\<close> says that the table in
  memory is the finite map \<open>M\<close>.
\<close>

subsection \<open>The C functions\<close>

definition hash_pid :: "u64 \<Rightarrow> u8" where
  "hash_pid pid = ucast (pid AND 0xff)"

definition anscheduler_pidmap_alloc_pid :: "'v plat \<Rightarrow> ('v, u64) kern" where
  "anscheduler_pidmap_alloc_pid P =
     bnd (anscheduler_lock PpLock) (\<lambda>_.
     bnd (gets ppInitialized) (\<lambda>ini.
     bnd (if ini then skip
          else
            bnd (anscheduler_idxset_init P) (\<lambda>(ok, root).
            bnd (modify (\<lambda>s. s\<lparr>pidPool := root\<rparr>)) (\<lambda>_.
            if \<not> ok then anscheduler_abort ''failed to initialize PID pool''
            else modify (\<lambda>s. s\<lparr>ppInitialized := True\<rparr>)))) (\<lambda>_.
     bnd (gets pidPool) (\<lambda>pool.
     bnd (anidxset_get pool) (\<lambda>(result, pool').
     bnd (modify (\<lambda>s. s\<lparr>pidPool := pool'\<rparr>)) (\<lambda>_.
     bnd (anscheduler_unlock PpLock) (\<lambda>_.
     ret result)))))))"

definition anscheduler_pidmap_free_pid :: "'v plat \<Rightarrow> u64 \<Rightarrow> ('v, unit) kern" where
  "anscheduler_pidmap_free_pid P pid =
     bnd (anscheduler_lock PpLock) (\<lambda>_.
     bnd (gets ppInitialized) (\<lambda>ini.
     if \<not> ini then anscheduler_abort ''cannot free PID when not initialized''
     else
       bnd (gets pidPool) (\<lambda>pool.
       bnd (anidxset_put P pool pid) (\<lambda>(ok, pool').
       bnd (modify (\<lambda>s. s\<lparr>pidPool := pool'\<rparr>)) (\<lambda>_.
       anscheduler_unlock PpLock)))))"

definition anscheduler_pidmap_set :: "addr \<Rightarrow> ('v, unit) kern" where
  "anscheduler_pidmap_set task =
     bnd (anscheduler_lock PmLock) (\<lambda>_.
     bnd (rd_task task) (\<lambda>tk.
     let hash = hash_pid (t_pid tk) in
     bnd (gets (\<lambda>s. pidHashmap s hash)) (\<lambda>head.
     bnd (if head = NULL then
            bnd (modify (\<lambda>s. s\<lparr>pidHashmap := (pidHashmap s)(hash := task)\<rparr>)) (\<lambda>_.
            wr_task task (\<lambda>t. t\<lparr>t_last := NULL, t_next := NULL\<rparr>))
          else
            bnd (wr_task task (\<lambda>t. t\<lparr>t_next := head\<rparr>)) (\<lambda>_.
            bnd (wr_task task (\<lambda>t. t\<lparr>t_last := NULL\<rparr>)) (\<lambda>_.
            bnd (wr_task head (\<lambda>t. t\<lparr>t_last := task\<rparr>)) (\<lambda>_.
            modify (\<lambda>s. s\<lparr>pidHashmap := (pidHashmap s)(hash := task)\<rparr>))))) (\<lambda>_.
     anscheduler_unlock PmLock))))"

definition anscheduler_pidmap_unset :: "addr \<Rightarrow> ('v, unit) kern" where
  "anscheduler_pidmap_unset task =
     bnd (anscheduler_lock PmLock) (\<lambda>_.
     bnd (rd_task task) (\<lambda>tk.
     bnd (if t_last tk = NULL then
            let hash = hash_pid (t_pid tk) in
            modify (\<lambda>s. s\<lparr>pidHashmap := (pidHashmap s)(hash := t_next tk)\<rparr>)
          else wr_task (t_last tk) (\<lambda>t. t\<lparr>t_next := t_next tk\<rparr>)) (\<lambda>_.
     bnd (rd_task task) (\<lambda>tk.
     bnd (cond (t_next tk \<noteq> NULL) (wr_task (t_next tk) (\<lambda>t. t\<lparr>t_last := t_last tk\<rparr>))) (\<lambda>_.
     bnd (wr_task task (\<lambda>t. t\<lparr>t_next := NULL\<rparr>)) (\<lambda>_.
     bnd (wr_task task (\<lambda>t. t\<lparr>t_last := NULL\<rparr>)) (\<lambda>_.
     anscheduler_unlock PmLock)))))))"

definition pidmap_get_round :: "u64 \<Rightarrow> addr \<Rightarrow> ('v, addr + addr) kern" where
  "pidmap_get_round pid task =
     (if task = NULL then
        bnd (anscheduler_unlock PmLock) (\<lambda>_. ret (Inr NULL))
      else
        bnd (rd_task task) (\<lambda>tk.
        if t_pid tk = pid then
          bnd (anscheduler_task_reference task) (\<lambda>result.
          bnd (anscheduler_unlock PmLock) (\<lambda>_.
          ret (Inr (if result then task else NULL))))
        else
          bnd (rd_task task) (\<lambda>tk. ret (Inl (t_next tk)))))"

definition anscheduler_pidmap_get :: "u64 \<Rightarrow> ('v, addr) kern" where
  "anscheduler_pidmap_get pid =
     bnd (anscheduler_lock PmLock) (\<lambda>_.
     let hash = hash_pid pid in
     bnd (gets (\<lambda>s. pidHashmap s hash)) (\<lambda>task.
     kwhile (pidmap_get_round pid) task))"

definition anscheduler_task_for_pid :: "u64 \<Rightarrow> ('v, addr) kern" where
  "anscheduler_task_for_pid pid = anscheduler_pidmap_get pid"

subsection \<open>The abstraction\<close>

abbreviation set_t_next :: "addr \<Rightarrow> task_t \<Rightarrow> task_t" where
  "set_t_next p \<equiv> t_next_update (\<lambda>_. p)"

abbreviation set_t_last :: "addr \<Rightarrow> task_t \<Rightarrow> task_t" where
  "set_t_last p \<equiv> t_last_update (\<lambda>_. p)"

definition pidmap_rep :: "'v sched \<Rightarrow> (u64 \<rightharpoonup> addr) \<Rightarrow> bool" where
  "pidmap_rep s M = table_rep t_next t_last t_pid hash_pid (pidHashmap s) (tasks s) M"

text \<open>The state without the table.\<close>

definition hide_pidmap :: "'v sched \<Rightarrow> 'v sched" where
  "hide_pidmap s = s\<lparr>tasks := (\<lambda>p. map_option (\<lambda>t. t\<lparr>t_next := NULL, t_last := NULL\<rparr>) (tasks s p)),
     pidHashmap := (\<lambda>_. NULL)\<rparr>"

interpretation pid: hash_table t_next t_last set_t_next set_t_last t_pid hash_pid
  by unfold_locales simp_all

text \<open>Two launched tasks whose identifiers share a bucket, and a third one that is not launched.\<close>

definition pid_ex :: "flatvm sched" where
  "pid_ex = flat_boot\<lparr>tasks := [0xA0000 \<mapsto> zero_task\<lparr>t_refCount := 1, t_pid := 5, t_next := 0xB0000\<rparr>,
       0xB0000 \<mapsto> zero_task\<lparr>t_refCount := 1, t_pid := 0x105, t_last := 0xA0000\<rparr>,
       0xC0000 \<mapsto> zero_task\<lparr>t_refCount := 1, t_pid := 0x205\<rparr>],
     pidHashmap := (\<lambda>_. NULL)(5 := 0xA0000)\<rparr>"

lemma task_links_swap: "set_t_last a (set_t_next b t) = set_t_next b (set_t_last a t)"
  by (cases t) simp

subsection \<open>Setting\<close>

lemma hide_pidmap_eqI:
  assumes "\<And>p. map_option (\<lambda>t. t\<lparr>t_next := NULL, t_last := NULL\<rparr>) (h p) =
    map_option (\<lambda>t. t\<lparr>t_next := NULL, t_last := NULL\<rparr>) (tasks s p)"
  shows "hide_pidmap (s\<lparr>tasks := h, pidHashmap := m\<rparr>) = hide_pidmap s"
  by (simp add: hide_pidmap_def assms)

lemma pidmap_set_runs:
  assumes M: "pidmap_rep s M" and x: "tasks s x = Some tk" "x \<notin> ran M" and l: "PmLock \<notin> set (held s)"
  shows "anscheduler_pidmap_set x s = Ret ()
    (s\<lparr>tasks := insert_front set_t_next set_t_last x (pidHashmap s (hash_pid (t_pid tk))) (tasks s),
      pidHashmap := (pidHashmap s)(hash_pid (t_pid tk) := x)\<rparr>)"
proof (cases "pidHashmap s (hash_pid (t_pid tk)) = NULL")
  case True
  then show ?thesis using x(1) l by (simp add: anscheduler_pidmap_set_def kern Let_def insert_front_def)
next
  case False
  let ?y = "pidHashmap s (hash_pid (t_pid tk))"
  obtain ty where ty: "tasks s ?y = Some ty" "?y \<noteq> x"
    using pid.rep_head[OF M[unfolded pidmap_rep_def] False] x(2) by auto
  then show ?thesis
    using False x(1) l
    by (simp add: anscheduler_pidmap_set_def kern Let_def insert_front_def fun_upd_twist task_links_swap)
qed

lemma pidmap_set_refines:
  assumes M: "pidmap_rep s M" and x: "tasks s x = Some tk" "x \<noteq> NULL" "x \<notin> ran M"
    and p: "M (t_pid tk) = None" and l: "PmLock \<notin> set (held s)"
  shows "\<exists>s'. anscheduler_pidmap_set x s = Ret () s' \<and> pidmap_rep s' (M(t_pid tk \<mapsto> x)) \<and>
    hide_pidmap s' = hide_pidmap s"
proof -
  let ?h = "insert_front set_t_next set_t_last x (pidHashmap s (hash_pid (t_pid tk))) (tasks s)"
  let ?s = "s\<lparr>tasks := ?h, pidHashmap := (pidHashmap s)(hash_pid (t_pid tk) := x)\<rparr>"
  have "pidmap_rep ?s (M(t_pid tk \<mapsto> x))"
    using pid.rep_insert[OF M[unfolded pidmap_rep_def] x p] by (simp add: pidmap_rep_def)
  moreover have "hide_pidmap ?s = hide_pidmap s"
    by (rule hide_pidmap_eqI) (rule pid.insert_front_map, simp_all)
  ultimately show ?thesis using pidmap_set_runs[OF M x(1,3) l] by blast
qed

subsection \<open>Removal\<close>

lemma pidmap_unset_runs:
  assumes M: "pidmap_rep s M" and k: "M p = Some x" and x: "tasks s x = Some tk"
    and l: "PmLock \<notin> set (held s)"
  shows "anscheduler_pidmap_unset x s = Ret ()
    (s\<lparr>tasks := upd x (\<lambda>t. set_t_next NULL (set_t_last NULL t))
        (unlink set_t_next set_t_last (t_last tk) (t_next tk) (tasks s)),
      pidHashmap := (if t_last tk = NULL then (pidHashmap s)(hash_pid p := t_next tk) else pidHashmap s)\<rparr>)"
proof -
  note nb = pid.rep_neighbours[OF M[unfolded pidmap_rep_def] k x]
  note defs = anscheduler_pidmap_unset_def kern Let_def unlink_def task_links_swap nb(4)
  consider (nn) "t_last tk = NULL" "t_next tk = NULL"
    | (np) tb where "t_last tk = NULL" "t_next tk \<noteq> NULL" "t_next tk \<noteq> x" "tasks s (t_next tk) = Some tb"
    | (pn) ta where "t_last tk \<noteq> NULL" "t_next tk = NULL" "t_last tk \<noteq> x" "tasks s (t_last tk) = Some ta"
    | (pp) ta tb where "t_last tk \<noteq> NULL" "t_next tk \<noteq> NULL" "t_last tk \<noteq> x" "t_next tk \<noteq> x"
        "t_next tk \<noteq> t_last tk" "tasks s (t_last tk) = Some ta" "tasks s (t_next tk) = Some tb"
    using nb(1-3) by blast
  then show ?thesis
  proof cases
    case nn
    with x l show ?thesis by (simp add: defs)
  next
    case np
    with x l show ?thesis by (simp add: defs)
  next
    case pn
    with x l show ?thesis by (simp add: defs)
  next
    case pp
    with x l show ?thesis by (simp add: defs)
  qed
qed

lemma pidmap_unset_refines:
  assumes M: "pidmap_rep s M" and p: "M p = Some x" and l: "PmLock \<notin> set (held s)"
  shows "\<exists>s'. anscheduler_pidmap_unset x s = Ret () s' \<and> pidmap_rep s' (M(p := None)) \<and>
    hide_pidmap s' = hide_pidmap s"
proof -
  obtain tk where tk: "tasks s x = Some tk"
    using M p by (auto simp: pidmap_rep_def table_rep_def)
  let ?h = "upd x (\<lambda>t. set_t_next NULL (set_t_last NULL t))
    (unlink set_t_next set_t_last (t_last tk) (t_next tk) (tasks s))"
  let ?s = "s\<lparr>tasks := ?h, pidHashmap :=
    (if t_last tk = NULL then (pidHashmap s)(hash_pid p := t_next tk) else pidHashmap s)\<rparr>"
  have "pidmap_rep ?s (M(p := None))"
    using pid.rep_delete[OF M[unfolded pidmap_rep_def] p tk] by (simp add: pidmap_rep_def)
  moreover have "hide_pidmap ?s = hide_pidmap s"
  proof (rule hide_pidmap_eqI)
    let ?g = "\<lambda>t. t\<lparr>t_next := NULL, t_last := NULL\<rparr>"
    fix y
    have "map_option ?g (?h y) = map_option ?g (unlink set_t_next set_t_last (t_last tk) (t_next tk) (tasks s) y)"
      by (simp add: upd_apply option.map_comp comp_def task_links_swap)
    also have "\<dots> = map_option ?g (tasks s y)" by (rule pid.unlink_map) (simp_all add: task_links_swap)
    finally show "map_option ?g (?h y) = map_option ?g (tasks s y)" .
  qed
  ultimately show ?thesis using pidmap_unset_runs[OF M p tk l] by blast
qed

subsection \<open>Lookup\<close>

text \<open>The loop walks a bucket to the first task with the identifier, or to its end.\<close>

lemma pidmap_get_loop:
  assumes "chain t_next t_last (tasks s) (as @ xs)" and "length xs < n" and "held s = PmLock # h"
    and "\<forall>y \<in> set xs. map_option t_pid (tasks s y) = Some pid \<longrightarrow> KillLock y \<notin> set h"
  shows "kloop n Diverges (pidmap_get_round pid) (first_of xs) s =
    (case find (\<lambda>y. map_option t_pid (tasks s y) = Some pid) xs of
       None \<Rightarrow> Ret NULL (s\<lparr>held := h\<rparr>)
     | Some y \<Rightarrow> (case tasks s y of None \<Rightarrow> Crash Diverges | Some tk \<Rightarrow>
         if t_isKilled tk = 0
         then Ret y (s\<lparr>tasks := (tasks s)(y \<mapsto> tk\<lparr>t_refCount := t_refCount tk + 1\<rparr>), held := h\<rparr>)
         else Ret NULL (s\<lparr>held := h\<rparr>)))"
  using assms
proof (induction xs arbitrary: as n)
  case Nil
  then obtain m where n: "n = Suc m" by (cases n) auto
  have "pidmap_get_round pid NULL s = Ret (Inr NULL) (s\<lparr>held := h\<rparr>)"
    using Nil.prems(3) by (simp add: pidmap_get_round_def kern)
  then show ?case unfolding n by (simp add: kloop_done)
next
  case (Cons x xs)
  then obtain m where n: "n = Suc m" and m: "length xs < m" by (cases n) auto
  obtain tk where tk: "tasks s x = Some tk" using chain_Some[OF Cons.prems(1), of x] by auto
  have nx: "t_next tk = first_of xs" and nn: "x \<noteq> NULL"
    using chain_at(2)[OF Cons.prems(1) tk] chain_nonnull[OF Cons.prems(1)] by auto
  show ?case
  proof (cases "t_pid tk = pid")
    case True
    have "KillLock x \<notin> set (held s)" using Cons.prems(3,4) True tk by simp
    note ref = task_reference_runs[OF tk this]
    have f: "find (\<lambda>y. map_option t_pid (tasks s y) = Some pid) (x # xs) = Some x"
      using True tk by simp
    show ?thesis
    proof (cases "t_isKilled tk = 0")
      case alive: True
      let ?s = "s\<lparr>tasks := (tasks s)(x \<mapsto> tk\<lparr>t_refCount := t_refCount tk + 1\<rparr>)\<rparr>"
      have "pidmap_get_round pid x s = Ret (Inr x) (?s\<lparr>held := h\<rparr>)"
        using True tk nn ref alive Cons.prems(3) by (simp add: pidmap_get_round_def kern)
      then show ?thesis unfolding n f using alive tk by (simp add: kloop_done)
    next
      case dead: False
      have "pidmap_get_round pid x s = Ret (Inr NULL) (s\<lparr>held := h\<rparr>)"
        using True tk nn ref dead Cons.prems(3) by (simp add: pidmap_get_round_def kern)
      then show ?thesis unfolding n f using dead tk by (simp add: kloop_done)
    qed
  next
    case False
    have "pidmap_get_round pid x s = Ret (Inl (first_of xs)) s"
      using False tk nn nx by (simp add: pidmap_get_round_def kern)
    then show ?thesis
      unfolding n using Cons.IH[of "as @ [x]" m] Cons.prems m False tk
      by (simp add: kloop_next)
  qed
qed

lemma pidmap_get_refines:
  assumes M: "pidmap_rep s M" and l: "PmLock \<notin> set (held s)"
    and k: "\<And>y. M pid = Some y \<Longrightarrow> KillLock y \<notin> set (held s)"
  shows "anscheduler_pidmap_get pid s = (case M pid of None \<Rightarrow> Ret NULL s | Some y \<Rightarrow>
     (case tasks s y of None \<Rightarrow> Crash Diverges | Some tk \<Rightarrow>
       if t_isKilled tk = 0
       then Ret y (s\<lparr>tasks := (tasks s)(y \<mapsto> tk\<lparr>t_refCount := t_refCount tk + 1\<rparr>)\<rparr>)
       else Ret NULL s))"
proof -
  obtain B where T: "table t_next t_last t_pid hash_pid (pidHashmap s) (tasks s) B" and
    B: "\<forall>pid x. M pid = Some x \<longleftrightarrow> x \<in> set (B (hash_pid pid)) \<and> map_option t_pid (tasks s x) = Some pid"
    using M by (auto simp: pidmap_rep_def table_rep_def)
  let ?xs = "B (hash_pid pid)" and ?s = "s\<lparr>held := PmLock # held s\<rparr>"
  have c: "chain t_next t_last (tasks ?s) ([] @ ?xs)" using pid.table_bucket(1)[OF T] by simp
  have len: "length ?xs < max_steps" using chain_length[OF c] by simp
  have f: "find (\<lambda>y. map_option t_pid (tasks ?s y) = Some pid) ?xs = M pid"
  proof (cases "find (\<lambda>y. map_option t_pid (tasks ?s y) = Some pid) ?xs")
    case None
    then have "M pid \<noteq> Some x" for x using B by (auto simp: find_None_iff)
    then show ?thesis using None by (cases "M pid") auto
  next
    case (Some y)
    then have "y \<in> set ?xs" "map_option t_pid (tasks s y) = Some pid" by (auto simp: find_Some_iff)
    then have "M pid = Some y" using B by blast
    then show ?thesis using Some by simp
  qed
  have locks: "\<forall>y \<in> set ?xs. map_option t_pid (tasks ?s y) = Some pid \<longrightarrow> KillLock y \<notin> set (held s)"
    using k B by auto
  have run: "anscheduler_pidmap_get pid s = kloop max_steps Diverges (pidmap_get_round pid) (first_of ?xs) ?s"
    using l pid.table_bucket(2)[OF T, of "hash_pid pid"]
    by (simp add: anscheduler_pidmap_get_def kwhile_def kern Let_def)
  have "kloop max_steps Diverges (pidmap_get_round pid) (first_of ?xs) ?s =
    (case M pid of None \<Rightarrow> Ret NULL (?s\<lparr>held := held s\<rparr>) | Some y \<Rightarrow>
     (case tasks ?s y of None \<Rightarrow> Crash Diverges | Some tk \<Rightarrow>
       if t_isKilled tk = 0
       then Ret y (?s\<lparr>tasks := (tasks ?s)(y \<mapsto> tk\<lparr>t_refCount := t_refCount tk + 1\<rparr>), held := held s\<rparr>)
       else Ret NULL (?s\<lparr>held := held s\<rparr>)))"
    using pidmap_get_loop[OF c len, of "held s" pid] locks unfolding f by simp
  then show ?thesis unfolding run by (cases "M pid"; cases "tasks s (the (M pid))") simp_all
qed

text \<open>
  A PID that the pool hands out. The pool's own operations are those of theory \<open>Anidxset\<close>.
\<close>

lemma alloc_pid_runs:
  assumes "ppInitialized s" and "PpLock \<notin> set (held s)"
    and "anidxset_get (pidPool s) (s\<lparr>held := PpLock # held s\<rparr>) = Ret (x, pool) s1"
    and "held s1 = PpLock # held s"
  shows "anscheduler_pidmap_alloc_pid P s = Ret x (s1\<lparr>pidPool := pool, held := held s\<rparr>)"
  using assms by (simp add: anscheduler_pidmap_alloc_pid_def kern)

subsection \<open>Properties\<close>

lemma pid_ex_rep: "pidmap_rep pid_ex [5 \<mapsto> 0xA0000, 0x105 \<mapsto> 0xB0000]"
proof -
  let ?B = "(\<lambda>_. [])(5 := [0xA0000, 0xB0000])"
  have "table t_next t_last t_pid hash_pid (pidHashmap pid_ex) (tasks pid_ex) ?B"
    by (rule tableI)
       (auto simp: pid_ex_def chain_def dlist_def fld_def zero_task_def hash_pid_def split: if_splits)
  moreover have "([5 \<mapsto> 0xA0000, 0x105 \<mapsto> 0xB0000] q = Some y) =
    (y \<in> set (?B (hash_pid q)) \<and> map_option t_pid (tasks pid_ex y) = Some q)" for q y
    by (auto simp: pid_ex_def zero_task_def hash_pid_def split: if_splits)
  ultimately show ?thesis unfolding pidmap_rep_def table_rep_def by blast
qed

lemma pid_ex_fields: "held pid_ex = []"
  "tasks pid_ex 0xC0000 = Some (zero_task\<lparr>t_refCount := 1, t_pid := 0x205\<rparr>)"
  "tasks pid_ex 0xB0000 = Some (zero_task\<lparr>t_refCount := 1, t_pid := 0x105, t_last := 0xA0000\<rparr>)"
  by (simp_all add: pid_ex_def flat_boot_def boot_def)

text \<open>C28: a launched task can be taken out of the PID table, and only it: on a table that represents
  \<open>M\<close>, \<open>anscheduler_pidmap_unset\<close> on the task of PID \<open>p\<close> gives a table that represents
  \<open>M\<close> without \<open>p\<close>, wherever the task is in its bucket.\<close>

theorem pidmap_unset_removes:
  assumes "pidmap_rep s M" and "M p = Some x" and "PmLock \<notin> set (held s)"
  shows "\<exists>s'. anscheduler_pidmap_unset x s = Ret () s' \<and> pidmap_rep s' (M(p := None)) \<and>
    hide_pidmap s' = hide_pidmap s"
  by (rule pidmap_unset_refines[OF assms])

theorem pidmap_unset_removes_witness:
  "\<exists>s'. anscheduler_pidmap_unset 0xB0000 pid_ex = Ret () s' \<and>
    pidmap_rep s' ([5 \<mapsto> 0xA0000, 0x105 \<mapsto> 0xB0000](0x105 := None))"
  using pidmap_unset_removes[OF pid_ex_rep, of "0x105" "0xB0000"] by (auto simp: pid_ex_fields(1))

text \<open>C29: the lookup by PID always ends and finds exactly the launched, living tasks. On a table that
  represents \<open>M\<close>, \<open>anscheduler_task_for_pid\<close> returns the task \<open>M pid\<close> with one more
  reference if there is one and it is alive, and NULL without changing anything otherwise.\<close>

theorem task_for_pid_finds:
  assumes "pidmap_rep s M" and "PmLock \<notin> set (held s)"
    and "\<And>y. M pid = Some y \<Longrightarrow> KillLock y \<notin> set (held s) \<and> tasks s y \<noteq> None"
  shows "\<exists>p s'. anscheduler_task_for_pid pid s = Ret p s' \<and>
    (case M pid of
       None \<Rightarrow> p = NULL \<and> s' = s
     | Some y \<Rightarrow> \<exists>tk. tasks s y = Some tk \<and>
         (if t_isKilled tk = 0
          then p = y \<and> s' = s\<lparr>tasks := (tasks s)(y \<mapsto> tk\<lparr>t_refCount := t_refCount tk + 1\<rparr>)\<rparr>
          else p = NULL \<and> s' = s))"
proof (cases "M pid")
  case None
  then show ?thesis
    using pidmap_get_refines[OF assms(1,2), of pid] by (simp add: anscheduler_task_for_pid_def)
next
  case (Some y)
  then obtain tk where tk: "tasks s y = Some tk" "KillLock y \<notin> set (held s)" using assms(3) by auto
  then show ?thesis
    using pidmap_get_refines[OF assms(1,2), of pid] Some by (simp add: anscheduler_task_for_pid_def)
qed

theorem task_for_pid_finds_witness:
  "\<exists>s' tk. anscheduler_task_for_pid 0x105 pid_ex = Ret 0xB0000 s' \<and> tasks s' 0xB0000 = Some tk \<and>
    t_refCount tk = 2"
  using task_for_pid_finds[OF pid_ex_rep, of "0x105"] pid_ex_fields by (auto simp: zero_task_def)

text \<open>Taking a task out of the PID table that was never entered (a created task that is killed
  before its launch: its \<open>last\<close> link is NULL) empties the bucket of its PID: the tasks in it
  can no longer be found.\<close>

lemma pidmap_unset_unlaunched_drops:
  assumes "tasks s x = Some tk" and "t_last tk = NULL" and "t_next tk = NULL"
    and "PmLock \<notin> set (held s)" and "hash_pid pid = hash_pid (t_pid tk)"
  shows "\<exists>s'. anscheduler_pidmap_unset x s = Ret () s' \<and> held s' = held s \<and>
    anscheduler_task_for_pid pid s' = Ret NULL s'"
proof -
  let ?s = "s\<lparr>pidHashmap := (pidHashmap s)(hash_pid (t_pid tk) := NULL),
    tasks := (tasks s)(x \<mapsto> tk\<lparr>t_next := NULL, t_last := NULL\<rparr>)\<rparr>"
  have "anscheduler_pidmap_unset x s = Ret () ?s"
    using assms(1-4) by (simp add: anscheduler_pidmap_unset_def kern Let_def)
  moreover have "anscheduler_task_for_pid pid ?s = Ret NULL ?s"
    using assms(4,5)
    by (simp add: anscheduler_task_for_pid_def anscheduler_pidmap_get_def kern Let_def kwhile_done
        pidmap_get_round_def)
  ultimately show ?thesis by (intro exI[of _ ?s]) simp
qed

lemma pidmap_unset_unlaunched_drops_example:
  "\<exists>s'. anscheduler_pidmap_unset 0xC0000 pid_ex = Ret () s' \<and> anscheduler_task_for_pid 5 s' = Ret NULL s' \<and>
    (\<exists>s'. anscheduler_task_for_pid 5 pid_ex = Ret 0xA0000 s')"
proof -
  have "\<exists>s'. anscheduler_task_for_pid 5 pid_ex = Ret 0xA0000 s'"
    using pidmap_get_refines[OF pid_ex_rep, of 5] pid_ex_fields(1)
    by (simp add: anscheduler_task_for_pid_def pid_ex_def zero_task_def)
  then show ?thesis
    using pidmap_unset_unlaunched_drops[of pid_ex "0xC0000" _ 5] pid_ex_fields
    by (auto simp: zero_task_def hash_pid_def)
qed

end
