(* ===== verification/Socket_List.thy ===== *)
theory Socket_List
  imports Intrusive Task_Life Anidxset
begin

unbundle bit_operations_syntax

text \<open>
  The socket lists of a task (\<open>src/socketlist.c\<close>): the hash table from descriptor numbers to
  the task's ends of sockets, and the list of those ends that have messages pending.
  \<open>anscheduler_socket_reference\<close> of \<open>src/socket.c\<close> is here too, since the lists use it.
\<close>

subsection \<open>The C functions\<close>

definition anscheduler_socket_reference :: "addr \<Rightarrow> ('v, bool) kern" where
  "anscheduler_socket_reference socket =
     bnd (anscheduler_lock (CloseLock socket)) (\<lambda>_.
     bnd (rd_desc socket) (\<lambda>d.
     if d_isClosed d \<noteq> 0 then
       bnd (anscheduler_unlock (CloseLock socket)) (\<lambda>_. ret False)
     else
       bnd (wr_desc socket (\<lambda>d. d\<lparr>d_refCount := d_refCount d + 1\<rparr>)) (\<lambda>_.
       bnd (anscheduler_unlock (CloseLock socket)) (\<lambda>_. ret True))))"

definition descriptor_hash :: "u64 \<Rightarrow> u8" where
  "descriptor_hash desc = ucast (desc AND 0xf)"

definition anscheduler_descriptor_set :: "addr \<Rightarrow> addr \<Rightarrow> ('v, unit) kern" where
  "anscheduler_descriptor_set task desc =
     bnd (rd_desc desc) (\<lambda>d.
     let hash = descriptor_hash (d_descriptor d) in
     bnd (anscheduler_lock (SocketsLock task)) (\<lambda>_.
     bnd (wr_desc desc (\<lambda>d. d\<lparr>d_last := NULL\<rparr>)) (\<lambda>_.
     bnd (rd_task task) (\<lambda>tk.
     bnd (if t_sockets tk hash = NULL then
            bnd (wr_task task (\<lambda>t. t\<lparr>t_sockets := (t_sockets t)(hash := desc)\<rparr>)) (\<lambda>_.
            wr_desc desc (\<lambda>d. d\<lparr>d_next := NULL\<rparr>))
          else
            bnd (wr_desc (t_sockets tk hash) (\<lambda>d. d\<lparr>d_last := desc\<rparr>)) (\<lambda>_.
            bnd (wr_desc desc (\<lambda>d. d\<lparr>d_next := t_sockets tk hash\<rparr>)) (\<lambda>_.
            wr_task task (\<lambda>t. t\<lparr>t_sockets := (t_sockets t)(hash := desc)\<rparr>)))) (\<lambda>_.
     anscheduler_unlock (SocketsLock task))))))"

definition anscheduler_descriptor_delete :: "'v plat \<Rightarrow> addr \<Rightarrow> addr \<Rightarrow> ('v, unit) kern" where
  "anscheduler_descriptor_delete P task desc =
     bnd (rd_desc desc) (\<lambda>d.
     let hash = descriptor_hash (d_descriptor d) in
     bnd (anscheduler_lock (SocketsLock task)) (\<lambda>_.
     bnd (rd_desc desc) (\<lambda>d.
     bnd (if d_last d \<noteq> NULL then
            wr_desc (d_last d) (\<lambda>e. e\<lparr>d_next := d_next d\<rparr>)
          else
            wr_task task (\<lambda>t. t\<lparr>t_sockets := (t_sockets t)(hash := d_next d)\<rparr>)) (\<lambda>_.
     bnd (rd_desc desc) (\<lambda>d.
     bnd (cond (d_next d \<noteq> NULL) (wr_desc (d_next d) (\<lambda>e. e\<lparr>d_last := d_last d\<rparr>))) (\<lambda>_.
     bnd (wr_desc desc (\<lambda>d. d\<lparr>d_last := NULL, d_next := NULL\<rparr>)) (\<lambda>_.
     bnd (anscheduler_lock (DescriptorsLock task)) (\<lambda>_.
     bnd (rd_desc desc) (\<lambda>d.
     bnd (rd_task task) (\<lambda>tk.
     bnd (anidxset_put P (t_descriptors tk) (d_descriptor d)) (\<lambda>(ok, root).
     bnd (wr_task task (\<lambda>t. t\<lparr>t_descriptors := root\<rparr>)) (\<lambda>_.
     bnd (anscheduler_unlock (DescriptorsLock task)) (\<lambda>_.
     anscheduler_unlock (SocketsLock task))))))))))))))"

text \<open>One round of the \<open>while\<close> loop of \<open>anscheduler_descriptor_find\<close>, which never advances \<open>obj\<close>.\<close>

definition descriptor_find_round :: "addr \<Rightarrow> u64 \<Rightarrow> addr \<Rightarrow> ('v, addr + addr) kern" where
  "descriptor_find_round task desc obj =
     (if obj = NULL then
        bnd (anscheduler_unlock (SocketsLock task)) (\<lambda>_. ret (Inr NULL))
      else
        bnd (rd_desc obj) (\<lambda>d.
        if d_descriptor d = desc then
          bnd (anscheduler_socket_reference obj) (\<lambda>ok.
          bnd (anscheduler_unlock (SocketsLock task)) (\<lambda>_.
          ret (Inr (if ok then obj else NULL))))
        else ret (Inl obj)))"

definition anscheduler_descriptor_find :: "addr \<Rightarrow> u64 \<Rightarrow> ('v, addr) kern" where
  "anscheduler_descriptor_find task desc =
     (let hash = descriptor_hash desc in
      bnd (anscheduler_lock (SocketsLock task)) (\<lambda>_.
      bnd (rd_task task) (\<lambda>tk.
      kwhile (descriptor_find_round task desc) (t_sockets tk hash))))"

definition anscheduler_task_pending :: "addr \<Rightarrow> addr \<Rightarrow> ('v, unit) kern" where
  "anscheduler_task_pending task desc =
     bnd (anscheduler_lock (PendingLock task)) (\<lambda>_.
     bnd (rd_desc desc) (\<lambda>d.
     bnd (rd_task task) (\<lambda>tk.
     if d_pendingLast d \<noteq> NULL \<or> d_pendingNext d \<noteq> NULL \<or> t_firstPending tk = desc then
       anscheduler_unlock (PendingLock task)
     else
       bnd (cond (t_firstPending tk \<noteq> NULL)
              (wr_desc (t_firstPending tk) (\<lambda>e. e\<lparr>d_pendingLast := desc\<rparr>))) (\<lambda>_.
       bnd (wr_desc desc (\<lambda>e. e\<lparr>d_pendingNext := t_firstPending tk\<rparr>)) (\<lambda>_.
       bnd (wr_task task (\<lambda>t. t\<lparr>t_firstPending := desc\<rparr>)) (\<lambda>_.
       anscheduler_unlock (PendingLock task)))))))"

definition anscheduler_task_not_pending :: "addr \<Rightarrow> addr \<Rightarrow> ('v, unit) kern" where
  "anscheduler_task_not_pending task desc =
     bnd (anscheduler_lock (PendingLock task)) (\<lambda>_.
     bnd (rd_desc desc) (\<lambda>d.
     bnd (rd_task task) (\<lambda>tk.
     if d_pendingLast d = NULL \<and> d_pendingNext d = NULL \<and> t_firstPending tk \<noteq> desc then
       anscheduler_unlock (PendingLock task)
     else
       bnd (if d_pendingLast d = NULL then
              wr_task task (\<lambda>t. t\<lparr>t_firstPending := d_pendingNext d\<rparr>)
            else
              wr_desc (d_pendingLast d) (\<lambda>e. e\<lparr>d_pendingNext := d_pendingNext d\<rparr>)) (\<lambda>_.
       bnd (rd_desc desc) (\<lambda>d.
       bnd (cond (d_pendingNext d \<noteq> NULL)
              (wr_desc (d_pendingNext d) (\<lambda>e. e\<lparr>d_pendingLast := d_pendingLast d\<rparr>))) (\<lambda>_.
       bnd (wr_desc desc (\<lambda>e. e\<lparr>d_pendingLast := NULL, d_pendingNext := NULL\<rparr>)) (\<lambda>_.
       anscheduler_unlock (PendingLock task))))))))"

definition pop_pending_round :: "addr \<Rightarrow> addr \<Rightarrow> ('v, addr + addr) kern" where
  "pop_pending_round task p =
     (if p = NULL then
        bnd (anscheduler_unlock (PendingLock task)) (\<lambda>_. ret (Inr NULL))
      else
        bnd (rd_desc p) (\<lambda>d.
        bnd (wr_task task (\<lambda>t. t\<lparr>t_firstPending := d_pendingNext d\<rparr>)) (\<lambda>_.
        bnd (wr_desc p (\<lambda>e. e\<lparr>d_pendingLast := NULL, d_pendingNext := NULL\<rparr>)) (\<lambda>_.
        bnd (anscheduler_socket_reference p) (\<lambda>ok.
        if ok then
          bnd (anscheduler_unlock (PendingLock task)) (\<lambda>_. ret (Inr p))
        else
          bnd (rd_task task) (\<lambda>tk. ret (Inl (t_firstPending tk))))))))"

definition anscheduler_task_pop_pending :: "addr \<Rightarrow> ('v, addr) kern" where
  "anscheduler_task_pop_pending task =
     bnd (anscheduler_lock (PendingLock task)) (\<lambda>_.
     bnd (rd_task task) (\<lambda>tk.
     kwhile (pop_pending_round task) (t_firstPending tk)))"

definition anscheduler_socket_for_descriptor :: "u64 \<Rightarrow> ('v, addr) kern" where
  "anscheduler_socket_for_descriptor desc =
     bnd anscheduler_cpu_get_task (\<lambda>task.
     anscheduler_descriptor_find task desc)"

definition anscheduler_socket_next_pending :: "('v, addr) kern" where
  "anscheduler_socket_next_pending =
     bnd anscheduler_cpu_get_task (\<lambda>task.
     anscheduler_task_pop_pending task)"

subsection \<open>The abstraction\<close>

abbreviation set_d_next :: "addr \<Rightarrow> socket_desc_t \<Rightarrow> socket_desc_t" where
  "set_d_next p \<equiv> d_next_update (\<lambda>_. p)"

abbreviation set_d_last :: "addr \<Rightarrow> socket_desc_t \<Rightarrow> socket_desc_t" where
  "set_d_last p \<equiv> d_last_update (\<lambda>_. p)"

text \<open>The descriptor table of a task as a map from descriptor numbers to sockets.\<close>

definition desc_rep :: "'v sched \<Rightarrow> addr \<Rightarrow> (u64 \<rightharpoonup> addr) \<Rightarrow> bool" where
  "desc_rep s task M \<longleftrightarrow> (\<exists>tk. tasks s task = Some tk \<and>
     table_rep d_next d_last d_descriptor descriptor_hash (t_sockets tk) (descs s) M)"

text \<open>
  The list of pending sockets of a task. The back link of its first element is not described:
  \<open>anscheduler_task_pop_pending\<close> leaves it behind. A socket that is not in the list has
  both links clear.
\<close>

definition pending_list :: "'v sched \<Rightarrow> addr \<Rightarrow> addr list \<Rightarrow> bool" where
  "pending_list s task xs \<longleftrightarrow>
     (\<exists>tk. tasks s task = Some tk \<and> t_firstPending tk = first_of xs) \<and>
     slist (fld d_pendingNext (descs s)) xs \<and> (\<forall>x \<in> set xs. descs s x \<noteq> None) \<and>
     (\<forall>x \<in> set (tl xs). fld d_pendingLast (descs s) x \<noteq> NULL)"

definition not_listed :: "'v sched \<Rightarrow> addr \<Rightarrow> bool" where
  "not_listed s x \<longleftrightarrow> (\<exists>d. descs s x = Some d \<and> d_pendingNext d = NULL \<and> d_pendingLast d = NULL)"

definition open_desc :: "'v sched \<Rightarrow> addr \<Rightarrow> bool" where
  "open_desc s x = (case descs s x of Some d \<Rightarrow> d_isClosed d = 0 | None \<Rightarrow> False)"

text \<open>The heap after \<open>x\<close>, with the contents \<open>d\<close>, was taken out of its bucket.\<close>

definition unlinked_descs :: "addr \<Rightarrow> socket_desc_t \<Rightarrow> (addr \<rightharpoonup> socket_desc_t) \<Rightarrow> addr \<rightharpoonup> socket_desc_t" where
  "unlinked_descs x d h = upd x (\<lambda>d. set_d_next NULL (set_d_last NULL d))
     (unlink set_d_next set_d_last (d_last d) (d_next d) h)"

text \<open>
  A task with two sockets in the same bucket (descriptors 3 and 0x13), both with messages
  pending, and a third socket outside both lists.
\<close>

definition sl_ex :: "flatvm sched" where
  "sl_ex = flat_boot\<lparr>
     nodes := [0x1000 \<mapsto> small_node],
     tasks := [0xA0000 \<mapsto> zero_task\<lparr>t_refCount := 1, t_sockets := (\<lambda>_. NULL)(3 := 0x100),
       t_firstPending := 0x100, t_descriptors := small_root\<rparr>],
     descs := [0x100 \<mapsto> zero_desc\<lparr>d_next := 0x200, d_pendingNext := 0x200, d_descriptor := 3, d_refCount := 1\<rparr>,
       0x200 \<mapsto> zero_desc\<lparr>d_last := 0x100, d_pendingLast := 0x100, d_descriptor := 0x13, d_refCount := 1\<rparr>,
       0x300 \<mapsto> zero_desc\<lparr>d_descriptor := 0x23, d_refCount := 1\<rparr>]\<rparr>"

interpretation dsc: hash_table d_next d_last set_d_next set_d_last d_descriptor descriptor_hash
  by unfold_locales simp_all

lemma socket_reference_runs:
  assumes "descs s x = Some d" and "CloseLock x \<notin> set (held s)"
  shows "anscheduler_socket_reference x s =
    (if d_isClosed d = 0
     then Ret True (s\<lparr>descs := (descs s)(x \<mapsto> d\<lparr>d_refCount := d_refCount d + 1\<rparr>)\<rparr>)
     else Ret False s)"
  using assms by (simp add: anscheduler_socket_reference_def kern)

lemma desc_links_swap: "set_d_last a (set_d_next b d) = set_d_next b (set_d_last a d)"
  by (cases d) simp

subsection \<open>The descriptor table\<close>

lemma descriptor_set_runs:
  assumes tk: "tasks s task = Some tk"
    and M: "table_rep d_next d_last d_descriptor descriptor_hash (t_sockets tk) (descs s) M"
    and x: "descs s x = Some d" "x \<notin> ran M" and l: "SocketsLock task \<notin> set (held s)"
  shows "anscheduler_descriptor_set task x s = Ret ()
    (s\<lparr>descs := insert_front set_d_next set_d_last x (t_sockets tk (descriptor_hash (d_descriptor d))) (descs s),
      tasks := (tasks s)(task \<mapsto>
        tk\<lparr>t_sockets := (t_sockets tk)(descriptor_hash (d_descriptor d) := x)\<rparr>)\<rparr>)"
proof (cases "t_sockets tk (descriptor_hash (d_descriptor d)) = NULL")
  case True
  let ?s = "s\<lparr>descs := (descs s)(x \<mapsto> set_d_next NULL (set_d_last NULL d)), tasks := (tasks s)(task \<mapsto>
        tk\<lparr>t_sockets := (t_sockets tk)(descriptor_hash (d_descriptor d) := x)\<rparr>)\<rparr>"
  have "anscheduler_descriptor_set task x s = Ret () ?s"
    using True tk x(1) l by (simp add: anscheduler_descriptor_set_def kern Let_def)
  then show ?thesis using True x(1) by (simp add: insert_front_def)
next
  case False
  let ?y = "t_sockets tk (descriptor_hash (d_descriptor d))"
  obtain dy where y: "descs s ?y = Some dy" "?y \<noteq> x" using dsc.rep_head[OF M False] x(2) by auto
  then show ?thesis
    using False tk x(1) l
    by (simp add: anscheduler_descriptor_set_def kern Let_def insert_front_def fun_upd_twist)
qed

lemma descriptor_set_refines:
  assumes M: "desc_rep s task M" and x: "descs s x = Some d" "x \<noteq> NULL" "x \<notin> ran M"
    and k: "M (d_descriptor d) = None" and l: "SocketsLock task \<notin> set (held s)"
  shows "\<exists>s'. anscheduler_descriptor_set task x s = Ret () s' \<and>
    desc_rep s' task (M(d_descriptor d \<mapsto> x)) \<and>
    (\<forall>task2 M2. task2 \<noteq> task \<longrightarrow> desc_rep s task2 M2 \<longrightarrow> ran M2 \<inter> ran M = {} \<longrightarrow> x \<notin> ran M2 \<longrightarrow>
       desc_rep s' task2 M2)"
proof -
  obtain tk where tk: "tasks s task = Some tk"
    "table_rep d_next d_last d_descriptor descriptor_hash (t_sockets tk) (descs s) M"
    using M by (auto simp: desc_rep_def)
  let ?i = "descriptor_hash (d_descriptor d)"
  let ?h = "insert_front set_d_next set_d_last x (t_sockets tk ?i) (descs s)"
  let ?s = "s\<lparr>descs := ?h, tasks := (tasks s)(task \<mapsto> tk\<lparr>t_sockets := (t_sockets tk)(?i := x)\<rparr>)\<rparr>"
  have "desc_rep ?s task (M(d_descriptor d \<mapsto> x))"
    using dsc.rep_insert[OF tk(2) x k] by (simp add: desc_rep_def)
  moreover have "desc_rep ?s task2 M2"
    if t2: "task2 \<noteq> task" "desc_rep s task2 M2" "ran M2 \<inter> ran M = {}" "x \<notin> ran M2" for task2 M2
  proof -
    obtain tk2 where tk2: "tasks s task2 = Some tk2"
      "table_rep d_next d_last d_descriptor descriptor_hash (t_sockets tk2) (descs s) M2"
      using t2(2) by (auto simp: desc_rep_def)
    have "?h p = descs s p" if p: "p \<in> ran M2" for p
    proof (cases "t_sockets tk ?i = NULL")
      case True
      then show ?thesis using p t2(4) by (auto simp: insert_front_def upd_apply)
    next
      case False
      have "p \<noteq> t_sockets tk ?i" using dsc.rep_head(1)[OF tk(2) False] p t2(3) by auto
      then show ?thesis using p t2(4) by (intro dsc.insert_front_other) auto
    qed
    then have "table_rep d_next d_last d_descriptor descriptor_hash (t_sockets tk2) ?h M2"
      by (rule dsc.rep_frame[OF tk2(2)])
    then show ?thesis using tk2(1) t2(1) by (auto simp: desc_rep_def)
  qed
  ultimately show ?thesis using descriptor_set_runs[OF tk x(1,3) l] by blast
qed

text \<open>
  Putting an index back changes the pool's nodes only, whether it succeeds or not: the pool has
  the index on top, or its first page was full, no new page could be had and the index is lost.
\<close>

definition given_back :: "(addr \<rightharpoonup> anidxset_node_t) \<Rightarrow> anidxset_root_t \<Rightarrow> addr list \<Rightarrow> u64 \<Rightarrow>
    (addr \<rightharpoonup> anidxset_node_t) \<Rightarrow> anidxset_root_t \<Rightarrow> bool" where
  "given_back ns root ps x ns' root' \<longleftrightarrow>
     (\<exists>ps'. idxset ns' root' ps' \<and> (chain_stack ns' ps', ix_used root') = idx_put x (chain_stack ns ps, ix_used root)) \<or>
     (ns' = ns \<and> root' = root \<and> (\<exists>n. ns (ix_first root) = Some n \<and> nd_count n = of_nat NODE_CAPACITY))"

lemma anidxset_put_frame:
  assumes "allocator P" and "idxset (nodes s) root ps" and "cpu_locked s"
  shows "\<exists>ok root' ns n. anidxset_put P root x s = Ret (ok, root') (s\<lparr>nodes := ns, allocs := n\<rparr>) \<and>
    given_back (nodes s) root ps x ns root'"
  using anidxset_put_refines[OF assms, of x]
proof (elim disjE exE conjE)
  fix root' ps' s'
  assume "anidxset_put P root x s = Ret (True, root') s'" "s' = s\<lparr>nodes := nodes s', allocs := allocs s'\<rparr>"
    "idxset (nodes s') root' ps'"
    "(chain_stack (nodes s') ps', ix_used root') = idx_put x (chain_stack (nodes s) ps, ix_used root)"
  then show ?thesis unfolding given_back_def by metis
next
  fix n assume "anidxset_put P root x s = Ret (False, root) (s\<lparr>allocs := Suc (allocs s)\<rparr>)"
    and full: "nodes s (ix_first root) = Some n" "nd_count n = of_nat NODE_CAPACITY"
  moreover have "s\<lparr>allocs := Suc (allocs s)\<rparr> = s\<lparr>nodes := nodes s, allocs := Suc (allocs s)\<rparr>"
    by (rule sched.equality) simp_all
  ultimately show ?thesis unfolding given_back_def by metis
qed

lemma descriptor_delete_runs:
  assumes tk: "tasks s task = Some tk"
    and M: "table_rep d_next d_last d_descriptor descriptor_hash (t_sockets tk) (descs s) M"
    and k: "M k = Some x" and d: "descs s x = Some d"
    and l: "SocketsLock task \<notin> set (held s)" "DescriptorsLock task \<notin> set (held s)"
    and heads: "heads = (if d_last d = NULL then (t_sockets tk)(descriptor_hash k := d_next d) else t_sockets tk)"
    and put: "anidxset_put P (t_descriptors tk) k
        (s\<lparr>tasks := (tasks s)(task \<mapsto> tk\<lparr>t_sockets := heads\<rparr>), descs := unlinked_descs x d (descs s),
          held := DescriptorsLock task # SocketsLock task # held s\<rparr>) =
      Ret (ok, root) (s\<lparr>tasks := (tasks s)(task \<mapsto> tk\<lparr>t_sockets := heads\<rparr>),
          descs := unlinked_descs x d (descs s), nodes := ns, allocs := n,
          held := DescriptorsLock task # SocketsLock task # held s\<rparr>)"
  shows "anscheduler_descriptor_delete P task x s = Ret ()
    (s\<lparr>tasks := (tasks s)(task \<mapsto> tk\<lparr>t_sockets := heads, t_descriptors := root\<rparr>),
       descs := unlinked_descs x d (descs s), nodes := ns, allocs := n\<rparr>)"
proof -
  note nb = dsc.rep_neighbours[OF M k d]
  note defs = anscheduler_descriptor_delete_def kern Let_def unlink_def unlinked_descs_def sched_order
    desc_links_swap nb(4)
  consider (nn) "d_last d = NULL" "d_next d = NULL"
    | (np) e where "d_last d = NULL" "d_next d \<noteq> NULL" "d_next d \<noteq> x" "descs s (d_next d) = Some e"
    | (pn) e where "d_last d \<noteq> NULL" "d_next d = NULL" "d_last d \<noteq> x" "descs s (d_last d) = Some e"
    | (pp) e f where "d_last d \<noteq> NULL" "d_next d \<noteq> NULL" "d_last d \<noteq> x" "d_next d \<noteq> x"
        "d_next d \<noteq> d_last d" "descs s (d_last d) = Some e" "descs s (d_next d) = Some f"
    using nb(1-3) by blast
  then show ?thesis
  proof cases
    case nn
    with tk d l heads put show ?thesis by (simp add: defs)
  next
    case np
    with tk d l heads put show ?thesis by (simp add: defs)
  next
    case pn
    with tk d l heads put show ?thesis by (simp add: defs fun_upd_idem)
  next
    case pp
    with tk d l heads put show ?thesis by (simp add: defs fun_upd_idem)
  qed
qed

lemma descriptor_delete_refines:
  assumes P: "allocator P" and M: "desc_rep s task M" and k: "M k = Some x"
    and tk: "tasks s task = Some tk" and ix: "idxset (nodes s) (t_descriptors tk) ps" and c: "cpu_locked s"
    and l: "SocketsLock task \<notin> set (held s)" "DescriptorsLock task \<notin> set (held s)"
  shows "\<exists>s' d. anscheduler_descriptor_delete P task x s = Ret () s' \<and> desc_rep s' task (M(k := None)) \<and>
    descs s x = Some d \<and> descs s' = unlinked_descs x d (descs s) \<and> held s' = held s \<and> sockets s' = sockets s \<and>
    s' = s\<lparr>tasks := tasks s', descs := descs s', nodes := nodes s', allocs := allocs s'\<rparr> \<and>
    (\<exists>tk'. tasks s' = (tasks s)(task \<mapsto> tk') \<and>
       tk' = tk\<lparr>t_sockets := t_sockets tk', t_descriptors := t_descriptors tk'\<rparr> \<and>
       given_back (nodes s) (t_descriptors tk) ps k (nodes s') (t_descriptors tk'))"
proof -
  have T: "table_rep d_next d_last d_descriptor descriptor_hash (t_sockets tk) (descs s) M"
    using M tk by (auto simp: desc_rep_def)
  obtain d where d: "descs s x = Some d" using T k by (auto simp: table_rep_def)
  let ?heads = "if d_last d = NULL then (t_sockets tk)(descriptor_hash k := d_next d) else t_sockets tk"
  let ?s = "s\<lparr>tasks := (tasks s)(task \<mapsto> tk\<lparr>t_sockets := ?heads\<rparr>), descs := unlinked_descs x d (descs s),
    held := DescriptorsLock task # SocketsLock task # held s\<rparr>"
  have "idxset (nodes ?s) (t_descriptors tk) ps" "cpu_locked ?s" using ix c by simp_all
  from anidxset_put_frame[OF P this, of k] obtain ok root ns n where
    put: "anidxset_put P (t_descriptors tk) k ?s = Ret (ok, root) (?s\<lparr>nodes := ns, allocs := n\<rparr>)"
    and gb: "given_back (nodes s) (t_descriptors tk) ps k ns root" by auto
  let ?s' = "s\<lparr>tasks := (tasks s)(task \<mapsto> tk\<lparr>t_sockets := ?heads, t_descriptors := root\<rparr>),
       descs := unlinked_descs x d (descs s), nodes := ns, allocs := n\<rparr>"
  have "anscheduler_descriptor_delete P task x s = Ret () ?s'"
    by (rule descriptor_delete_runs[OF tk T k d l refl]) (use put in \<open>simp add: sched_order\<close>)
  moreover have "desc_rep ?s' task (M(k := None))"
    using dsc.rep_delete[OF T k d] by (simp add: desc_rep_def unlinked_descs_def)
  moreover have "\<exists>tk'. tasks ?s' = (tasks s)(task \<mapsto> tk') \<and>
       tk' = tk\<lparr>t_sockets := t_sockets tk', t_descriptors := t_descriptors tk'\<rparr> \<and>
       given_back (nodes s) (t_descriptors tk) ps k (nodes ?s') (t_descriptors tk')"
    by (rule exI[of _ "tk\<lparr>t_sockets := ?heads, t_descriptors := root\<rparr>"]) (use gb in simp)
  ultimately show ?thesis using d by (intro exI[of _ ?s'] exI[of _ d] conjI) simp_all
qed

subsection \<open>The pending list\<close>

lemma pending_list_first:
  assumes "pending_list s task xs" and "tasks s task = Some tk"
  shows "t_firstPending tk = first_of xs"
  using assms by (auto simp: pending_list_def)

lemma task_pending_listed:
  assumes L: "pending_list s task xs" and x: "x \<in> set xs" and l: "PendingLock task \<notin> set (held s)"
  shows "anscheduler_task_pending task x s = Ret () s"
proof -
  obtain tk where tk: "tasks s task = Some tk" "t_firstPending tk = first_of xs"
    using L by (auto simp: pending_list_def)
  obtain d where d: "descs s x = Some d" using L x by (auto simp: pending_list_def)
  have "first_of xs = x \<or> d_pendingLast d \<noteq> NULL"
    using L x d by (cases xs) (auto simp: pending_list_def fld_def)
  then show ?thesis using tk d l by (auto simp: anscheduler_task_pending_def kern)
qed

lemma task_pending_unlisted:
  assumes L: "pending_list s task xs" and x: "x \<notin> set xs" "not_listed s x" "x \<noteq> NULL"
    and l: "PendingLock task \<notin> set (held s)"
  shows "\<exists>s'. anscheduler_task_pending task x s = Ret () s' \<and> pending_list s' task (x # xs) \<and> held s' = held s"
proof -
  obtain tk where tk: "tasks s task = Some tk" "t_firstPending tk = first_of xs"
    using L by (auto simp: pending_list_def)
  obtain d where d: "descs s x = Some d" "d_pendingNext d = NULL" "d_pendingLast d = NULL"
    using x(2) by (auto simp: not_listed_def)
  have sl: "slist (fld d_pendingNext (descs s)) xs" using L by (simp add: pending_list_def)
  let ?t = "(tasks s)(task \<mapsto> tk\<lparr>t_firstPending := x\<rparr>)"
  show ?thesis
  proof (cases xs)
    case Nil
    let ?s = "s\<lparr>tasks := ?t, descs := (descs s)(x \<mapsto> d\<lparr>d_pendingNext := NULL\<rparr>)\<rparr>"
    have "anscheduler_task_pending task x s = Ret () ?s"
      using tk d l x(3) Nil by (auto simp: anscheduler_task_pending_def kern sched_order)
    moreover have "pending_list ?s task (x # xs)" using Nil x(3) by (simp add: pending_list_def slist_def fld_def)
    ultimately show ?thesis by (intro exI[of _ ?s]) simp
  next
    case (Cons y ys)
    obtain e where e: "descs s y = Some e" "y \<noteq> x" "y \<noteq> NULL"
      using L x(1) Cons slist_nonnull[OF sl] by (auto simp: pending_list_def)
    let ?h = "(descs s)(y \<mapsto> e\<lparr>d_pendingLast := x\<rparr>, x \<mapsto> d\<lparr>d_pendingNext := y\<rparr>)"
    let ?s = "s\<lparr>tasks := ?t, descs := ?h\<rparr>"
    have "anscheduler_task_pending task x s = Ret () ?s"
      using tk d e l Cons by (simp add: anscheduler_task_pending_def kern sched_order)
    moreover have "slist (fld d_pendingNext ?h) (x # xs)"
    proof (rule slist_ConsI[OF x(3,1)])
      show "fld d_pendingNext ?h x = first_of xs" using Cons by (simp add: fld_def)
      have "slist (fld d_pendingNext ?h) xs = slist (fld d_pendingNext (descs s)) xs"
        using x(1) e by (intro slist_cong) (auto simp: fld_def)
      then show "slist (fld d_pendingNext ?h) xs" using sl by simp
    qed
    moreover have "fld d_pendingLast ?h z \<noteq> NULL" if "z \<in> set xs" for z
      using that L Cons e(2) x(1,3) by (auto simp: fld_def pending_list_def)
    moreover have "?h z \<noteq> None" if "z \<in> set (x # xs)" for z using that L by (auto simp: pending_list_def)
    ultimately show ?thesis by (intro exI[of _ ?s]) (simp add: pending_list_def)
  qed
qed

text \<open>One step of the pop: the first element leaves the list with its links clear.\<close>

lemma pending_list_pop:
  assumes L: "pending_list s task (x # xs)" and tk: "tasks s task = Some tk" and d: "descs s x = Some d"
    and d': "d_pendingNext d' = NULL" "d_pendingLast d' = NULL"
  shows "pending_list (s\<lparr>tasks := (tasks s)(task \<mapsto> tk\<lparr>t_firstPending := d_pendingNext d\<rparr>),
    descs := (descs s)(x \<mapsto> d')\<rparr>) task xs" "d_pendingNext d = first_of xs" "x \<noteq> NULL" "x \<notin> set xs"
proof -
  have sl: "slist (fld d_pendingNext (descs s)) (x # xs)" using L by (simp add: pending_list_def)
  from slist_at[OF sl] d show nx: "d_pendingNext d = first_of xs" and "x \<noteq> NULL" and nin: "x \<notin> set xs"
    by (simp_all add: fld_def)
  let ?h = "(descs s)(x \<mapsto> d')"
  have "slist (fld d_pendingNext ?h) xs = slist (fld d_pendingNext (descs s)) xs"
    using nin by (intro slist_cong) (auto simp: fld_def)
  then have "slist (fld d_pendingNext ?h) xs" using slist_at(2)[OF sl] by simp
  moreover have "fld d_pendingLast ?h z \<noteq> NULL" if "z \<in> set (tl xs)" for z
  proof -
    have "z \<in> set xs" using that by (cases xs) auto
    then show ?thesis using L nin by (auto simp: fld_def pending_list_def)
  qed
  moreover have "?h z \<noteq> None" if "z \<in> set xs" for z using that L by (auto simp: pending_list_def)
  ultimately show "pending_list (s\<lparr>tasks := (tasks s)(task \<mapsto> tk\<lparr>t_firstPending := d_pendingNext d\<rparr>),
    descs := ?h\<rparr>) task xs" using nx by (simp add: pending_list_def)
qed

text \<open>
  What the pop does to the descriptor of a socket that it takes from the list: its links are cleared, and
  an open socket gets a reference. The descriptors of the other sockets are left alone.
\<close>

definition taken_desc :: "socket_desc_t \<Rightarrow> socket_desc_t" where
  "taken_desc d = d\<lparr>d_pendingLast := NULL, d_pendingNext := NULL,
     d_refCount := (if d_isClosed d = 0 then d_refCount d + 1 else d_refCount d)\<rparr>"

definition take_descs :: "addr set \<Rightarrow> (addr \<rightharpoonup> socket_desc_t) \<Rightarrow> (addr \<rightharpoonup> socket_desc_t)" where
  "take_descs X ds y = (if y \<in> X then map_option taken_desc (ds y) else ds y)"

lemma take_descs_one: "ds x = Some d \<Longrightarrow> take_descs {x} ds = ds(x \<mapsto> taken_desc d)"
  by (auto simp: take_descs_def fun_eq_iff)

lemma take_descs_step:
  "ds x = Some d \<Longrightarrow> x \<notin> X \<Longrightarrow> take_descs X (ds(x \<mapsto> taken_desc d)) = take_descs (insert x X) ds"
  by (auto simp: take_descs_def fun_eq_iff)

lemma take_descs_clears: "descs s' = take_descs X (descs s) \<Longrightarrow> x \<in> X \<Longrightarrow> descs s x \<noteq> None \<Longrightarrow> not_listed s' x"
  by (cases "descs s x") (simp_all add: not_listed_def take_descs_def taken_desc_def)

lemma tl_dropWhile_subset: "set (tl (dropWhile f xs)) \<subseteq> set xs"
proof
  fix x assume "x \<in> set (tl (dropWhile f xs))"
  then have "x \<in> set (dropWhile f xs)" by (metis in_set_dropD drop_Suc drop0)
  then show "x \<in> set xs" by (blast dest: set_dropWhileD)
qed

lemma pop_pending_loop:
  assumes "pending_list s task xs" and "length xs < n" and "held s = PendingLock task # h"
    and "\<forall>x \<in> set xs. CloseLock x \<notin> set h"
  shows "\<exists>s'. kloop n Diverges (pop_pending_round task) (first_of xs) s =
      Ret (first_of (dropWhile (\<lambda>x. \<not> open_desc s x) xs)) s' \<and>
    pending_list s' task (tl (dropWhile (\<lambda>x. \<not> open_desc s x) xs)) \<and> held s' = h \<and>
    descs s' = take_descs (set xs - set (tl (dropWhile (\<lambda>x. \<not> open_desc s x) xs))) (descs s)"
  using assms
proof (induction xs arbitrary: s n)
  case Nil
  then obtain m where n: "n = Suc m" by (cases n) auto
  have "pop_pending_round task NULL s = Ret (Inr NULL) (s\<lparr>held := h\<rparr>)"
    using Nil.prems(1,3) by (auto simp: pop_pending_round_def kern pending_list_def)
  moreover have "take_descs {} (descs s) = descs s" by (simp add: take_descs_def fun_eq_iff)
  ultimately show ?case unfolding n using Nil.prems(1) by (simp add: kloop_done pending_list_def)
next
  case (Cons x xs)
  then obtain m where n: "n = Suc m" and m: "length xs < m" by (cases n) auto
  obtain tk where tk: "tasks s task = Some tk" using Cons.prems(1) by (auto simp: pending_list_def)
  obtain d where d: "descs s x = Some d" using Cons.prems(1) by (auto simp: pending_list_def)
  let ?d = "d\<lparr>d_pendingLast := NULL, d_pendingNext := NULL\<rparr>"
  let ?t = "(tasks s)(task \<mapsto> tk\<lparr>t_firstPending := d_pendingNext d\<rparr>)"
  let ?s = "s\<lparr>tasks := ?t, descs := (descs s)(x \<mapsto> ?d)\<rparr>"
  note pop = pending_list_pop[OF Cons.prems(1) tk d]
  have cl: "CloseLock x \<notin> set (held ?s)" using Cons.prems(3,4) by simp
  have ref: "anscheduler_socket_reference x ?s = (if d_isClosed d = 0
     then Ret True (?s\<lparr>descs := (descs ?s)(x \<mapsto> ?d\<lparr>d_refCount := d_refCount ?d + 1\<rparr>)\<rparr>) else Ret False ?s)"
    using socket_reference_runs[OF _ cl, of ?d] by simp
  show ?case
  proof (cases "d_isClosed d = 0")
    case True
    then have o: "open_desc s x" using d by (simp add: open_desc_def)
    let ?e = "?d\<lparr>d_refCount := d_refCount d + 1\<rparr>"
    have e: "taken_desc d = ?e" using True by (simp add: taken_desc_def)
    have rest: "set (x # xs) - set xs = {x}" using pop(4)[of ?d] by auto
    let ?s' = "s\<lparr>tasks := ?t, descs := (descs s)(x \<mapsto> ?e), held := h\<rparr>"
    have "pop_pending_round task x s = Ret (Inr x) ?s'"
      using d tk pop(3)[of ?d] ref True Cons.prems(3)
      by (simp add: pop_pending_round_def kern sched_order)
    moreover have "pending_list ?s' task xs" using pop(1)[of ?e] by (simp add: pending_list_def)
    moreover have "descs ?s' = take_descs {x} (descs s)" using take_descs_one[of "descs s", OF d] e by simp
    ultimately show ?thesis
      unfolding n using o rest by (intro exI[of _ ?s']) (simp add: kloop_done)
  next
    case False
    then have o: "\<not> open_desc s x" using d by (simp add: open_desc_def)
    have r: "pop_pending_round task x s = Ret (Inl (first_of xs)) ?s"
      using d tk pop(2,3)[of ?d] ref False by (simp add: pop_pending_round_def kern sched_order)
    have op: "open_desc ?s y = open_desc s y" for y using d by (simp add: open_desc_def)
    have nin: "x \<notin> set xs" using pop(4)[of ?d] by simp
    have "pending_list ?s task xs" "held ?s = PendingLock task # h" "\<forall>x \<in> set xs. CloseLock x \<notin> set h"
      using pop(1)[of ?d] Cons.prems(3,4) by simp_all
    from Cons.IH[OF this(1) m this(2,3)] obtain s' where s':
      "kloop m Diverges (pop_pending_round task) (first_of xs) ?s =
        Ret (first_of (dropWhile (\<lambda>x. \<not> open_desc s x) xs)) s'"
      "pending_list s' task (tl (dropWhile (\<lambda>x. \<not> open_desc s x) xs))" "held s' = h"
      "descs s' = take_descs (set xs - set (tl (dropWhile (\<lambda>x. \<not> open_desc s x) xs))) (descs ?s)"
      unfolding op by blast
    let ?rest = "set (tl (dropWhile (\<lambda>x. \<not> open_desc s x) xs))"
    have "x \<notin> ?rest" using nin tl_dropWhile_subset[of "\<lambda>x. \<not> open_desc s x" xs] by blast
    then have X: "insert x (set xs - ?rest) = set (x # xs) - ?rest" by auto
    have "?d = taken_desc d" using False by (simp add: taken_desc_def)
    then have "descs s' = take_descs (insert x (set xs - ?rest)) (descs s)"
      using take_descs_step[of "descs s", OF d, of "set xs - ?rest"] s'(4) nin by simp
    then have "descs s' = take_descs (set (x # xs) - ?rest) (descs s)" unfolding X .
    moreover have "kloop n Diverges (pop_pending_round task) (first_of (x # xs)) s =
      kloop m Diverges (pop_pending_round task) (first_of xs) ?s"
      using kloop_next[where body = "pop_pending_round task", OF r] n by simp
    ultimately show ?thesis using s'(1-3) o by (intro exI[of _ s']) simp
  qed
qed

lemma pop_pending_refines:
  assumes L: "pending_list s task xs" and l: "PendingLock task \<notin> set (held s)"
    and c: "\<forall>x \<in> set xs. CloseLock x \<notin> set (held s)"
  shows "\<exists>s'. anscheduler_task_pop_pending task s = Ret (first_of (dropWhile (\<lambda>x. \<not> open_desc s x) xs)) s' \<and>
    pending_list s' task (tl (dropWhile (\<lambda>x. \<not> open_desc s x) xs)) \<and> held s' = held s \<and>
    descs s' = take_descs (set xs - set (tl (dropWhile (\<lambda>x. \<not> open_desc s x) xs))) (descs s)"
proof -
  obtain tk where tk: "tasks s task = Some tk" "t_firstPending tk = first_of xs"
    using L by (auto simp: pending_list_def)
  let ?s = "s\<lparr>held := PendingLock task # held s\<rparr>"
  have L': "pending_list ?s task xs" using L by (simp add: pending_list_def)
  have len: "length xs < max_steps" using L by (auto simp: pending_list_def dest: slist_length)
  have o: "open_desc ?s x = open_desc s x" for x by (simp add: open_desc_def)
  have "anscheduler_task_pop_pending task s = kloop max_steps Diverges (pop_pending_round task) (first_of xs) ?s"
    using tk l by (simp add: anscheduler_task_pop_pending_def kwhile_def kern)
  then show ?thesis using pop_pending_loop[OF L' len _ c] unfolding o by simp
qed

subsection \<open>Properties\<close>

lemma sl_ex_task: "tasks sl_ex 0xA0000 = Some (zero_task\<lparr>t_refCount := 1, t_sockets := (\<lambda>_. NULL)(3 := 0x100),
       t_firstPending := 0x100, t_descriptors := small_root\<rparr>)" "held sl_ex = []" "cpu_locked sl_ex"
  "descs sl_ex 0x300 = Some (zero_desc\<lparr>d_descriptor := 0x23, d_refCount := 1\<rparr>)"
  "descs sl_ex 0x100 = Some (zero_desc\<lparr>d_next := 0x200, d_pendingNext := 0x200, d_descriptor := 3, d_refCount := 1\<rparr>)"
  "descs sl_ex 0x200 = Some (zero_desc\<lparr>d_last := 0x100, d_pendingLast := 0x100, d_descriptor := 0x13, d_refCount := 1\<rparr>)"
  by (simp_all add: sl_ex_def flat_boot_def boot_def)

lemma sl_ex_rep: "desc_rep sl_ex 0xA0000 [3 \<mapsto> 0x100, 0x13 \<mapsto> 0x200]"
proof -
  let ?B = "(\<lambda>_. [])(3 := [0x100, 0x200])" and ?heads = "(\<lambda>_. NULL)(3 := 0x100)"
  have "table d_next d_last d_descriptor descriptor_hash ?heads (descs sl_ex) ?B"
    by (rule tableI)
       (auto simp: sl_ex_def chain_def dlist_def fld_def zero_desc_def descriptor_hash_def split: if_splits)
  moreover have "([3 \<mapsto> 0x100, 0x13 \<mapsto> 0x200] q = Some y) =
    (y \<in> set (?B (descriptor_hash q)) \<and> map_option d_descriptor (descs sl_ex y) = Some q)" for q y
    by (auto simp: sl_ex_def zero_desc_def descriptor_hash_def split: if_splits)
  ultimately have "table_rep d_next d_last d_descriptor descriptor_hash ?heads (descs sl_ex)
    [3 \<mapsto> 0x100, 0x13 \<mapsto> 0x200]" unfolding table_rep_def by blast
  then show ?thesis by (simp add: desc_rep_def sl_ex_task)
qed

lemma sl_ex_pending: "pending_list sl_ex 0xA0000 [0x100, 0x200]"
  by (simp add: pending_list_def sl_ex_task slist_def fld_def zero_desc_def)

text \<open>C30: closing a descriptor takes exactly it out of its task's table, wherever it is in its bucket,
  and gives its number back to the task's pool. The number is lost, and the pool unchanged, only
  when the pool's first page is full and there is no memory for another.\<close>

theorem descriptor_delete_removes:
  assumes "allocator P" and "desc_rep s task M" and "M k = Some x" and "tasks s task = Some tk"
    and "idxset (nodes s) (t_descriptors tk) ps" and "cpu_locked s"
    and "SocketsLock task \<notin> set (held s)" and "DescriptorsLock task \<notin> set (held s)"
  shows "\<exists>s' tk'. anscheduler_descriptor_delete P task x s = Ret () s' \<and> desc_rep s' task (M(k := None)) \<and>
    held s' = held s \<and> tasks s' task = Some tk' \<and>
    given_back (nodes s) (t_descriptors tk) ps k (nodes s') (t_descriptors tk')"
  using descriptor_delete_refines[OF assms] by (metis fun_upd_same)

theorem descriptor_delete_removes_witness:
  "\<exists>s'. anscheduler_descriptor_delete flat_plat 0xA0000 0x200 sl_ex = Ret () s' \<and>
    desc_rep s' 0xA0000 ([3 \<mapsto> 0x100, 0x13 \<mapsto> 0x200](0x13 := None))"
proof -
  have "idxset (nodes sl_ex) small_root [0x1000]"
    using small_idxset by (simp add: sl_ex_def small_state_def)
  then show ?thesis
    using descriptor_delete_removes[OF flat.allocator_axioms sl_ex_rep, of "0x13" "0x200"] sl_ex_task
    by fastforce
qed

text \<open>C31: looking up a descriptor number never returns when the first socket of its bucket has
  another number: the loop does not advance to the next socket, and it spins with the task's
  \<open>socketsLock\<close> held. So every descriptor that is not at the front of its bucket is unreachable.\<close>

theorem descriptor_find_diverges:
  assumes "tasks s task = Some tk" and "SocketsLock task \<notin> set (held s)"
    and "t_sockets tk (descriptor_hash k) = x" and "x \<noteq> NULL" and "descs s x = Some d"
    and "d_descriptor d \<noteq> k"
  shows "anscheduler_descriptor_find task k s = Crash Diverges"
proof -
  let ?s = "s\<lparr>held := SocketsLock task # held s\<rparr>"
  have "descriptor_find_round task k x ?s = Ret (Inl x) ?s"
    using assms(4-6) by (simp add: descriptor_find_round_def kern)
  then have "kwhile (descriptor_find_round task k) x ?s = Crash Diverges" by (rule kwhile_stuck)
  then show ?thesis using assms(1-3) by (simp add: anscheduler_descriptor_find_def kern)
qed

theorem descriptor_find_diverges_witness:
  "[3 \<mapsto> 0x100, 0x13 \<mapsto> (0x200 :: addr)] (0x13 :: u64) = Some 0x200 \<and>
   anscheduler_descriptor_find 0xA0000 0x13 sl_ex = Crash Diverges"
  using descriptor_find_diverges[OF sl_ex_task(1), of "0x13" "0x100"] sl_ex_task
  by (simp add: zero_desc_def descriptor_hash_def)

text \<open>A descriptor at the front of its bucket is found, and an empty bucket gives NULL: the socket
  is returned with one more reference if it is open.\<close>

lemma descriptor_find_front:
  assumes "tasks s task = Some tk" and "SocketsLock task \<notin> set (held s)"
    and "t_sockets tk (descriptor_hash k) = x" and "x = NULL \<or> (descs s x = Some d \<and> d_descriptor d = k)"
    and "CloseLock x \<notin> set (held s)"
  shows "anscheduler_descriptor_find task k s =
    (if x \<noteq> NULL \<and> d_isClosed d = 0
     then Ret x (s\<lparr>descs := (descs s)(x \<mapsto> d\<lparr>d_refCount := d_refCount d + 1\<rparr>)\<rparr>)
     else Ret NULL s)"
proof -
  let ?s = "s\<lparr>held := SocketsLock task # held s\<rparr>"
  let ?r = "if x \<noteq> NULL \<and> d_isClosed d = 0
     then Ret (Inr x) (s\<lparr>descs := (descs s)(x \<mapsto> d\<lparr>d_refCount := d_refCount d + 1\<rparr>)\<rparr>)
     else Ret (Inr NULL) s"
  have round: "descriptor_find_round task k x ?s = ?r"
  proof (cases "x = NULL")
    case True
    then show ?thesis using assms(1) by (simp add: descriptor_find_round_def kern)
  next
    case False
    then have d: "descs ?s x = Some d" "d_descriptor d = k" "CloseLock x \<notin> set (held ?s)"
      using assms(4,5) by auto
    show ?thesis
      using False assms(1) d socket_reference_runs[OF d(1,3)]
      by (simp add: descriptor_find_round_def kern sched_order)
  qed
  have "anscheduler_descriptor_find task k s = kwhile (descriptor_find_round task k) x ?s"
    using assms(1-3) by (simp add: anscheduler_descriptor_find_def kern)
  then show ?thesis using kwhile_done[of "descriptor_find_round task k" x ?s] round by (simp split: if_splits)
qed

text \<open>C32: marking a socket as pending puts it in front of its task's pending list, once: a socket
  that is in the list already is left where it is.\<close>

theorem task_pending_once:
  assumes "pending_list s task xs" and "x \<in> set xs \<or> not_listed s x" and "x \<noteq> NULL"
    and "PendingLock task \<notin> set (held s)"
  shows "\<exists>s'. anscheduler_task_pending task x s = Ret () s' \<and> held s' = held s \<and>
    pending_list s' task (if x \<in> set xs then xs else x # xs)"
  using task_pending_listed[OF assms(1) _ assms(4), of x] task_pending_unlisted[OF assms(1) _ _ assms(3,4)]
    assms(1,2) by (cases "x \<in> set xs") auto

theorem task_pending_once_witness:
  "\<exists>s'. anscheduler_task_pending 0xA0000 0x300 sl_ex = Ret () s' \<and> pending_list s' 0xA0000 [0x300, 0x100, 0x200]"
  using task_pending_once[OF sl_ex_pending, of "0x300"] sl_ex_task
  by (auto simp: not_listed_def zero_desc_def)

text \<open>C33: taking the next pending socket always ends. It returns the first socket of the list that is
  open (NULL if there is none), with one more reference; that socket and the closed ones before
  it leave the list with their links clear, and the rest of the list stays. No other field of a
  descriptor changes, and no other descriptor: in particular no other socket is referenced.\<close>

theorem pop_pending_takes_first_open:
  assumes "pending_list s task xs" and "PendingLock task \<notin> set (held s)"
    and "\<forall>x \<in> set xs. CloseLock x \<notin> set (held s)"
  shows "\<exists>s'. anscheduler_task_pop_pending task s = Ret (first_of (dropWhile (\<lambda>x. \<not> open_desc s x) xs)) s' \<and>
    pending_list s' task (tl (dropWhile (\<lambda>x. \<not> open_desc s x) xs)) \<and> held s' = held s \<and>
    (\<forall>x \<in> set xs - set (tl (dropWhile (\<lambda>x. \<not> open_desc s x) xs)). not_listed s' x) \<and>
    (\<forall>x d. descs s x = Some d \<longrightarrow> descs s' x = Some
       (if x \<notin> set xs \<or> x \<in> set (tl (dropWhile (\<lambda>x. \<not> open_desc s x) xs)) then d
        else if open_desc s x
          then d\<lparr>d_pendingLast := NULL, d_pendingNext := NULL, d_refCount := d_refCount d + 1\<rparr>
          else d\<lparr>d_pendingLast := NULL, d_pendingNext := NULL\<rparr>))"
proof -
  let ?rest = "tl (dropWhile (\<lambda>x. \<not> open_desc s x) xs)"
  obtain s' where s': "anscheduler_task_pop_pending task s = Ret (first_of (dropWhile (\<lambda>x. \<not> open_desc s x) xs)) s'"
    "pending_list s' task ?rest" "held s' = held s" "descs s' = take_descs (set xs - set ?rest) (descs s)"
    using pop_pending_refines[OF assms] by blast
  have "not_listed s' x" if "x \<in> set xs - set ?rest" for x
    using take_descs_clears[OF s'(4) that] that assms(1) by (auto simp: pending_list_def)
  then show ?thesis
    using s' by (intro exI[of _ s']) (auto simp: take_descs_def taken_desc_def open_desc_def)
qed

lemma sl_ex_open: "open_desc sl_ex 0x100"
  by (simp add: open_desc_def sl_ex_task zero_desc_def)

theorem pop_pending_takes_first_open_witness:
  "\<exists>s'. anscheduler_task_pop_pending 0xA0000 sl_ex = Ret 0x100 s' \<and> pending_list s' 0xA0000 [0x200] \<and>
    not_listed s' 0x100 \<and> map_option d_refCount (descs s' 0x100) = Some 2 \<and>
    map_option d_refCount (descs s' 0x200) = Some 1"
  using pop_pending_takes_first_open[OF sl_ex_pending] sl_ex_task(2,5,6) sl_ex_open by (fastforce simp: zero_desc_def)

text \<open>After a pop, the socket that has become first in the pending list cannot be taken out of it:
  \<open>anscheduler_task_pop_pending\<close> leaves its back link pointing to the popped socket, so
  \<open>anscheduler_task_not_pending\<close> writes to the popped socket and the removed one stays first,
  with both its links clear. When the removed socket is freed next, as
  \<open>anscheduler_socket_dereference\<close> does, the list starts with a dangling pointer.\<close>

lemma not_pending_after_pop_stays:
  assumes "tasks s task = Some tk" and "t_firstPending tk = a" and "a \<noteq> NULL" and "b \<noteq> NULL" and "a \<noteq> b"
    and "descs s a = Some da" and "d_pendingNext da = b" and "d_isClosed da = 0"
    and "descs s b = Some db" and "d_pendingLast db = a" and "d_pendingNext db = NULL"
    and "PendingLock task \<notin> set (held s)" and "CloseLock a \<notin> set (held s)"
  shows "\<exists>s1 s2 tk'. anscheduler_task_pop_pending task s = Ret a s1 \<and>
    anscheduler_task_not_pending task b s1 = Ret () s2 \<and>
    tasks s2 task = Some tk' \<and> t_firstPending tk' = b \<and> not_listed s2 b"
proof -
  let ?h = "PendingLock task # held s"
  let ?da = "da\<lparr>d_pendingLast := NULL, d_pendingNext := NULL\<rparr>"
  let ?t = "(tasks s)(task \<mapsto> tk\<lparr>t_firstPending := b\<rparr>)"
  let ?sp = "s\<lparr>tasks := ?t, descs := (descs s)(a \<mapsto> ?da), held := ?h\<rparr>"
  let ?s1 = "s\<lparr>tasks := ?t, descs := (descs s)(a \<mapsto> ?da\<lparr>d_refCount := d_refCount da + 1\<rparr>)\<rparr>"
  have ref: "anscheduler_socket_reference a ?sp = Ret True (?s1\<lparr>held := ?h\<rparr>)"
    using socket_reference_runs[of ?sp a ?da] assms(8,13) by (simp add: sched_order)
  have "pop_pending_round task a (s\<lparr>held := ?h\<rparr>) = Ret (Inr a) ?s1"
    using assms(1,3,6,7) ref by (simp add: pop_pending_round_def kern sched_order)
  then have pop: "anscheduler_task_pop_pending task s = Ret a ?s1"
    using assms(1,2,12) by (simp add: anscheduler_task_pop_pending_def kern kwhile_done)
  have "\<exists>s2. anscheduler_task_not_pending task b ?s1 = Ret () s2 \<and> tasks s2 = ?t \<and>
    descs s2 b = Some (db\<lparr>d_pendingLast := NULL, d_pendingNext := NULL\<rparr>)"
    using assms(3,4,5,9-12) by (simp add: anscheduler_task_not_pending_def kern sched_order)
  then show ?thesis using pop by (auto simp: not_listed_def)
qed

lemma not_pending_after_pop_stays_example:
  "\<exists>s1 s2 tk'. anscheduler_task_pop_pending 0xA0000 sl_ex = Ret 0x100 s1 \<and>
    anscheduler_task_not_pending 0xA0000 0x200 s1 = Ret () s2 \<and>
    tasks s2 0xA0000 = Some tk' \<and> t_firstPending tk' = 0x200 \<and> not_listed s2 0x200"
  using not_pending_after_pop_stays[OF sl_ex_task(1), of "0x100" "0x200"] sl_ex_task
  by (auto simp: zero_desc_def)

end
