(* ===== verification/Socket.thy ===== *)
theory Socket
  imports Loop Socket_List
begin

unbundle bit_operations_syntax

text \<open>
  Sockets (\<open>src/socket.c\<close>): creating, connecting and closing them, sending and reading messages,
  waking up the task at the other end, and freeing a socket when both ends have hung up.

  A socket has two ends, the connector and the receiver, each described by a
  \<open>socket_desc_t\<close>, and two message queues, one for each end. Code that runs in a kernel thread
  (\<open>_socket_hangup\<close>, \<open>_async_msg\<close>) is modelled from its start to the point where it gives up the
  CPU; what \<open>_socket_hangup\<close> does after \<open>_wakeup_endpoint\<close> is \<open>hangup_finish\<close>.
\<close>

subsection \<open>Message queues\<close>

definition MSG_TYPE_CONNECT :: u64 where "MSG_TYPE_CONNECT = 0"
definition MSG_TYPE_DATA :: u64 where "MSG_TYPE_DATA = 1"
definition MSG_TYPE_CLOSE :: u64 where "MSG_TYPE_CLOSE = 2"
definition SOCKET_MSG_MAX :: u64 where "SOCKET_MSG_MAX = 0x10"

text \<open>
  The four pointers \<open>lock\<close>, \<open>count\<close>, \<open>first\<close> and \<open>last\<close> that the C code sets up from
  \<open>isConnector\<close>, as functions of it.
\<close>

definition q_lock :: "bool \<Rightarrow> addr \<Rightarrow> lockid" where
  "q_lock c sock = (if c then ForConnectorLock sock else ForReceiverLock sock)"

definition q_count :: "bool \<Rightarrow> socket_t \<Rightarrow> u64" where
  "q_count c sk = (if c then sk_forConnectorCount sk else sk_forReceiverCount sk)"

definition q_first :: "bool \<Rightarrow> socket_t \<Rightarrow> addr" where
  "q_first c sk = (if c then sk_forConnectorFirst sk else sk_forReceiverFirst sk)"

definition q_last :: "bool \<Rightarrow> socket_t \<Rightarrow> addr" where
  "q_last c sk = (if c then sk_forConnectorLast sk else sk_forReceiverLast sk)"

definition set_q_count :: "bool \<Rightarrow> u64 \<Rightarrow> socket_t \<Rightarrow> socket_t" where
  "set_q_count c n sk = (if c then sk\<lparr>sk_forConnectorCount := n\<rparr> else sk\<lparr>sk_forReceiverCount := n\<rparr>)"

definition set_q_first :: "bool \<Rightarrow> addr \<Rightarrow> socket_t \<Rightarrow> socket_t" where
  "set_q_first c p sk = (if c then sk\<lparr>sk_forConnectorFirst := p\<rparr> else sk\<lparr>sk_forReceiverFirst := p\<rparr>)"

definition set_q_last :: "bool \<Rightarrow> addr \<Rightarrow> socket_t \<Rightarrow> socket_t" where
  "set_q_last c p sk = (if c then sk\<lparr>sk_forConnectorLast := p\<rparr> else sk\<lparr>sk_forReceiverLast := p\<rparr>)"

definition push_message :: "addr \<Rightarrow> addr \<Rightarrow> ('v, bool) kern" where
  "push_message dest msg =
     bnd (rd_desc dest) (\<lambda>d.
     let c = d_isConnector d \<noteq> 0; sock = d_socket d in
     bnd (anscheduler_lock (q_lock c sock)) (\<lambda>_.
     bnd (rd_msg msg) (\<lambda>m.
     bnd (rd_socket sock) (\<lambda>sk.
     if m_type m = MSG_TYPE_DATA \<and> SOCKET_MSG_MAX \<le> q_count c sk then
       bnd (anscheduler_unlock (q_lock c sock)) (\<lambda>_. ret False)
     else
       bnd (wr_socket sock (\<lambda>sk. set_q_count c (q_count c sk + 1) sk)) (\<lambda>_.
       bnd (wr_msg msg (\<lambda>m. m\<lparr>m_next := NULL\<rparr>)) (\<lambda>_.
       bnd (rd_socket sock) (\<lambda>sk.
       bnd (if q_last c sk = NULL then
              wr_socket sock (\<lambda>sk. set_q_last c msg (set_q_first c msg sk))
            else
              bnd (wr_msg (q_last c sk) (\<lambda>m. m\<lparr>m_next := msg\<rparr>)) (\<lambda>_.
              wr_socket sock (\<lambda>sk. set_q_last c msg sk))) (\<lambda>_.
       bnd (anscheduler_unlock (q_lock c sock)) (\<lambda>_.
       ret True)))))))))"

definition anscheduler_socket_read :: "addr \<Rightarrow> ('v, addr) kern" where
  "anscheduler_socket_read dest =
     bnd (rd_desc dest) (\<lambda>d.
     let c = d_isConnector d \<noteq> 0; sock = d_socket d in
     bnd (anscheduler_lock (q_lock c sock)) (\<lambda>_.
     bnd (rd_socket sock) (\<lambda>sk.
     if q_count c sk = 0 then
       bnd (anscheduler_unlock (q_lock c sock)) (\<lambda>_. ret NULL)
     else
       let res = q_first c sk in
       bnd (rd_msg res) (\<lambda>m.
       bnd (if m_next m = NULL then
              wr_socket sock (\<lambda>sk. set_q_first c NULL (set_q_last c NULL sk))
            else
              wr_socket sock (\<lambda>sk. set_q_first c (m_next m) sk)) (\<lambda>_.
       bnd (wr_socket sock (\<lambda>sk. set_q_count c (q_count c sk - 1) sk)) (\<lambda>_.
       bnd (wr_msg res (\<lambda>m. m\<lparr>m_next := NULL\<rparr>)) (\<lambda>_.
       bnd (anscheduler_unlock (q_lock c sock)) (\<lambda>_.
       ret res))))))))"

text \<open>What a freshly allocated message holds before it is written.\<close>

definition fresh_msg :: "'v plat \<Rightarrow> addr \<Rightarrow> socket_msg_t" where
  "fresh_msg P p = \<lparr>m_next = pf_junk P p, m_type = pf_junk P (p + 8), m_len = pf_junk P (p + 16),
     m_message = (\<lambda>i. ucast (pf_junk P (p + 24 + of_nat i)))\<rparr>"

text \<open>Writing \<open>message[i]\<close>, an array of 0xfe8 bytes.\<close>

definition wr_byte :: "addr \<Rightarrow> nat \<Rightarrow> u8 \<Rightarrow> ('v, unit) kern" where
  "wr_byte msg i b = (if i < 0xfe8 then wr_msg msg (\<lambda>m. m\<lparr>m_message := (m_message m)(i := b)\<rparr>)
     else crash BadIndex)"

definition anscheduler_socket_msg_data :: "'v plat \<Rightarrow> (nat \<Rightarrow> u8) \<Rightarrow> u64 \<Rightarrow> ('v, addr) kern" where
  "anscheduler_socket_msg_data P source len =
     (if 0xfe8 \<le> len then ret NULL
      else
        bnd (anscheduler_alloc P sizeof_socket_msg_t) (\<lambda>msg.
        if msg = NULL then ret NULL
        else
          bnd (new_msg msg (fresh_msg P msg)) (\<lambda>_.
          bnd (wr_msg msg (\<lambda>m. m\<lparr>m_type := MSG_TYPE_DATA\<rparr>)) (\<lambda>_.
          bnd (wr_msg msg (\<lambda>m. m\<lparr>m_len := len\<rparr>)) (\<lambda>_.
          bnd (kfor 0 (unat len) (\<lambda>i. wr_byte msg i (source i))) (\<lambda>_.
          ret msg))))))"

subsection \<open>Creating, closing and releasing\<close>

definition create_descriptor :: "'v plat \<Rightarrow> addr \<Rightarrow> addr \<Rightarrow> bool \<Rightarrow> ('v, addr) kern" where
  "create_descriptor P socket task isConnector =
     bnd (anscheduler_alloc P sizeof_socket_desc_t) (\<lambda>desc.
     if desc = NULL then ret NULL
     else
       bnd (new_desc desc zero_desc) (\<lambda>_.
       bnd (wr_desc desc (\<lambda>d. d\<lparr>d_socket := socket\<rparr>)) (\<lambda>_.
       bnd (wr_desc desc (\<lambda>d. d\<lparr>d_task := task\<rparr>)) (\<lambda>_.
       bnd (wr_desc desc (\<lambda>d. d\<lparr>d_refCount := 1\<rparr>)) (\<lambda>_.
       bnd (wr_desc desc (\<lambda>d. d\<lparr>d_isConnector := (if isConnector then 1 else 0)\<rparr>)) (\<lambda>_.
       bnd (anscheduler_lock (DescriptorsLock task)) (\<lambda>_.
       bnd (rd_task task) (\<lambda>tk.
       bnd (anidxset_get (t_descriptors tk)) (\<lambda>(x, root).
       bnd (wr_task task (\<lambda>t. t\<lparr>t_descriptors := root\<rparr>)) (\<lambda>_.
       bnd (wr_desc desc (\<lambda>d. d\<lparr>d_descriptor := x\<rparr>)) (\<lambda>_.
       bnd (anscheduler_unlock (DescriptorsLock task)) (\<lambda>_.
       bnd (anscheduler_lock (ConnRecLock socket)) (\<lambda>_.
       bnd (if isConnector then wr_socket socket (\<lambda>sk. sk\<lparr>sk_connector := desc\<rparr>)
            else wr_socket socket (\<lambda>sk. sk\<lparr>sk_receiver := desc\<rparr>)) (\<lambda>_.
       bnd (anscheduler_unlock (ConnRecLock socket)) (\<lambda>_.
       bnd (anscheduler_descriptor_set task desc) (\<lambda>_.
       ret desc))))))))))))))))"

definition anscheduler_socket_new :: "'v plat \<Rightarrow> ('v, addr) kern" where
  "anscheduler_socket_new P =
     bnd (anscheduler_alloc P sizeof_socket_t) (\<lambda>socket.
     if socket = NULL then ret NULL
     else
       bnd (new_socket socket zero_socket) (\<lambda>_.
       bnd anscheduler_cpu_get_task (\<lambda>task.
       create_descriptor P socket task True)))"

definition anscheduler_socket_close :: "addr \<Rightarrow> u64 \<Rightarrow> ('v, unit) kern" where
  "anscheduler_socket_close socket code =
     bnd (anscheduler_lock (CloseLock socket)) (\<lambda>_.
     bnd (rd_desc socket) (\<lambda>d.
     bnd (cond (d_isClosed d = 0) (wr_desc socket (\<lambda>d. d\<lparr>d_closeCode := code\<rparr>))) (\<lambda>_.
     bnd (wr_desc socket (\<lambda>d. d\<lparr>d_isClosed := 1\<rparr>)) (\<lambda>_.
     anscheduler_unlock (CloseLock socket)))))"

definition anscheduler_socket_dereference :: "'v plat \<Rightarrow> addr \<Rightarrow> ('v, unit) kern" where
  "anscheduler_socket_dereference P socket =
     bnd (anscheduler_lock (CloseLock socket)) (\<lambda>_.
     bnd (rd_desc socket) (\<lambda>d.
     if d_isClosed d \<noteq> 0 \<and> d_refCount d = 0 then
       anscheduler_unlock (CloseLock socket)
     else
       bnd (wr_desc socket (\<lambda>d. d\<lparr>d_refCount := d_refCount d - 1\<rparr>)) (\<lambda>_.
       bnd (rd_desc socket) (\<lambda>d.
       if d_refCount d = 0 \<and> d_isClosed d \<noteq> 0 then
         bnd (anscheduler_unlock (CloseLock socket)) (\<lambda>_.
         bnd (rd_desc socket) (\<lambda>d.
         bnd (anscheduler_task_not_pending (d_task d) socket) (\<lambda>_.
         bnd (rd_desc socket) (\<lambda>d.
         bnd (anscheduler_descriptor_delete P (d_task d) socket) (\<lambda>_.
         anscheduler_loop_push_kernel P socket Socket_hangup)))))
       else anscheduler_unlock (CloseLock socket)))))"

text \<open>
  The end of a socket opposite to a given one, referenced; NULL if it is gone or closed. The
  caller holds \<open>connRecLock\<close>. The same lines stand in \<open>anscheduler_socket_msg\<close>,
  \<open>anscheduler_socket_remote\<close> and \<open>_socket_hangup\<close>.
\<close>

definition reference_other_end :: "addr \<Rightarrow> addr \<Rightarrow> ('v, addr) kern" where
  "reference_other_end socket sock =
     bnd (rd_desc socket) (\<lambda>d.
     bnd (rd_socket sock) (\<lambda>sk.
     let otherEnd = (if d_isConnector d \<noteq> 0 then sk_receiver sk else sk_connector sk) in
     if otherEnd \<noteq> NULL then
       bnd (anscheduler_socket_reference otherEnd) (\<lambda>ok. ret (if ok then otherEnd else NULL))
     else ret NULL))"

definition anscheduler_socket_remote :: "'v plat \<Rightarrow> addr \<Rightarrow> ('v, addr) kern" where
  "anscheduler_socket_remote P socket =
     bnd (rd_desc socket) (\<lambda>d.
     let sock = d_socket d in
     bnd (anscheduler_lock (ConnRecLock sock)) (\<lambda>_.
     bnd (reference_other_end socket sock) (\<lambda>otherEnd.
     bnd (anscheduler_unlock (ConnRecLock sock)) (\<lambda>_.
     if otherEnd = NULL then ret NULL
     else
       bnd (rd_desc otherEnd) (\<lambda>e.
       let task = d_task e in
       bnd (anscheduler_task_reference task) (\<lambda>res.
       bnd (anscheduler_socket_dereference P otherEnd) (\<lambda>_.
       ret (if res then task else NULL))))))))"

subsection \<open>Sending\<close>

definition switch_continuation :: "'v plat \<Rightarrow> addr \<Rightarrow> ('v, unit) kern" where
  "switch_continuation P thread =
     bnd (rd_thread thread) (\<lambda>th.
     anscheduler_loop_switch P (th_task th) thread)"

text \<open>The search for a polling thread of the task; it is no longer polling when it is found.\<close>

definition find_polling_round :: "addr \<Rightarrow> addr \<Rightarrow> ('v, addr + addr) kern" where
  "find_polling_round task thread =
     (if thread = NULL then
        bnd (anscheduler_unlock (ThreadsLock task)) (\<lambda>_. ret (Inr NULL))
      else
        bnd (rd_thread thread) (\<lambda>th.
        bnd (wr_thread thread (\<lambda>t. t\<lparr>th_isPolling := False\<rparr>)) (\<lambda>_.
        if th_isPolling th then
          bnd (anscheduler_unlock (ThreadsLock task)) (\<lambda>_. ret (Inr thread))
        else
          bnd (rd_thread thread) (\<lambda>th. ret (Inl (th_next th))))))"

definition wakeup_endpoint :: "'v plat \<Rightarrow> addr \<Rightarrow> ('v, unit) kern" where
  "wakeup_endpoint P dest =
     bnd (rd_desc dest) (\<lambda>d.
     bnd (anscheduler_task_reference (d_task d)) (\<lambda>ok.
     if \<not> ok then anscheduler_socket_dereference P dest
     else
       bnd (rd_desc dest) (\<lambda>d.
       let task = d_task d in
       bnd (anscheduler_task_pending task dest) (\<lambda>_.
       bnd (anscheduler_socket_dereference P dest) (\<lambda>_.
       bnd (anscheduler_lock (ThreadsLock task)) (\<lambda>_.
       bnd (rd_task task) (\<lambda>tk.
       bnd (kwhile (find_polling_round task) (t_firstThread tk)) (\<lambda>thread.
       if thread \<noteq> NULL then
         bnd anscheduler_cpu_get_thread (\<lambda>curThread.
         anscheduler_save_return_state curThread thread (switch_continuation P))
       else
         bnd (rd_desc dest) (\<lambda>d.
         anscheduler_task_dereference P (d_task d))))))))))"

definition anscheduler_socket_msg :: "'v plat \<Rightarrow> addr \<Rightarrow> addr \<Rightarrow> ('v, bool) kern" where
  "anscheduler_socket_msg P socket msg =
     bnd (rd_desc socket) (\<lambda>d.
     let sock = d_socket d in
     bnd (anscheduler_lock (ConnRecLock sock)) (\<lambda>_.
     bnd (reference_other_end socket sock) (\<lambda>otherEnd.
     bnd (anscheduler_unlock (ConnRecLock sock)) (\<lambda>_.
     if otherEnd = NULL then ret False
     else
       bnd (push_message otherEnd msg) (\<lambda>ok.
       if \<not> ok then
         bnd (anscheduler_socket_dereference P otherEnd) (\<lambda>_. ret False)
       else
         bnd (anscheduler_socket_dereference P socket) (\<lambda>_.
         bnd (wakeup_endpoint P otherEnd) (\<lambda>_.
         ret True)))))))"

definition anscheduler_socket_msg_async :: "'v plat \<Rightarrow> addr \<Rightarrow> addr \<Rightarrow> ('v, unit) kern" where
  "anscheduler_socket_msg_async P socket msg =
     bnd (anscheduler_socket_reference socket) (\<lambda>ok.
     if \<not> ok then anscheduler_free_msg msg
     else
       bnd (anscheduler_alloc P sizeof_msginfo_t) (\<lambda>info.
       if info = NULL then anscheduler_abort ''failed to allocate async message info''
       else
         bnd (new_info info \<lparr>mi_message = msg, mi_descriptor = socket\<rparr>) (\<lambda>_.
         anscheduler_loop_push_kernel P info Async_msg)))"

definition anscheduler_socket_connect :: "'v plat \<Rightarrow> addr \<Rightarrow> addr \<Rightarrow> ('v, bool) kern" where
  "anscheduler_socket_connect P socket task =
     bnd (rd_desc socket) (\<lambda>d.
     bnd (rd_socket (d_socket d)) (\<lambda>sk.
     bnd (wr_socket (d_socket d) (\<lambda>k. k\<lparr>sk_hasBeenConnected := sk_hasBeenConnected k OR 1\<rparr>)) (\<lambda>_.
     if sk_hasBeenConnected sk \<noteq> 0 then ret False
     else
       bnd (rd_desc socket) (\<lambda>d.
       bnd (create_descriptor P (d_socket d) task False) (\<lambda>link.
       if link = NULL then ret False
       else
         bnd (anscheduler_task_dereference P task) (\<lambda>_.
         bnd (anscheduler_socket_dereference P link) (\<lambda>_.
         bnd (anscheduler_alloc P sizeof_socket_msg_t) (\<lambda>msg.
         if msg = NULL then anscheduler_abort ''failed to allocate connect message''
         else
           bnd (new_msg msg (fresh_msg P msg)) (\<lambda>_.
           bnd (wr_msg msg (\<lambda>m. m\<lparr>m_type := MSG_TYPE_CONNECT\<rparr>)) (\<lambda>_.
           bnd (wr_msg msg (\<lambda>m. m\<lparr>m_len := 0\<rparr>)) (\<lambda>_.
           bnd (anscheduler_socket_msg P socket msg) (\<lambda>ok.
           if \<not> ok then anscheduler_abort ''failed to send connect message''
           else ret True))))))))))))"

definition async_msg :: "'v plat \<Rightarrow> addr \<Rightarrow> ('v, unit) kern" where
  "async_msg P info_ptr =
     bnd anscheduler_cpu_lock (\<lambda>_.
     bnd (rd_info info_ptr) (\<lambda>info.
     bnd (anscheduler_free_info info_ptr) (\<lambda>_.
     bnd (anscheduler_socket_msg P (mi_descriptor info) (mi_message info)) (\<lambda>ok.
     bnd (cond (\<not> ok)
            (bnd (anscheduler_free_msg (mi_message info)) (\<lambda>_.
             anscheduler_socket_dereference P (mi_descriptor info)))) (\<lambda>_.
     anscheduler_loop_delete_cur_kernel P)))))"

subsection \<open>Hanging up\<close>

definition free_queue_round :: "bool \<Rightarrow> addr \<Rightarrow> unit \<Rightarrow> ('v, unit + unit) kern" where
  "free_queue_round c socket u =
     bnd anscheduler_cpu_lock (\<lambda>_.
     bnd (rd_socket socket) (\<lambda>sk.
     if q_first c sk = NULL then
       bnd anscheduler_cpu_unlock (\<lambda>_. ret (Inr ()))
     else
       let msg = q_first c sk in
       bnd (rd_msg msg) (\<lambda>m.
       bnd (wr_socket socket (\<lambda>sk. set_q_first c (m_next m) sk)) (\<lambda>_.
       bnd (anscheduler_free_msg msg) (\<lambda>_.
       bnd anscheduler_cpu_unlock (\<lambda>_.
       ret (Inl ())))))))"

definition socket_free :: "addr \<Rightarrow> ('v, unit) kern" where
  "socket_free socket =
     bnd (kwhile (free_queue_round True socket) ()) (\<lambda>_.
     bnd (kwhile (free_queue_round False socket) ()) (\<lambda>_.
     bnd anscheduler_cpu_lock (\<lambda>_.
     bnd (anscheduler_free_socket socket) (\<lambda>_.
     anscheduler_cpu_unlock))))"

text \<open>An end of a socket gives up its place; the socket is to be freed if both ends have.\<close>

definition leave_socket :: "addr \<Rightarrow> addr \<Rightarrow> ('v, bool) kern" where
  "leave_socket socket sock =
     bnd (rd_desc socket) (\<lambda>d.
     bnd (if d_isConnector d \<noteq> 0 then wr_socket sock (\<lambda>k. k\<lparr>sk_connector := NULL\<rparr>)
          else wr_socket sock (\<lambda>k. k\<lparr>sk_receiver := NULL\<rparr>)) (\<lambda>_.
     bnd (rd_socket sock) (\<lambda>sk.
     ret (sk_receiver sk = sk_connector sk))))"

text \<open>Freeing the descriptor, and the socket when it is the last one.\<close>

definition release_end :: "addr \<Rightarrow> addr \<Rightarrow> bool \<Rightarrow> ('v, unit) kern" where
  "release_end socket sock shouldFree =
     bnd (anscheduler_free_desc socket) (\<lambda>_.
     cond shouldFree
       (bnd anscheduler_cpu_unlock (\<lambda>_.
        bnd (socket_free sock) (\<lambda>_.
        anscheduler_cpu_lock))))"

text \<open>What \<open>_socket_hangup\<close> does after \<open>_wakeup_endpoint\<close> has returned or the thread runs again.\<close>

definition hangup_finish :: "'v plat \<Rightarrow> addr \<Rightarrow> addr \<Rightarrow> ('v, unit) kern" where
  "hangup_finish P socket sock =
     bnd (anscheduler_lock (ConnRecLock sock)) (\<lambda>_.
     bnd (leave_socket socket sock) (\<lambda>shouldFree.
     bnd (anscheduler_unlock (ConnRecLock sock)) (\<lambda>_.
     bnd (release_end socket sock shouldFree) (\<lambda>_.
     anscheduler_loop_delete_cur_kernel P))))"

definition socket_hangup :: "'v plat \<Rightarrow> addr \<Rightarrow> ('v, unit) kern" where
  "socket_hangup P socket =
     bnd anscheduler_cpu_lock (\<lambda>_.
     bnd (rd_desc socket) (\<lambda>d.
     let sock = d_socket d in
     bnd (anscheduler_lock (ConnRecLock sock)) (\<lambda>_.
     bnd (reference_other_end socket sock) (\<lambda>otherEnd.
     bnd (if otherEnd = NULL then leave_socket socket sock else ret False) (\<lambda>shouldFree.
     bnd (anscheduler_unlock (ConnRecLock sock)) (\<lambda>_.
     if otherEnd = NULL then
       bnd (release_end socket sock shouldFree) (\<lambda>_.
       anscheduler_loop_delete_cur_kernel P)
     else
       bnd (anscheduler_alloc P sizeof_socket_msg_t) (\<lambda>msg.
       if msg = NULL then anscheduler_abort ''failed to allocate close message!''
       else
         bnd (new_msg msg (fresh_msg P msg)) (\<lambda>_.
         bnd (wr_msg msg (\<lambda>m. m\<lparr>m_type := MSG_TYPE_CLOSE\<rparr>)) (\<lambda>_.
         bnd (wr_msg msg (\<lambda>m. m\<lparr>m_len := 8\<rparr>)) (\<lambda>_.
         bnd (rd_desc socket) (\<lambda>d.
         bnd (wr_msg msg (\<lambda>m. m\<lparr>m_message := (\<lambda>i. if i < 8 then ucast (drop_bit (8 * i) (d_closeCode d))
                                                   else m_message m i)\<rparr>)) (\<lambda>_.
         bnd (push_message otherEnd msg) (\<lambda>_.
         bnd (wakeup_endpoint P otherEnd) (\<lambda>_.
         hangup_finish P socket sock))))))))))))))"

end
