(* ===== verification/Fifo.thy ===== *)
theory Fifo
  imports Kernel_State
begin

text \<open>
  What the reader of a first-in-first-out queue relies on, as the locale \<open>fifo\<close>. It is interpreted
  on the inbox of a socket end (theory \<open>Socket_Queue\<close>) and on the queue of page faults (theory
  \<open>Paging\<close>).
\<close>

text \<open>Reading \<open>n\<close> elements.\<close>

fun drain :: "(addr \<Rightarrow> bool) \<Rightarrow> nat \<Rightarrow> ('s \<Rightarrow> (crash, ctl, addr, 's) outcome) \<Rightarrow> 's \<Rightarrow>
    (crash, ctl, addr list, 's) outcome" where
  "drain ok 0 deq = ret []"
| "drain ok (Suc n) deq = bnd deq (\<lambda>x. bnd (drain ok n deq) (\<lambda>xs. ret (if ok x then x # xs else xs)))"

locale fifo =
  fixes rep :: "'s \<Rightarrow> addr list \<Rightarrow> bool" and deq :: "'s \<Rightarrow> (crash, ctl, addr, 's) outcome"
  assumes deq_Nil: "rep s [] \<Longrightarrow> deq s = Ret NULL s"
    and deq_Cons: "rep s (x # xs) \<Longrightarrow> \<exists>s'. deq s = Ret x s' \<and> rep s' xs"
    and rep_nonnull: "rep s xs \<Longrightarrow> NULL \<notin> set xs"
begin

text \<open>Enough reads return all the elements in order and leave the queue empty.\<close>

lemma drain_all:
  assumes "rep s xs" and "length xs \<le> n"
  shows "\<exists>s'. drain (\<lambda>x. x \<noteq> NULL) n deq s = Ret xs s' \<and> rep s' []"
  using assms
proof (induction n arbitrary: s xs)
  case 0
  then show ?case by (simp add: kern)
next
  case (Suc n)
  show ?case
  proof (cases xs)
    case Nil
    then obtain s' where "drain (\<lambda>x. x \<noteq> NULL) n deq s = Ret [] s'" "rep s' []"
      using Suc.IH[OF Suc.prems(1)] by auto
    then show ?thesis using Nil Suc.prems deq_Nil by (auto simp: kern)
  next
    case (Cons y ys)
    then obtain s1 where s1: "deq s = Ret y s1" "rep s1 ys" using deq_Cons[of s y ys] Suc.prems(1) by auto
    then obtain s' where "drain (\<lambda>x. x \<noteq> NULL) n deq s1 = Ret ys s'" "rep s' []"
      using Suc Cons by auto
    moreover have "y \<noteq> NULL" using rep_nonnull[OF Suc.prems(1)] Cons by auto
    ultimately show ?thesis using Cons s1 by (auto simp: kern)
  qed
qed

end

end
