(* ===== verification/Socket_Queue.thy ===== *)
theory Socket_Queue
  imports Socket Fifo
begin

text \<open>
  The message queues of \<open>src/socket.c\<close> are first-in-first-out queues with a bound on data
  messages. The locale \<open>fifo\<close> is what a reader relies on; it is interpreted on the inbox of a
  socket end.
\<close>

definition msg_queue :: "'v sched \<Rightarrow> addr \<Rightarrow> bool \<Rightarrow> addr list \<Rightarrow> bool" where
  "msg_queue s sock c ms \<longleftrightarrow>
     (\<exists>sk. sockets s sock = Some sk \<and> q_first c sk = first_of ms \<and> q_last c sk = last_of ms \<and>
           q_count c sk = of_nat (length ms)) \<and>
     slist (fld m_next (msgs s)) ms \<and> (\<forall>m \<in> set ms. msgs s m \<noteq> None)"

text \<open>The messages that wait for a socket end, with the lock of the queue free.\<close>

definition inbox :: "addr \<Rightarrow> 'v sched \<Rightarrow> addr list \<Rightarrow> bool" where
  "inbox dest s ms \<longleftrightarrow> (\<exists>d. descs s dest = Some d \<and>
     msg_queue s (d_socket d) (d_isConnector d \<noteq> 0) ms \<and>
     q_lock (d_isConnector d \<noteq> 0) (d_socket d) \<notin> set (held s))"

text \<open>The contents of the messages, without the link.\<close>

definition msg_core :: "socket_msg_t \<Rightarrow> socket_msg_t" where
  "msg_core m = m\<lparr>m_next := NULL\<rparr>"

text \<open>A connected socket with one data message waiting for the receiver, and a message to send.\<close>

definition sock_ex :: "flatvm sched" where
  "sock_ex = flat_boot\<lparr>
     sockets := [0x500 \<mapsto> zero_socket\<lparr>sk_connector := 0x100, sk_receiver := 0x200, sk_forReceiverCount := 1,
       sk_forReceiverFirst := 0x600, sk_forReceiverLast := 0x600, sk_hasBeenConnected := 1\<rparr>],
     descs := [0x100 \<mapsto> zero_desc\<lparr>d_socket := 0x500, d_isConnector := 1, d_refCount := 1\<rparr>,
       0x200 \<mapsto> zero_desc\<lparr>d_socket := 0x500, d_refCount := 1\<rparr>],
     msgs := [0x600 \<mapsto> \<lparr>m_next = NULL, m_type = 1, m_len = 1, m_message = (\<lambda>_. 7)\<rparr>,
       0x700 \<mapsto> \<lparr>m_next = 0xAAAA, m_type = 1, m_len = 1, m_message = (\<lambda>_. 8)\<rparr>]\<rparr>"

subsection \<open>The selectors\<close>

lemma q_simps [simp]:
  "q_count c (set_q_count c n sk) = n" "q_first c (set_q_count c n sk) = q_first c sk"
  "q_last c (set_q_count c n sk) = q_last c sk"
  "q_count c (set_q_first c p sk) = q_count c sk" "q_first c (set_q_first c p sk) = p"
  "q_last c (set_q_first c p sk) = q_last c sk"
  "q_count c (set_q_last c p sk) = q_count c sk" "q_first c (set_q_last c p sk) = q_first c sk"
  "q_last c (set_q_last c p sk) = p"
  by (simp_all add: q_count_def q_first_def q_last_def set_q_count_def set_q_first_def set_q_last_def)

lemma q_lock_live [simp]: "lock_live s (q_lock c sock) = (sockets s sock \<noteq> None)"
  by (simp add: q_lock_def)

subsection \<open>Sending\<close>

lemma push_message_full:
  assumes d: "descs s dest = Some d" and q: "msg_queue s (d_socket d) (d_isConnector d \<noteq> 0) ms"
    and l: "q_lock (d_isConnector d \<noteq> 0) (d_socket d) \<notin> set (held s)"
    and m: "msgs s msg = Some m" "m_type m = MSG_TYPE_DATA" and full: "SOCKET_MSG_MAX \<le> of_nat (length ms)"
  shows "push_message dest msg s = Ret False s"
proof -
  obtain sk where "sockets s (d_socket d) = Some sk" "q_count (d_isConnector d \<noteq> 0) sk = of_nat (length ms)"
    using q by (auto simp: msg_queue_def)
  then show ?thesis using d l m full by (simp add: push_message_def kern Let_def)
qed

lemma push_message_appends:
  assumes d: "descs s dest = Some d" and q: "msg_queue s (d_socket d) (d_isConnector d \<noteq> 0) ms"
    and l: "q_lock (d_isConnector d \<noteq> 0) (d_socket d) \<notin> set (held s)"
    and m: "msgs s msg = Some m" "msg \<notin> set ms" "msg \<noteq> NULL"
    and room: "m_type m \<noteq> MSG_TYPE_DATA \<or> \<not> SOCKET_MSG_MAX \<le> of_nat (length ms)"
  shows "\<exists>sk' ms'. push_message dest msg s = Ret True
      (s\<lparr>sockets := (sockets s)(d_socket d \<mapsto> sk'), msgs := ms'\<rparr>) \<and>
    msg_queue (s\<lparr>sockets := (sockets s)(d_socket d \<mapsto> sk'), msgs := ms'\<rparr>) (d_socket d)
      (d_isConnector d \<noteq> 0) (ms @ [msg]) \<and>
    (\<forall>p. map_option msg_core (ms' p) = map_option msg_core (msgs s p)) \<and>
    (\<forall>p. p \<notin> set (ms @ [msg]) \<longrightarrow> ms' p = msgs s p)"
proof -
  let ?c = "d_isConnector d \<noteq> 0" and ?k = "d_socket d"
  obtain sk where sk: "sockets s ?k = Some sk" "q_first ?c sk = first_of ms" "q_last ?c sk = last_of ms"
    "q_count ?c sk = of_nat (length ms)" and sl: "slist (fld m_next (msgs s)) ms"
    and ex: "\<forall>m \<in> set ms. msgs s m \<noteq> None"
    using q by (auto simp: msg_queue_def)
  let ?sk1 = "set_q_count ?c (q_count ?c sk + 1) sk"
  show ?thesis
  proof (cases ms rule: rev_cases)
    case Nil
    let ?sk = "set_q_last ?c msg (set_q_first ?c msg ?sk1)"
    let ?m = "(msgs s)(msg \<mapsto> m\<lparr>m_next := NULL\<rparr>)"
    have "push_message dest msg s = Ret True (s\<lparr>sockets := (sockets s)(?k \<mapsto> ?sk), msgs := ?m\<rparr>)"
      using d l m(1) sk room Nil by (auto simp: push_message_def kern Let_def sched_order)
    moreover have "msg_queue (s\<lparr>sockets := (sockets s)(?k \<mapsto> ?sk), msgs := ?m\<rparr>) ?k ?c (ms @ [msg])"
      using Nil m(3) sk(4) by (simp add: msg_queue_def slist_Cons fld_def)
    ultimately show ?thesis using m(1) by (intro exI[of _ ?sk] exI[of _ ?m]) (simp add: msg_core_def)
  next
    case (snoc ys y)
    obtain my where y: "msgs s y = Some my" "y \<noteq> msg" "y \<noteq> NULL"
      using ex m(2) snoc slist_nonnull[OF sl] by auto
    let ?sk = "set_q_last ?c msg ?sk1"
    let ?m = "(msgs s)(msg \<mapsto> m\<lparr>m_next := NULL\<rparr>, y \<mapsto> my\<lparr>m_next := msg\<rparr>)"
    have "push_message dest msg s = Ret True (s\<lparr>sockets := (sockets s)(?k \<mapsto> ?sk), msgs := ?m\<rparr>)"
      using d l m(1) y sk room snoc by (auto simp: push_message_def kern Let_def sched_order)
    moreover have "slist (fld m_next ?m) (ms @ [msg])"
      by (rule slist_push_back[OF sl m(3,2)])
         (use snoc y slist_distinct[OF sl] m(2) in \<open>auto simp: fld_def\<close>)
    then have "msg_queue (s\<lparr>sockets := (sockets s)(?k \<mapsto> ?sk), msgs := ?m\<rparr>) ?k ?c (ms @ [msg])"
      using sk snoc ex by (auto simp: msg_queue_def first_of_append last_of_append)
    ultimately show ?thesis
      using m(1) y snoc by (intro exI[of _ ?sk] exI[of _ ?m]) (simp add: msg_core_def)
  qed
qed

subsection \<open>Reading\<close>

lemma socket_read_empty:
  assumes "inbox dest s []"
  shows "anscheduler_socket_read dest s = Ret NULL s"
  using assms by (auto simp: inbox_def msg_queue_def anscheduler_socket_read_def kern Let_def)

lemma socket_read_first:
  assumes "inbox dest s (x # xs)"
  shows "\<exists>s'. anscheduler_socket_read dest s = Ret x s' \<and> inbox dest s' xs"
proof -
  obtain d where d: "descs s dest = Some d" and q: "msg_queue s (d_socket d) (d_isConnector d \<noteq> 0) (x # xs)"
    and l: "q_lock (d_isConnector d \<noteq> 0) (d_socket d) \<notin> set (held s)"
    using assms by (auto simp: inbox_def)
  let ?c = "d_isConnector d \<noteq> 0" and ?k = "d_socket d"
  obtain sk m where sk: "sockets s ?k = Some sk" "q_first ?c sk = x" "q_last ?c sk = last_of (x # xs)"
    "q_count ?c sk = of_nat (length (x # xs))" and sl: "slist (fld m_next (msgs s)) (x # xs)"
    and ex: "\<forall>m \<in> set (x # xs). msgs s m \<noteq> None" and m: "msgs s x = Some m"
    using q by (auto simp: msg_queue_def)
  have nx: "m_next m = first_of xs" "x \<notin> set xs" and slx: "slist (fld m_next (msgs s)) xs"
    using slist_at[OF sl] m by (simp_all add: fld_def)
  have nn: "NULL \<notin> set xs" using slist_nonnull[OF slx] .
  have "length (x # xs) < 2 ^ 64" using slist_length[OF sl] by (simp add: max_steps_def)
  then have cnt: "q_count ?c sk \<noteq> 0"
    unfolding sk(4) using word_of_nat_eq_0_iff[where ?'a = 64, of "length (x # xs)"] 
    by (auto dest!: dvd_imp_le)
  let ?m = "(msgs s)(x \<mapsto> m\<lparr>m_next := NULL\<rparr>)"
  have slm: "slist (fld m_next ?m) xs"
    using slx nx(2) by (simp add: slist_fld_frame)
  define sk' where "sk' = set_q_count ?c (q_count ?c sk - 1)
    (if xs = [] then set_q_first ?c NULL (set_q_last ?c NULL sk) else set_q_first ?c (first_of xs) sk)"
  let ?s = "s\<lparr>sockets := (sockets s)(?k \<mapsto> sk'), msgs := ?m\<rparr>"
  have "anscheduler_socket_read dest s = Ret x ?s"
    using d l sk(1,2) m nx(1) cnt nn
    by (cases "xs = []") (auto simp: anscheduler_socket_read_def kern Let_def sched_order sk'_def first_of_eq_NULL)
  moreover have "inbox dest ?s xs"
    using d l sk(3,4) slm ex nx(2) by (cases xs) (auto simp: inbox_def msg_queue_def sk'_def)
  ultimately show ?thesis by blast
qed

lemma inbox_nonnull: "inbox dest s ms \<Longrightarrow> NULL \<notin> set ms"
  by (auto simp: inbox_def msg_queue_def dest: slist_nonnull)

interpretation reader: fifo "inbox dest" "anscheduler_socket_read dest" for dest
  by unfold_locales (auto simp: socket_read_empty socket_read_first inbox_nonnull)

subsection \<open>Building a data message\<close>

lemma copy_loop:
  assumes "msgs s msg = Some m" and "n \<le> 0xfe8" and "i \<le> n"
  shows "kfor i n (\<lambda>i. wr_byte msg i (source i)) s = Ret ()
    (s\<lparr>msgs := (msgs s)(msg \<mapsto>
       m\<lparr>m_message := (\<lambda>j. if i \<le> j \<and> j < n then source j else m_message m j)\<rparr>)\<rparr>)"
  using assms
proof (induction "n - i" arbitrary: i s m)
  case 0
  then have i: "i = n" by simp
  have "(\<lambda>j. if n \<le> j \<and> j < n then source j else m_message m j) = m_message m"
    by (rule ext) auto
  then show ?case unfolding i using 0(2) by (simp add: kern fun_upd_idem)
next
  case (Suc k)
  then have lt: "i < n" by simp
  let ?m = "m\<lparr>m_message := (m_message m)(i := source i)\<rparr>"
  let ?s = "s\<lparr>msgs := (msgs s)(msg \<mapsto> ?m)\<rparr>"
  have "wr_byte msg i (source i) s = Ret () ?s"
    using Suc.prems(1,2) lt by (simp add: wr_byte_def kern)
  then have step: "kfor i n (\<lambda>i. wr_byte msg i (source i)) s = kfor (Suc i) n (\<lambda>i. wr_byte msg i (source i)) ?s"
    using lt by (rule kfor_step[rotated])
  have eq: "(\<lambda>j. if Suc i \<le> j \<and> j < n then source j else m_message ?m j) =
    (\<lambda>j. if i \<le> j \<and> j < n then source j else m_message m j)"
    using lt by (auto simp: fun_eq_iff)
  have "kfor (Suc i) n (\<lambda>i. wr_byte msg i (source i)) ?s = Ret ()
    (?s\<lparr>msgs := (msgs ?s)(msg \<mapsto>
       ?m\<lparr>m_message := (\<lambda>j. if Suc i \<le> j \<and> j < n then source j else m_message ?m j)\<rparr>)\<rparr>)"
    by (rule Suc.hyps(1)) (use Suc.hyps(2) Suc.prems lt in auto)
  then show ?case unfolding step eq by simp
qed

subsection \<open>Freeing a socket\<close>

text \<open>Freeing all the messages of one queue, however many there are.\<close>

lemma free_queue_loop:
  assumes "sockets s sock = Some sk" and "q_first c sk = first_of ms"
    and "slist (fld m_next (msgs s)) ms" and "\<forall>m \<in> set ms. msgs s m \<noteq> None" and "\<not> cpu_locked s"
    and "length ms < n"
  shows "kloop n Diverges (free_queue_round c sock) () s = Ret ()
    (s\<lparr>sockets := (sockets s)(sock \<mapsto> set_q_first c NULL sk), msgs := (msgs s) |` (- set ms)\<rparr>)"
  using assms
proof (induction ms arbitrary: s sk n)
  case Nil
  then obtain k where n: "n = Suc k" by (cases n) auto
  have same: "s\<lparr>cpu_locked := False\<rparr> = s" using Nil.prems(5) by (intro sched.equality) simp_all
  have "free_queue_round c sock () s = Ret (Inr ()) (s\<lparr>cpu_locked := False\<rparr>)"
    using Nil.prems(1,2,5) by (simp add: free_queue_round_def kern)
  then have "free_queue_round c sock () s = Ret (Inr ()) s" unfolding same .
  moreover have "set_q_first c NULL sk = sk"
    using Nil.prems(2) by (intro socket_t.equality) (simp_all add: q_first_def set_q_first_def split: if_splits)
  ultimately show ?case
    unfolding n using Nil.prems(1) by (simp add: kloop_done fun_upd_idem)
next
  case (Cons m ms)
  then obtain k where n: "n = Suc k" and k: "length ms < k" by (cases n) auto
  obtain v where v: "msgs s m = Some v" using Cons.prems(4) by auto
  have sl: "m_next v = first_of ms" "m \<notin> set ms" "m \<noteq> NULL" "slist (fld m_next (msgs s)) ms"
    using slist_at[OF Cons.prems(3)] v by (simp_all add: fld_Some)
  let ?s = "s\<lparr>sockets := (sockets s)(sock \<mapsto> set_q_first c (first_of ms) sk), msgs := (msgs s)(m := None)\<rparr>"
  have same: "s\<lparr>cpu_locked := True, sockets := a, msgs := b, cpu_locked := False\<rparr> = s\<lparr>sockets := a, msgs := b\<rparr>" for a b
    using Cons.prems(5) by (intro sched.equality) simp_all
  have "free_queue_round c sock () s = Ret (Inl ()) (s\<lparr>cpu_locked := True,
      sockets := (sockets s)(sock \<mapsto> set_q_first c (first_of ms) sk), msgs := (msgs s)(m := None),
      cpu_locked := False\<rparr>)"
    using Cons.prems(1,2,5) v sl(1,3) by (simp add: free_queue_round_def kern Let_def)
  then have r: "free_queue_round c sock () s = Ret (Inl ()) ?s" unfolding same .
  have "kloop k Diverges (free_queue_round c sock) () ?s = Ret ()
    (?s\<lparr>sockets := (sockets ?s)(sock \<mapsto> set_q_first c NULL (set_q_first c (first_of ms) sk)),
       msgs := (msgs ?s) |` (- set ms)\<rparr>)"
  proof (rule Cons.IH)
    show "slist (fld m_next (msgs ?s)) ms" using sl(2,4) by (simp add: slist_fld_frame)
    show "\<forall>m \<in> set ms. msgs ?s m \<noteq> None" using Cons.prems(4) sl(2) by auto
  qed (use Cons.prems(5) k in simp_all)
  moreover have "?s\<lparr>sockets := (sockets ?s)(sock \<mapsto> set_q_first c NULL (set_q_first c (first_of ms) sk)),
       msgs := (msgs ?s) |` (- set ms)\<rparr> =
    s\<lparr>sockets := (sockets s)(sock \<mapsto> set_q_first c NULL sk), msgs := (msgs s) |` (- set (m # ms))\<rparr>"
    by (intro sched.equality) (auto simp: set_q_first_def restrict_map_def fun_eq_iff)
  ultimately show ?case
    unfolding n kloop_next[where body = "free_queue_round c sock", OF r] by (simp only:)
qed

lemma socket_free_releases:
  assumes q1: "msg_queue s sock True ms1" and q2: "msg_queue s sock False ms2" and d: "set ms1 \<inter> set ms2 = {}"
    and c: "\<not> cpu_locked s"
  shows "socket_free sock s = Ret ()
    (s\<lparr>sockets := (sockets s)(sock := None), msgs := (msgs s) |` (- (set ms1 \<union> set ms2))\<rparr>)"
proof -
  obtain sk where sk: "sockets s sock = Some sk" "q_first True sk = first_of ms1" "q_first False sk = first_of ms2"
    using q1 q2 by (auto simp: msg_queue_def)
  have m1: "slist (fld m_next (msgs s)) ms1" "\<forall>m \<in> set ms1. msgs s m \<noteq> None"
    and m2: "slist (fld m_next (msgs s)) ms2" "\<forall>m \<in> set ms2. msgs s m \<noteq> None"
    using q1 q2 by (simp_all add: msg_queue_def)
  let ?sk1 = "set_q_first True NULL sk"
  let ?s1 = "s\<lparr>sockets := (sockets s)(sock \<mapsto> ?sk1), msgs := (msgs s) |` (- set ms1)\<rparr>"
  have f1: "kwhile (free_queue_round True sock) () s = Ret () ?s1"
    unfolding kwhile_def by (rule free_queue_loop[OF sk(1,2) m1 c slist_length[OF m1(1)]])
  have eq: "msgs ?s1 m = msgs s m" if "m \<in> set ms2" for m
    using that d by (auto simp: restrict_map_def)
  have sl2: "slist (fld m_next (msgs ?s1)) ms2"
  proof -
    have "slist (fld m_next (msgs ?s1)) ms2 = slist (fld m_next (msgs s)) ms2"
      by (rule slist_cong) (use eq in \<open>simp add: fld_def\<close>)
    then show ?thesis using m2(1) by simp
  qed
  let ?s2 = "?s1\<lparr>sockets := (sockets ?s1)(sock \<mapsto> set_q_first False NULL ?sk1),
    msgs := (msgs ?s1) |` (- set ms2)\<rparr>"
  have f2: "kwhile (free_queue_round False sock) () ?s1 = Ret () ?s2"
    unfolding kwhile_def
  proof (rule free_queue_loop[OF _ _ sl2 _ _ slist_length[OF m2(1)]])
    show "q_first False ?sk1 = first_of ms2" using sk(3) by (simp add: q_first_def set_q_first_def)
    show "\<forall>m \<in> set ms2. msgs ?s1 m \<noteq> None" using m2(2) eq by metis
  qed (use c in simp_all)
  let ?s' = "s\<lparr>sockets := (sockets s)(sock := None), msgs := (msgs s) |` (- (set ms1 \<union> set ms2))\<rparr>"
  have "socket_free sock s = Ret () (?s2\<lparr>cpu_locked := True, sockets := (sockets ?s2)(sock := None), cpu_locked := False\<rparr>)"
    using f1 f2 c by (simp add: socket_free_def kern)
  also have "?s2\<lparr>cpu_locked := True, sockets := (sockets ?s2)(sock := None), cpu_locked := False\<rparr> = ?s'"
    using c by (intro sched.equality) (simp_all add: restrict_map_def fun_eq_iff)
  finally show ?thesis .
qed

subsection \<open>Properties\<close>

text \<open>C12: sending a message to a socket end. A data message for an end that has 16 or more messages
  waiting is refused and nothing changes; every other message is appended to the end's queue. Then
  reading gives the waiting messages back in the order in which they were sent, each once, with
  their contents untouched, and leaves the queue empty, with the count at zero.\<close>

theorem socket_message_fifo:
  assumes "inbox dest s ms" and "msgs s msg = Some m" and "msg \<notin> set ms" and "msg \<noteq> NULL"
  shows "if m_type m = MSG_TYPE_DATA \<and> 16 \<le> length ms then push_message dest msg s = Ret False s
    else \<exists>s' s''. push_message dest msg s = Ret True s' \<and> inbox dest s' (ms @ [msg]) \<and>
      (\<forall>p. map_option msg_core (msgs s' p) = map_option msg_core (msgs s p)) \<and>
      drain (\<lambda>x. x \<noteq> NULL) (length ms + 1) (anscheduler_socket_read dest) s' = Ret (ms @ [msg]) s'' \<and> inbox dest s'' []"
proof -
  obtain d where d: "descs s dest = Some d" and q: "msg_queue s (d_socket d) (d_isConnector d \<noteq> 0) ms"
    and l: "q_lock (d_isConnector d \<noteq> 0) (d_socket d) \<notin> set (held s)"
    using assms(1) by (auto simp: inbox_def)
  have "length ms < 2 ^ 64" using q slist_length[of _ ms] by (auto simp: msg_queue_def max_steps_def)
  then have max: "SOCKET_MSG_MAX \<le> of_nat (length ms) \<longleftrightarrow> 16 \<le> length ms"
    by (simp add: SOCKET_MSG_MAX_def word_le_nat_alt unsigned_of_nat take_bit_nat_eq_self)
  show ?thesis
  proof (cases "m_type m = MSG_TYPE_DATA \<and> 16 \<le> length ms")
    case True
    then show ?thesis using push_message_full[OF d q l assms(2)] max by simp
  next
    case False
    then obtain sk' ms' where p: "push_message dest msg s =
        Ret True (s\<lparr>sockets := (sockets s)(d_socket d \<mapsto> sk'), msgs := ms'\<rparr>)"
      "msg_queue (s\<lparr>sockets := (sockets s)(d_socket d \<mapsto> sk'), msgs := ms'\<rparr>) (d_socket d)
        (d_isConnector d \<noteq> 0) (ms @ [msg])"
      "\<forall>p. map_option msg_core (ms' p) = map_option msg_core (msgs s p)"
      using push_message_appends[OF d q l assms(2-4)] max by blast
    let ?s = "s\<lparr>sockets := (sockets s)(d_socket d \<mapsto> sk'), msgs := ms'\<rparr>"
    have "inbox dest ?s (ms @ [msg])" using d p(2) l by (simp add: inbox_def)
    moreover from reader.drain_all[OF this, of "length ms + 1"]
    obtain s'' where "drain (\<lambda>x. x \<noteq> NULL) (length ms + 1) (anscheduler_socket_read dest) ?s = Ret (ms @ [msg]) s''"
      "inbox dest s'' []" by auto
    ultimately have "\<exists>s' s''. push_message dest msg s = Ret True s' \<and> inbox dest s' (ms @ [msg]) \<and>
      (\<forall>p. map_option msg_core (msgs s' p) = map_option msg_core (msgs s p)) \<and>
      drain (\<lambda>x. x \<noteq> NULL) (length ms + 1) (anscheduler_socket_read dest) s' = Ret (ms @ [msg]) s'' \<and> inbox dest s'' []"
      using p(1,3) by (intro exI[of _ ?s] exI[of _ s'']) simp
    then show ?thesis using False by (simp only: if_False)
  qed
qed

lemma sock_ex_queue: "msg_queue sock_ex 0x500 False [0x600]" "msg_queue sock_ex 0x500 True []"
  by (simp_all add: msg_queue_def sock_ex_def zero_socket_def q_first_def q_last_def q_count_def slist_Cons fld_def)

lemma sock_ex_inbox: "inbox 0x200 sock_ex [0x600]"
  using sock_ex_queue(1) unfolding inbox_def
  by (simp add: sock_ex_def zero_desc_def flat_boot_def boot_def)

lemma sock_ex_msg: "msgs sock_ex 0x700 = Some \<lparr>m_next = 0xAAAA, m_type = 1, m_len = 1, m_message = (\<lambda>_. 8)\<rparr>"
  by (simp add: sock_ex_def)

theorem socket_message_fifo_witness:
  "\<exists>s' s''. push_message 0x200 0x700 sock_ex = Ret True s' \<and>
    drain (\<lambda>x. x \<noteq> NULL) (Suc (Suc 0)) (anscheduler_socket_read 0x200) s' = Ret [0x600, 0x700] s'' \<and> inbox 0x200 s'' []"
  using socket_message_fifo[OF sock_ex_inbox sock_ex_msg] by (auto simp del: drain.simps)

text \<open>C34: building a data message. Lengths of 0xfe8 and more are refused; otherwise the call fails only
  for lack of memory, and what it returns is a fresh message of type data with the given
  length whose bytes are those of the buffer: no byte is written outside the message.\<close>

theorem socket_msg_data_copies:
  assumes "allocator P" and "cpu_locked s"
  shows "if 0xfe8 \<le> len then anscheduler_socket_msg_data P source len s = Ret NULL s
    else (anscheduler_socket_msg_data P source len s = Ret NULL (s\<lparr>allocs := Suc (allocs s)\<rparr>)) \<or>
      (\<exists>p m. p \<noteq> NULL \<and> \<not> live s p \<and> anscheduler_socket_msg_data P source len s =
          Ret p (s\<lparr>msgs := (msgs s)(p \<mapsto> m), allocs := Suc (allocs s)\<rparr>) \<and>
        m_type m = MSG_TYPE_DATA \<and> m_len m = len \<and> (\<forall>i < unat len. m_message m i = source i))"
proof (cases "0xfe8 \<le> len")
  case True
  then show ?thesis by (simp add: anscheduler_socket_msg_data_def kern)
next
  case False
  then have n: "unat len \<le> 0xfe8" by (simp add: word_le_nat_alt)
  from allocator.alloc_result[OF assms(1,2), of sizeof_socket_msg_t]
  have "(anscheduler_socket_msg_data P source len s = Ret NULL (s\<lparr>allocs := Suc (allocs s)\<rparr>)) \<or>
      (\<exists>p m. p \<noteq> NULL \<and> \<not> live s p \<and> anscheduler_socket_msg_data P source len s =
          Ret p (s\<lparr>msgs := (msgs s)(p \<mapsto> m), allocs := Suc (allocs s)\<rparr>) \<and>
        m_type m = MSG_TYPE_DATA \<and> m_len m = len \<and> (\<forall>i < unat len. m_message m i = source i))"
  proof (elim disjE exE conjE)
    assume "anscheduler_alloc P sizeof_socket_msg_t s = Ret NULL (s\<lparr>allocs := Suc (allocs s)\<rparr>)"
    then show ?thesis using False by (simp add: anscheduler_socket_msg_data_def kern)
  next
    fix p
    assume p: "p \<noteq> NULL" "\<not> live s p"
      "anscheduler_alloc P sizeof_socket_msg_t s =
         Ret p (s\<lparr>allocs := Suc (allocs s), raws := (raws s)(p \<mapsto> sizeof_socket_msg_t)\<rparr>)"
    let ?m = "fresh_msg P p\<lparr>m_type := MSG_TYPE_DATA, m_len := len\<rparr>"
    let ?s = "s\<lparr>msgs := (msgs s)(p \<mapsto> ?m), allocs := Suc (allocs s)\<rparr>"
    let ?m' = "?m\<lparr>m_message := (\<lambda>j. if 0 \<le> j \<and> j < unat len then source j else m_message ?m j)\<rparr>"
    have raw: "(raws s)(p := None) = raws s" using not_live(1)[OF p(2)] by (simp add: fun_upd_idem)
    have copy: "kfor 0 (unat len) (\<lambda>i. wr_byte p i (source i)) ?s = Ret () (?s\<lparr>msgs := (msgs ?s)(p \<mapsto> ?m')\<rparr>)"
      by (rule copy_loop) (use n in simp_all)
    have "anscheduler_socket_msg_data P source len s = Ret p (s\<lparr>msgs := (msgs s)(p \<mapsto> ?m'), allocs := Suc (allocs s)\<rparr>)"
      using False p(1,3) copy raw by (simp add: anscheduler_socket_msg_data_def kern sched_order)
    then show ?thesis using p(1,2) by (intro disjI2 exI[of _ p] exI[of _ ?m']) simp
  qed
  then show ?thesis using False by (simp only: if_False)
qed

theorem socket_msg_data_copies_witness:
  "(anscheduler_socket_msg_data flat_plat (\<lambda>i. of_nat i) 3 flat_boot =
      Ret NULL (flat_boot\<lparr>allocs := Suc (allocs flat_boot)\<rparr>)) \<or>
   (\<exists>p m. p \<noteq> NULL \<and> \<not> live flat_boot p \<and> anscheduler_socket_msg_data flat_plat (\<lambda>i. of_nat i) 3 flat_boot =
        Ret p (flat_boot\<lparr>msgs := (msgs flat_boot)(p \<mapsto> m), allocs := Suc (allocs flat_boot)\<rparr>) \<and>
      m_type m = MSG_TYPE_DATA \<and> m_len m = 3 \<and> (\<forall>i < unat (3 :: 64 word). m_message m i = of_nat i))"
proof -
  have "cpu_locked flat_boot" by (simp add: flat_boot_def boot_def)
  moreover have "\<not> 0xfe8 \<le> (3 :: 64 word)" by simp
  ultimately show ?thesis
    using socket_msg_data_copies[OF flat.allocator_axioms, of flat_boot 3 "\<lambda>i. of_nat i"] by (simp only: if_False)
qed

end
