(* ===== verification/Interrupts.thy ===== *)
theory Interrupts
  imports Loop
begin

unbundle bit_operations_syntax

text \<open>
  Delivery of external interrupts (\<open>src/interrupts.c\<close>). One thread of the system, the interrupt
  thread, is told of them: the interrupts that came in are collected in a mask of 32 bits, and
  the thread is switched to when it is polling. Shifting 1 by 32 and more is undefined in C, so it
  is a crash here.
\<close>

subsection \<open>The C functions\<close>

definition anscheduler_intd_lock :: "('v, unit) kern" where
  "anscheduler_intd_lock = anscheduler_lock IntdLock"

definition anscheduler_intd_unlock :: "('v, unit) kern" where
  "anscheduler_intd_unlock = anscheduler_unlock IntdLock"

definition irq_flag :: "u8 \<Rightarrow> ('v, u32) kern" where
  "irq_flag irqNumber = (if irqNumber < 32 then ret (push_bit (unat irqNumber) 1) else crash BadShift)"

definition anscheduler_irq :: "'v plat \<Rightarrow> u8 \<Rightarrow> ('v, unit) kern" where
  "anscheduler_irq P irqNumber =
     bnd anscheduler_intd_lock (\<lambda>_.
     bnd (gets interruptThread) (\<lambda>intd.
     if intd = NULL then anscheduler_intd_unlock
     else
       bnd (rd_thread intd) (\<lambda>th.
       let task = th_task th in
       bnd (anscheduler_task_reference task) (\<lambda>ok.
       if \<not> ok then anscheduler_intd_unlock
       else
         bnd (irq_flag irqNumber) (\<lambda>flag.
         bnd (anscheduler_or_32 flag) (\<lambda>_.
         bnd (gets interruptThread) (\<lambda>intd.
         bnd (rd_thread intd) (\<lambda>th.
         bnd (wr_thread intd (\<lambda>t. t\<lparr>th_isPolling := False\<rparr>)) (\<lambda>_.
         bnd anscheduler_intd_unlock (\<lambda>_.
         if th_isPolling th then
           bnd (gets interruptThread) (\<lambda>intd. anscheduler_loop_switch P task intd)
         else anscheduler_task_dereference P task))))))))))"

definition anscheduler_intd_get :: "('v, addr) kern" where
  "anscheduler_intd_get =
     bnd anscheduler_intd_lock (\<lambda>_.
     bnd (gets interruptThread) (\<lambda>result.
     bnd anscheduler_intd_unlock (\<lambda>_.
     ret result)))"

definition anscheduler_intd_set :: "addr \<Rightarrow> ('v, unit) kern" where
  "anscheduler_intd_set thread =
     bnd anscheduler_intd_lock (\<lambda>_.
     bnd (modify (\<lambda>s. s\<lparr>interruptThread := thread\<rparr>)) (\<lambda>_.
     anscheduler_intd_unlock))"

definition anscheduler_intd_cmpnull :: "addr \<Rightarrow> ('v, unit) kern" where
  "anscheduler_intd_cmpnull thread =
     bnd anscheduler_intd_lock (\<lambda>_.
     bnd (gets interruptThread) (\<lambda>intd.
     bnd (cond (intd = thread) (modify (\<lambda>s. s\<lparr>interruptThread := NULL\<rparr>))) (\<lambda>_.
     anscheduler_intd_unlock)))"

definition anscheduler_intd_read :: "('v, u32) kern" where
  "anscheduler_intd_read =
     bnd anscheduler_intd_lock (\<lambda>_.
     bnd (gets irqMask) (\<lambda>mask'.
     bnd (modify (\<lambda>s. s\<lparr>irqMask := 0\<rparr>)) (\<lambda>_.
     bnd anscheduler_intd_unlock (\<lambda>_.
     ret mask'))))"

definition anscheduler_intd_waiting :: "('v, bool) kern" where
  "anscheduler_intd_waiting = bnd (gets irqMask) (\<lambda>mask'. ret (mask' \<noteq> 0))"

lemmas intd_simps [kern] = anscheduler_intd_lock_def anscheduler_intd_unlock_def anscheduler_intd_waiting_def

subsection \<open>Collecting interrupts\<close>

text \<open>A sequence of interrupts.\<close>

fun irqs :: "'v plat \<Rightarrow> u8 list \<Rightarrow> ('v, unit) kern" where
  "irqs P [] = skip"
| "irqs P (n # ns) = bnd (anscheduler_irq P n) (\<lambda>_. irqs P ns)"

text \<open>The interrupt thread with its task alive, and the locks an interrupt needs free.\<close>

definition intd_busy :: "'v sched \<Rightarrow> bool" where
  "intd_busy s \<longleftrightarrow> interruptThread s \<noteq> NULL \<and> IntdLock \<notin> set (held s) \<and>
     (\<exists>th tk. threads s (interruptThread s) = Some th \<and> \<not> th_isPolling th \<and>
        tasks s (th_task th) = Some tk \<and> t_isKilled tk = 0 \<and> KillLock (th_task th) \<notin> set (held s))"

text \<open>An interrupt thread of a living task that is not polling, and one that is.\<close>

definition intd_ex :: "bool \<Rightarrow> flatvm sched" where
  "intd_ex polling = flat_boot\<lparr>tasks := [0xA0000 \<mapsto> zero_task\<lparr>t_refCount := 1, t_firstThread := 0xB0000\<rparr>],
     threads := [0xB0000 \<mapsto> zero_thread\<lparr>th_task := 0xA0000, th_isPolling := polling\<rparr>,
       0xC0000 \<mapsto> zero_thread], cpu_thread := 0xC0000, interruptThread := 0xB0000\<rparr>"

lemma mask_order: "s\<lparr>irqMask := m, threads := ts\<rparr> = s\<lparr>threads := ts, irqMask := m\<rparr>"
  by (rule sched.equality) simp_all

lemma irq_busy:
  assumes b: "intd_busy s" and n: "n < 32"
  shows "anscheduler_irq P n s = Ret () (s\<lparr>irqMask := irqMask s OR push_bit (unat n) 1\<rparr>)"
proof -
  obtain th tk where th: "threads s (interruptThread s) = Some th" "\<not> th_isPolling th"
    "tasks s (th_task th) = Some tk" "t_isKilled tk = 0" "KillLock (th_task th) \<notin> set (held s)"
    using b by (auto simp: intd_busy_def)
  have l: "interruptThread s \<noteq> NULL" "IntdLock \<notin> set (held s)" using b by (auto simp: intd_busy_def)
  have same: "th\<lparr>th_isPolling := False\<rparr> = th" using th(2) by simp
  let ?s1 = "s\<lparr>held := IntdLock # held s\<rparr>"
  have ref: "anscheduler_task_reference (th_task th) ?s1 =
    Ret True (?s1\<lparr>tasks := (tasks s)(th_task th \<mapsto> tk\<lparr>t_refCount := t_refCount tk + 1\<rparr>)\<rparr>)"
    using task_reference_runs[of ?s1 "th_task th" tk] th(3-5) by simp
  let ?s2 = "s\<lparr>tasks := (tasks s)(th_task th \<mapsto> tk\<lparr>t_refCount := t_refCount tk + 1\<rparr>),
     irqMask := irqMask s OR push_bit (unat n) 1\<rparr>"
  have deref: "anscheduler_task_dereference P (th_task th) ?s2 = Ret () (s\<lparr>irqMask := irqMask s OR push_bit (unat n) 1\<rparr>)"
  proof -
    let ?tk = "tk\<lparr>t_refCount := t_refCount tk + 1\<rparr>"
    have t2: "tasks ?s2 (th_task th) = Some ?tk" and k2: "KillLock (th_task th) \<notin> set (held ?s2)"
      using th(5) by simp_all
    have "?s2\<lparr>tasks := (tasks ?s2)(th_task th \<mapsto> ?tk\<lparr>t_refCount := t_refCount ?tk - 1\<rparr>)\<rparr> =
        s\<lparr>irqMask := irqMask s OR push_bit (unat n) 1\<rparr>"
      using th(3) by (intro sched.equality) (simp_all add: map_upd_triv)
    moreover have "t_isKilled ?tk = 0" using th(4) by simp
    ultimately show ?thesis
      using task_dereference_runs[OF t2 k2, of P] unfolding Let_def by (simp only: simp_thms if_False)
  qed
  have "anscheduler_irq P n s = anscheduler_task_dereference P (th_task th) ?s2"
    using l th(1,2) ref n same
    by (simp add: anscheduler_irq_def irq_flag_def Let_def kern sched_order map_upd_triv)
  then show ?thesis using deref by simp
qed

lemma intd_busy_mask [simp]: "intd_busy (s\<lparr>irqMask := m\<rparr>) = intd_busy s"
  by (simp add: intd_busy_def)

lemma irqs_busy:
  assumes "intd_busy s" and "\<forall>n \<in> set ns. n < 32"
  shows "\<exists>m. irqs P ns s = Ret () (s\<lparr>irqMask := m\<rparr>) \<and>
    (\<forall>i. bit m i \<longleftrightarrow> bit (irqMask s) i \<or> (\<exists>n \<in> set ns. unat n = i))"
  using assms
proof (induction ns arbitrary: s)
  case Nil
  then show ?case by (intro exI[of _ "irqMask s"]) (simp add: kern)
next
  case (Cons n ns)
  let ?s = "s\<lparr>irqMask := irqMask s OR push_bit (unat n) 1\<rparr>"
  from Cons.prems have n: "n < 32" "unat n < 32" by (simp_all add: word_less_nat_alt)
  obtain m where m: "irqs P ns ?s = Ret () (?s\<lparr>irqMask := m\<rparr>)"
    "\<forall>i. bit m i \<longleftrightarrow> bit (irqMask ?s) i \<or> (\<exists>n \<in> set ns. unat n = i)"
    using Cons.IH[of ?s] Cons.prems by auto
  have bit: "bit (irqMask ?s) i \<longleftrightarrow> bit (irqMask s) i \<or> unat n = i" for i
    using n(2) by (auto simp: bit_or_iff bit_exp_iff possible_bit_def)
  have "irqs P (n # ns) s = Ret () (s\<lparr>irqMask := m\<rparr>)"
    using irq_busy[OF Cons.prems(1) n(1), of P] m(1) by (simp add: kern)
  moreover have "\<forall>i. bit m i \<longleftrightarrow> bit (irqMask s) i \<or> (\<exists>k \<in> set (n # ns). unat k = i)"
    using m(2) unfolding bit by auto
  ultimately show ?case by blast
qed

lemma intd_read_runs:
  assumes "IntdLock \<notin> set (held s)"
  shows "anscheduler_intd_read s = Ret (irqMask s) (s\<lparr>irqMask := 0\<rparr>)"
  using assms by (simp add: anscheduler_intd_read_def kern)

subsection \<open>Properties\<close>

lemma intd_ex_busy: "intd_busy (intd_ex False)"
  by (simp add: intd_busy_def intd_ex_def flat_boot_def boot_def zero_task_def)

text \<open>C35: no interrupt is lost while the interrupt thread is busy. Any sequence of interrupts below
  32 leaves only its bits in the mask, each interrupt once however often it came; the next
  \<open>anscheduler_intd_read\<close> returns exactly those and the ones that waited before, and clears
  them. References to the thread's task are balanced.\<close>

theorem irqs_collected:
  assumes "intd_busy s" and "\<forall>n \<in> set ns. n < 32"
  shows "\<exists>m. bnd (irqs P ns) (\<lambda>_. anscheduler_intd_read) s = Ret m (s\<lparr>irqMask := 0\<rparr>) \<and>
    (\<forall>i. bit m i \<longleftrightarrow> bit (irqMask s) i \<or> (\<exists>n \<in> set ns. unat n = i))"
proof -
  obtain m where m: "irqs P ns s = Ret () (s\<lparr>irqMask := m\<rparr>)"
    "\<forall>i. bit m i \<longleftrightarrow> bit (irqMask s) i \<or> (\<exists>n \<in> set ns. unat n = i)"
    using irqs_busy[OF assms, of P] by blast
  have "IntdLock \<notin> set (held (s\<lparr>irqMask := m\<rparr>))" using assms(1) by (simp add: intd_busy_def)
  from intd_read_runs[OF this] m show ?thesis by (auto simp: kern)
qed

theorem irqs_collected_witness:
  "\<exists>m. bnd (irqs flat_plat [1, 5, 1]) (\<lambda>_. anscheduler_intd_read) (intd_ex False) =
      Ret m ((intd_ex False)\<lparr>irqMask := 0\<rparr>) \<and> bit m 1 \<and> bit m 5 \<and> \<not> bit m 2"
  using irqs_collected[OF intd_ex_busy, of "[1, 5, 1]" flat_plat] by (auto simp: intd_ex_def flat_boot_def boot_def)

text \<open>The state in which an interrupt switches to the interrupt thread, which is in the queue of no CPU.\<close>

lemma irq_polling:
  assumes c: "cpu_ok s xs" and i: "interruptThread s = intd" "intd \<noteq> NULL" "IntdLock \<notin> set (held s)"
    and th: "threads s intd = Some th" "th_isPolling th" and tk: "tasks s (th_task th) = Some tk"
    "t_isKilled tk = 0" "KillLock (th_task th) \<notin> set (held s)" and n: "n < 32"
  shows "anscheduler_irq P n s = anscheduler_loop_switch P (th_task th) intd
    (s\<lparr>tasks := (tasks s)(th_task th \<mapsto> tk\<lparr>t_refCount := t_refCount tk + 1\<rparr>),
       threads := (threads s)(intd \<mapsto> th\<lparr>th_isPolling := False\<rparr>), irqMask := irqMask s OR push_bit (unat n) 1\<rparr>)"
proof -
  let ?s1 = "s\<lparr>held := IntdLock # held s\<rparr>"
  have ref: "anscheduler_task_reference (th_task th) ?s1 =
    Ret True (?s1\<lparr>tasks := (tasks s)(th_task th \<mapsto> tk\<lparr>t_refCount := t_refCount tk + 1\<rparr>)\<rparr>)"
    using task_reference_runs[of ?s1 "th_task th" tk] tk by simp
  then show ?thesis
    using i th n by (simp add: anscheduler_irq_def irq_flag_def Let_def kern sched_order mask_order)
qed

text \<open>Waking a thread and referencing its task does not change what the scheduler sees of a CPU.\<close>

lemma cpu_ok_wake:
  assumes c: "cpu_ok s xs" and th: "threads s y = Some th" and tk: "tasks s task = Some tk"
  shows "cpu_ok (s\<lparr>tasks := (tasks s)(task \<mapsto> tk\<lparr>t_refCount := r\<rparr>),
      threads := (threads s)(y \<mapsto> th\<lparr>th_isPolling := b\<rparr>), irqMask := m\<rparr>) xs"
    and "cur_list (s\<lparr>tasks := tm, threads := (threads s)(y \<mapsto> th\<lparr>th_isPolling := b\<rparr>), irqMask := m\<rparr>) = cur_list s"
proof -
  let ?s = "s\<lparr>tasks := (tasks s)(task \<mapsto> tk\<lparr>t_refCount := r\<rparr>),
      threads := (threads s)(y \<mapsto> th\<lparr>th_isPolling := b\<rparr>), irqMask := m\<rparr>"
  have links: "queue_next (threads ?s) = queue_next (threads s)" "queue_last (threads ?s) = queue_last (threads s)"
    using th by (auto simp: queue_next_def queue_last_def fun_eq_iff)
  have rq: "run_queue ?s xs" using c unfolding cpu_ok_def run_queue_def links by auto
  have kill: "killable ?s p = killable s p" for p using tk by (simp add: killable_def)
  have rel: "threads ?s p = Some t' \<Longrightarrow> \<exists>t. threads s p = Some t \<and> th_task t' = th_task t" for p t'
    using th by (auto split: if_splits)
  have rel2: "threads s p = Some t \<Longrightarrow> \<exists>t'. threads ?s p = Some t' \<and> th_task t' = th_task t" for p t
    using th by auto
  have ok: "queue_ok ?s ys = queue_ok s ys" for ys
    unfolding queue_ok_def kill using rel rel2 by metis
  have live: "has_live_task s p \<Longrightarrow> has_live_task ?s p" for p
    using th tk by (auto simp: has_live_task_def split: option.splits if_splits)
  show "cur_list (s\<lparr>tasks := tm, threads := (threads s)(y \<mapsto> th\<lparr>th_isPolling := b\<rparr>), irqMask := m\<rparr>) = cur_list s"
    for tm by (simp add: cur_list_def)
  have cur: "cur_list ?s = cur_list s" by (simp add: cur_list_def)
  show "cpu_ok ?s xs"
  proof (cases "cpu_thread s = NULL")
    case True
    then show ?thesis using c rq unfolding cpu_ok_def ok cur by simp
  next
    case False
    then obtain t where t: "threads s (cpu_thread s) = Some t" "th_task t = cpu_task s"
      and l: "has_live_task s (cpu_thread s)" using c by (auto simp: cpu_ok_def)
    obtain t' where "threads ?s (cpu_thread s) = Some t'" "th_task t' = cpu_task s"
      using rel2[OF t(1)] t(2) by auto
    then show ?thesis using c False rq live[OF l] unfolding cpu_ok_def ok cur by simp
  qed
qed

text \<open>C36: an interrupt wakes a polling interrupt thread at once: the thread stops polling, the
  interrupt is in the mask, the CPU runs the thread with a reference to its task, and the
  thread that was running, if there was one, goes to the end of the run queue.\<close>

theorem irq_wakes_polling:
  assumes "cpu_ok s xs" and "interruptThread s = intd" and "intd \<noteq> NULL" and "IntdLock \<notin> set (held s)"
    and "threads s intd = Some th" and "th_isPolling th" and "tasks s (th_task th) = Some tk"
    and "t_isKilled tk = 0" and "KillLock (th_task th) \<notin> set (held s)" and "n < 32"
  shows "\<exists>s' th'. anscheduler_irq P n s = Stop (RunThread (th_task th) intd) s' \<and>
    cpu_thread s' = intd \<and> cpu_task s' = th_task th \<and> cpu_locked s' = cpuLocked (th_state th) \<and>
    run_queue s' (xs @ cur_list s) \<and> irqMask s' = irqMask s OR push_bit (unat n) 1 \<and> held s' = held s \<and>
    threads s' intd = Some th' \<and> \<not> th_isPolling th' \<and>
    (th_task th \<noteq> cpu_task s \<longrightarrow> tasks s' (th_task th) = Some (tk\<lparr>t_refCount := t_refCount tk + 1\<rparr>))"
proof -
  let ?th = "th\<lparr>th_isPolling := False\<rparr>"
  let ?s = "s\<lparr>tasks := (tasks s)(th_task th \<mapsto> tk\<lparr>t_refCount := t_refCount tk + 1\<rparr>),
       threads := (threads s)(intd \<mapsto> ?th), irqMask := irqMask s OR push_bit (unat n) 1\<rparr>"
  have run: "anscheduler_irq P n s = anscheduler_loop_switch P (th_task th) intd ?s" by (rule irq_polling[OF assms])
  have th: "threads ?s intd = Some ?th" by simp
  obtain s' where s': "anscheduler_loop_switch P (th_task th) intd ?s = Stop (RunThread (th_task ?th) intd) s'"
    "run_queue s' (xs @ cur_list ?s)"
    "hide_queue s' = hide_queue (?s\<lparr>tasks := drop_ref ?s (cpu_task ?s), cpu_task := th_task ?th, cpu_thread := intd,
      cpu_locked := cpuLocked (th_state ?th)\<rparr>)"
    using loop_switch_runs[OF cpu_ok_wake(1)[OF assms(1,5,7)] th] by blast
  note f = hide_queue_fields[OF s'(3)]
  obtain t' where t': "threads s' intd = Some t'" "thread_core t' = thread_core ?th"
    using cores_Some[OF f(25), of intd] by auto
  have "\<not> th_isPolling t'" using thread_core_fields(6)[OF t'(2)] by simp
  moreover have "run_queue s' (xs @ cur_list s)" using s'(2) unfolding cpu_ok_wake(2)[OF assms(1,5,7)] .
  moreover have "th_task th \<noteq> cpu_task s \<longrightarrow> tasks s' (th_task th) = Some (tk\<lparr>t_refCount := t_refCount tk + 1\<rparr>)"
    using f(2) by (simp add: drop_ref_def)
  moreover have "held s' = held s" "cpu_thread s' = intd" "cpu_task s' = th_task th"
    "irqMask s' = irqMask s OR push_bit (unat n) 1" "cpu_locked s' = cpuLocked (th_state th)"
    using f(11,13-15,21) by simp_all
  moreover have "anscheduler_irq P n s = Stop (RunThread (th_task th) intd) s'"
    using s'(1) unfolding run by simp
  ultimately show ?thesis using t'(1) by (intro exI[of _ s'] exI[of _ t']) (simp only: simp_thms)
qed

lemma intd_ex_cpu: "cpu_ok (intd_ex True) []"
  by (simp add: cpu_ok_def intd_ex_def run_queue_def queue_ok_def cur_list_def killable_def has_live_task_def
      flat_boot_def boot_def zero_thread_def)

theorem irq_wakes_polling_witness:
  "\<exists>s'. anscheduler_irq flat_plat 3 (intd_ex True) = Stop (RunThread 0xA0000 0xB0000) s' \<and>
    run_queue s' [0xC0000] \<and> bit (irqMask s') 3"
proof -
  let ?s = "intd_ex True" and ?t = "zero_thread\<lparr>th_task := 0xA0000, th_isPolling := True\<rparr>"
  let ?k = "zero_task\<lparr>t_refCount := 1, t_firstThread := 0xB0000\<rparr>"
  have s: "threads ?s 0xB0000 = Some ?t" "interruptThread ?s = 0xB0000" "held ?s = []" "irqMask ?s = 0"
    "cur_list ?s = [0xC0000]" "tasks ?s (th_task ?t) = Some ?k"
    by (simp_all add: intd_ex_def flat_boot_def boot_def cur_list_def)
  have "\<exists>s' th'. anscheduler_irq flat_plat 3 ?s = Stop (RunThread (th_task ?t) 0xB0000) s' \<and>
    cpu_thread s' = 0xB0000 \<and> cpu_task s' = th_task ?t \<and> cpu_locked s' = cpuLocked (th_state ?t) \<and>
    run_queue s' ([] @ cur_list ?s) \<and> irqMask s' = irqMask ?s OR push_bit (unat (3 :: u8)) 1 \<and> held s' = held ?s \<and>
    threads s' 0xB0000 = Some th' \<and> \<not> th_isPolling th' \<and>
    (th_task ?t \<noteq> cpu_task ?s \<longrightarrow> tasks s' (th_task ?t) = Some (?k\<lparr>t_refCount := t_refCount ?k + 1\<rparr>))"
    by (rule irq_wakes_polling[OF intd_ex_cpu s(2) _ _ s(1) _ s(6)]) (simp_all add: s(3) zero_task_def)
  then show ?thesis unfolding s(4,5) by auto
qed

end
