(* ===== verification/Paging.thy ===== *)
theory Paging
  imports Loop Fifo Intrusive
begin

unbundle bit_operations_syntax

text \<open>
  Page faults (\<open>src/paging.c\<close>) and the exit of the running task (\<open>anscheduler_task_exit\<close> of
  \<open>src/task.c\<close>), which ends a task that faults when there is no pager.

  A fault on a page that is marked as to be allocated is served by the scheduler itself; any
  other fault that the page tables do not explain goes to the system pager: it is put in a queue,
  the faulting thread is not pushed again, and the pager's thread is switched to if it is polling.
\<close>

subsection \<open>Leaving a task\<close>

definition KILL_REASON_SELF :: u64 where "KILL_REASON_SELF = 0"
definition KILL_REASON_EXTERNAL :: u64 where "KILL_REASON_EXTERNAL = 1"
definition KILL_REASON_MEMORY :: u64 where "KILL_REASON_MEMORY = 2"

definition task_exit :: "'v plat \<Rightarrow> u64 \<Rightarrow> ('v, unit) kern" where
  "task_exit P codeVal =
     bnd anscheduler_cpu_get_task (\<lambda>task.
     bnd (anscheduler_cpu_set_task NULL) (\<lambda>_.
     bnd (anscheduler_cpu_set_thread NULL) (\<lambda>_.
     bnd (anscheduler_task_kill task codeVal) (\<lambda>_.
     bnd (anscheduler_task_dereference P task) (\<lambda>_.
     anscheduler_loop_run P)))))"

definition anscheduler_task_exit :: "'v plat \<Rightarrow> u8 \<Rightarrow> ('v, unit) kern" where
  "anscheduler_task_exit P code = task_exit P (ucast code)"

subsection \<open>The queue of faults\<close>

definition anscheduler_pager_set :: "addr \<Rightarrow> ('v, unit) kern" where
  "anscheduler_pager_set thread = modify (\<lambda>s. s\<lparr>pagerThread := thread\<rparr>)"

definition anscheduler_pager_lock :: "('v, unit) kern" where
  "anscheduler_pager_lock = anscheduler_lock PagerLock"

definition anscheduler_pager_unlock :: "('v, unit) kern" where
  "anscheduler_pager_unlock = anscheduler_unlock PagerLock"

definition anscheduler_pager_shift :: "('v, unit) kern" where
  "anscheduler_pager_shift =
     bnd anscheduler_pager_lock (\<lambda>_.
     bnd (gets firstFault) (\<lambda>first.
     bnd (cond (first \<noteq> NULL)
            (bnd (rd_fault first) (\<lambda>f.
             bnd (modify (\<lambda>s. s\<lparr>firstFault := pf_next f\<rparr>)) (\<lambda>_.
             bnd (gets firstFault) (\<lambda>first.
             cond (first = NULL) (modify (\<lambda>s. s\<lparr>lastFault := NULL\<rparr>))))))) (\<lambda>_.
     anscheduler_pager_unlock)))"

definition anscheduler_pager_peek :: "('v, addr) kern" where
  "anscheduler_pager_peek =
     bnd anscheduler_pager_lock (\<lambda>_.
     bnd (gets firstFault) (\<lambda>fault.
     bnd anscheduler_pager_unlock (\<lambda>_.
     ret fault)))"

definition anscheduler_pager_waiting :: "('v, bool) kern" where
  "anscheduler_pager_waiting = bnd (gets firstFault) (\<lambda>first. ret (first \<noteq> NULL))"

record fault_info_t =
  fi_ptr :: addr
  fi_flags :: u64

text \<open>The part of \<open>_push_page_fault_cont\<close> that holds the pager's lock.\<close>

definition append_fault :: "addr \<Rightarrow> ('v, unit) kern" where
  "append_fault fault =
     bnd anscheduler_pager_lock (\<lambda>_.
     bnd (gets lastFault) (\<lambda>last.
     bnd (if last \<noteq> NULL then
            bnd (wr_fault last (\<lambda>f. f\<lparr>pf_next := fault\<rparr>)) (\<lambda>_.
            modify (\<lambda>s. s\<lparr>lastFault := fault\<rparr>))
          else modify (\<lambda>s. s\<lparr>firstFault := fault, lastFault := fault\<rparr>)) (\<lambda>_.
     anscheduler_pager_unlock)))"

text \<open>The end of \<open>_push_page_fault_cont\<close>: the pager's thread is switched to if it is polling.\<close>

definition wake_pager :: "'v plat \<Rightarrow> ('v, unit) kern" where
  "wake_pager P =
     bnd (gets pagerThread) (\<lambda>pager.
     bnd (rd_thread pager) (\<lambda>th.
     bnd (wr_thread pager (\<lambda>t. t\<lparr>th_isPolling := False\<rparr>)) (\<lambda>_.
     cond (th_isPolling th)
       (bnd (gets pagerThread) (\<lambda>pager.
        bnd (rd_thread pager) (\<lambda>th.
        let task = th_task th in
        bnd (anscheduler_task_reference task) (\<lambda>ok.
        bnd (cond (\<not> ok) (anscheduler_abort ''system pager may never die!'')) (\<lambda>_.
        bnd (gets pagerThread) (\<lambda>pager.
        anscheduler_loop_switch P task pager)))))))))"

definition push_page_fault_cont :: "'v plat \<Rightarrow> fault_info_t \<Rightarrow> ('v, bool) kern" where
  "push_page_fault_cont P info =
     bnd (gets pagerThread) (\<lambda>pager.
     if pager = NULL then ret False
     else
       bnd anscheduler_cpu_get_task (\<lambda>curTask.
       bnd anscheduler_cpu_get_thread (\<lambda>curThread.
       if curTask = NULL then anscheduler_abort ''a system thread caused a page fault''
       else
         bnd (anscheduler_cpu_set_task NULL) (\<lambda>_.
         bnd (anscheduler_cpu_set_thread NULL) (\<lambda>_.
         bnd (anscheduler_alloc P sizeof_page_fault_t) (\<lambda>fault.
         if fault = NULL then anscheduler_abort ''failed to allocate fault object''
         else
           bnd (new_fault fault \<lparr>pf_next = NULL, pf_task = curTask, pf_thread = curThread,
              pf_ptr = fi_ptr info, pf_flags = fi_flags info\<rparr>) (\<lambda>_.
           bnd (append_fault fault) (\<lambda>_.
           bnd (wake_pager P) (\<lambda>_.
           ret True)))))))))"

definition push_page_fault :: "'v plat \<Rightarrow> fault_info_t \<Rightarrow> ('v, unit) kern" where
  "push_page_fault P info =
     bnd (push_page_fault_cont P info) (\<lambda>result.
     bnd (cond (\<not> result) (anscheduler_task_exit P (ucast KILL_REASON_MEMORY))) (\<lambda>_.
     anscheduler_loop_run P))"

subsection \<open>Serving a fault\<close>

definition PAGE_FAULT_PRESENT :: u64 where "PAGE_FAULT_PRESENT = 1"
definition PAGE_FAULT_WRITE :: u64 where "PAGE_FAULT_WRITE = 2"

text \<open>\<open>anscheduler_zero\<close> on a block that carries no struct.\<close>

definition zero_block :: "addr \<Rightarrow> ('v, unit) kern" where
  "zero_block p s = (case raws s p of Some n \<Rightarrow> Ret () s | None \<Rightarrow> Crash (BadPtr p))"

text \<open>What is to be done about a page with the given entry and flags: allocate it, or ask the pager.\<close>

definition should_allocate :: "u64 \<Rightarrow> u16 \<Rightarrow> bool" where
  "should_allocate entry flags \<longleftrightarrow> flags AND PAGE_FLAG_UNALLOC \<noteq> 0 \<and> entry = 0"

definition should_fault :: "u64 \<Rightarrow> u64 \<Rightarrow> u16 \<Rightarrow> bool" where
  "should_fault fault_flags entry flags \<longleftrightarrow>
     \<not> (\<not> should_allocate entry flags \<and> flags AND PAGE_FLAG_PRESENT \<noteq> 0 \<and> flags AND PAGE_FLAG_USER \<noteq> 0 \<and>
        (if flags AND PAGE_FLAG_WRITE \<noteq> 0 then fault_flags AND PAGE_FAULT_WRITE = 0 else True))"

definition anscheduler_page_fault :: "'v plat \<Rightarrow> addr \<Rightarrow> u64 \<Rightarrow> ('v, unit) kern" where
  "anscheduler_page_fault P ptr fault_flags =
     bnd anscheduler_cpu_get_task (\<lambda>task.
     if task = NULL then anscheduler_abort ''kernel thread caused page fault!''
     else
       let info = \<lparr>fi_ptr = ptr, fi_flags = fault_flags\<rparr> in
       bnd (cond (fault_flags AND PAGE_FAULT_PRESENT \<noteq> 0) (push_page_fault P info)) (\<lambda>_.
       bnd (anscheduler_lock (VmLock task)) (\<lambda>_.
       let faultPage = drop_bit 12 ptr in
       bnd (rd_task task) (\<lambda>tk.
       bnd (anscheduler_vm_lookup P (t_vm tk) faultPage) (\<lambda>(entry, flags).
       bnd (if should_allocate entry flags then
              bnd (anscheduler_alloc P 0x1000) (\<lambda>page.
              bnd (zero_block page) (\<lambda>_.
              bnd (rd_task task) (\<lambda>tk.
              bnd (anscheduler_vm_map P (t_vm tk) faultPage (pf_vm_physical P (drop_bit 12 page))
                     (PAGE_FLAG_USER OR PAGE_FLAG_PRESENT OR PAGE_FLAG_WRITE)) (\<lambda>_.
              skip))))
            else if should_fault fault_flags entry flags then
              bnd (anscheduler_unlock (VmLock task)) (\<lambda>_.
              push_page_fault P info)
            else skip) (\<lambda>_.
       bnd (anscheduler_unlock (VmLock task)) (\<lambda>_.
       bnd anscheduler_cpu_get_thread (\<lambda>thread.
       anscheduler_thread_run task thread))))))))"

lemmas pager_simps [kern] = anscheduler_pager_lock_def anscheduler_pager_unlock_def
  anscheduler_pager_waiting_def anscheduler_pager_get_def

lemma zero_block_apply [kern]: "raws s p = Some n \<Longrightarrow> zero_block p s = Ret () s"
  by (simp add: zero_block_def)

subsection \<open>The queue as a list\<close>

definition fault_queue :: "'v sched \<Rightarrow> addr list \<Rightarrow> bool" where
  "fault_queue s fs \<longleftrightarrow> firstFault s = first_of fs \<and> lastFault s = last_of fs \<and>
     slist (fld pf_next (faults s)) fs \<and> (\<forall>f \<in> set fs. faults s f \<noteq> None) \<and> PagerLock \<notin> set (held s)"

text \<open>Taking the first fault, as the pager does: it looks at it and takes it off.\<close>

definition take_fault :: "('v, addr) kern" where
  "take_fault = bnd anscheduler_pager_peek (\<lambda>f. bnd anscheduler_pager_shift (\<lambda>_. ret f))"

text \<open>A fault without its link.\<close>

definition fault_core :: "page_fault_t \<Rightarrow> page_fault_t" where
  "fault_core f = f\<lparr>pf_next := NULL\<rparr>"

lemma append_fault_appends:
  assumes q: "fault_queue s fs" and f: "faults s f = Some d" "pf_next d = NULL" "f \<noteq> NULL" "f \<notin> set fs"
  shows "\<exists>hp fst lst. append_fault f s = Ret () (s\<lparr>faults := hp, firstFault := fst, lastFault := lst\<rparr>) \<and>
    fault_queue (s\<lparr>faults := hp, firstFault := fst, lastFault := lst\<rparr>) (fs @ [f]) \<and> hp f = Some d \<and>
    (\<forall>p. map_option fault_core (hp p) = map_option fault_core (faults s p))"
proof -
  have sl: "slist (fld pf_next (faults s)) fs" and l: "PagerLock \<notin> set (held s)"
    and ends: "firstFault s = first_of fs" "lastFault s = last_of fs" and ex: "\<forall>f \<in> set fs. faults s f \<noteq> None"
    using q by (simp_all add: fault_queue_def)
  show ?thesis
  proof (cases fs rule: rev_cases)
    case Nil
    have "append_fault f s = Ret () (s\<lparr>faults := faults s, firstFault := f, lastFault := f\<rparr>)"
      using l ends Nil by (simp add: append_fault_def kern)
    moreover have "fault_queue (s\<lparr>faults := faults s, firstFault := f, lastFault := f\<rparr>) (fs @ [f])"
      using Nil f l by (simp add: fault_queue_def slist_Cons fld_Some)
    ultimately show ?thesis using f(1) by (intro exI[of _ "faults s"] exI[of _ f]) simp
  next
    case (snoc ys y)
    obtain dy where y: "faults s y = Some dy" "y \<noteq> f" "y \<noteq> NULL"
      using ex f(4) snoc slist_nonnull[OF sl] by auto
    let ?h = "(faults s)(y \<mapsto> dy\<lparr>pf_next := f\<rparr>)"
    let ?s = "s\<lparr>faults := ?h, firstFault := firstFault s, lastFault := f\<rparr>"
    have "s\<lparr>faults := ?h, lastFault := f\<rparr> = ?s" by simp
    then have "append_fault f s = Ret () ?s"
      using l ends snoc y by (simp add: append_fault_def kern sched_order)
    moreover have "slist (fld pf_next ?h) (fs @ [f])"
      by (rule slist_push_back[OF sl f(3,4)])
         (use snoc y f slist_distinct[OF sl] in \<open>auto simp: fld_def\<close>)
    then have "fault_queue ?s (fs @ [f])"
      using snoc ex ends l f(1) by (auto simp: fault_queue_def first_of_append last_of_append)
    ultimately show ?thesis
      using f(1) y by (intro exI[of _ ?h] exI[of _ "firstFault s"] exI[of _ f]) (simp add: fault_core_def)
  qed
qed

lemma take_fault_Nil: "fault_queue s [] \<Longrightarrow> take_fault s = Ret NULL s"
  by (simp add: take_fault_def anscheduler_pager_peek_def anscheduler_pager_shift_def fault_queue_def kern)

lemma take_fault_Cons:
  assumes q: "fault_queue s (x # xs)"
  shows "\<exists>fst lst. take_fault s = Ret x (s\<lparr>firstFault := fst, lastFault := lst\<rparr>) \<and>
    fault_queue (s\<lparr>firstFault := fst, lastFault := lst\<rparr>) xs"
proof -
  have sl: "slist (fld pf_next (faults s)) (x # xs)" and l: "PagerLock \<notin> set (held s)"
    and ends: "firstFault s = x" "lastFault s = last_of (x # xs)"
    and ex: "\<forall>f \<in> set (x # xs). faults s f \<noteq> None"
    using q by (simp_all add: fault_queue_def)
  obtain d where d: "faults s x = Some d" using ex by auto
  have nx: "pf_next d = first_of xs" and slx: "slist (fld pf_next (faults s)) xs" and xn: "x \<noteq> NULL"
    using sl d by (simp_all add: slist_Cons fld_Some)
  let ?l = "if xs = [] then NULL else last_of (x # xs)"
  let ?s = "s\<lparr>firstFault := first_of xs, lastFault := ?l\<rparr>"
  have same: "xs \<noteq> [] \<Longrightarrow> s\<lparr>firstFault := first_of xs\<rparr> = ?s" using ends(2) by simp
  have "take_fault s = Ret x ?s"
    using l ends(1) d nx xn first_of_eq_NULL[OF slist_nonnull[OF slx]] same
    by (simp add: take_fault_def anscheduler_pager_peek_def anscheduler_pager_shift_def kern)
  moreover have "fault_queue ?s xs"
    using slx l ex by (cases xs) (simp_all add: fault_queue_def)
  ultimately show ?thesis by (intro exI[of _ "first_of xs"] exI[of _ ?l]) simp
qed

interpretation pager: fifo fault_queue take_fault
proof
  fix s :: "'a sched" and x xs
  assume "fault_queue s (x # xs)"
  then show "\<exists>s'. take_fault s = Ret x s' \<and> fault_queue s' xs" using take_fault_Cons by blast
qed (auto simp: take_fault_Nil fault_queue_def dest: slist_nonnull)

subsection \<open>Reporting a fault\<close>

definition fault_of :: "'v sched \<Rightarrow> fault_info_t \<Rightarrow> page_fault_t" where
  "fault_of s info = \<lparr>pf_next = NULL, pf_task = cpu_task s, pf_thread = cpu_thread s,
     pf_ptr = fi_ptr info, pf_flags = fi_flags info\<rparr>"

lemma push_fault_queued:
  assumes P: "allocator P" and c: "cpu_locked s" and q: "fault_queue s fs"
    and pg: "pagerThread s \<noteq> NULL" and task: "cpu_task s \<noteq> NULL"
  shows "(\<exists>s'. push_page_fault_cont P info s = Stop (Aborted ''failed to allocate fault object'') s') \<or>
    (\<exists>f hp a b. f \<noteq> NULL \<and> \<not> live s f \<and> hp f = Some (fault_of s info) \<and>
      (\<forall>p. p \<noteq> f \<longrightarrow> map_option fault_core (hp p) = map_option fault_core (faults s p)) \<and>
      fault_queue (s\<lparr>faults := hp, allocs := Suc (allocs s), cpu_task := NULL, cpu_thread := NULL,
          firstFault := a, lastFault := b\<rparr>) (fs @ [f]) \<and>
      push_page_fault_cont P info s = bnd (wake_pager P) (\<lambda>_. ret True)
        (s\<lparr>faults := hp, allocs := Suc (allocs s), cpu_task := NULL, cpu_thread := NULL,
          firstFault := a, lastFault := b\<rparr>))"
proof -
  let ?s0 = "s\<lparr>cpu_task := NULL, cpu_thread := NULL\<rparr>"
  have "cpu_locked ?s0" using c by simp
  from allocator.alloc_result[OF P this, of sizeof_page_fault_t] show ?thesis
  proof (elim disjE exE conjE)
    assume "anscheduler_alloc P sizeof_page_fault_t ?s0 = Ret NULL (?s0\<lparr>allocs := Suc (allocs ?s0)\<rparr>)"
    then have "push_page_fault_cont P info s = Stop (Aborted ''failed to allocate fault object'')
        (?s0\<lparr>allocs := Suc (allocs ?s0)\<rparr>)"
      using pg task unfolding push_page_fault_cont_def by (simp add: kern)
    then show ?thesis by (rule disjI1[OF exI])
  next
    fix f
    assume f: "f \<noteq> NULL" "\<not> live ?s0 f" and al: "anscheduler_alloc P sizeof_page_fault_t ?s0 =
      Ret f (?s0\<lparr>allocs := Suc (allocs ?s0), raws := (raws ?s0)(f \<mapsto> sizeof_page_fault_t)\<rparr>)"
    have fl: "\<not> live s f" using f(2) by simp
    let ?d = "fault_of s info"
    let ?s1 = "s\<lparr>faults := (faults s)(f \<mapsto> ?d), allocs := Suc (allocs s), cpu_task := NULL, cpu_thread := NULL\<rparr>"
    have fs: "f \<notin> set fs" using q not_live(7)[OF fl] by (auto simp: fault_queue_def)
    have "fault_queue ?s1 fs" using q fs by (auto simp: fault_queue_def slist_fld_frame)
    moreover have "faults ?s1 f = Some ?d" "pf_next ?d = NULL" by (simp_all add: fault_of_def)
    ultimately obtain hp a b where
      ap: "append_fault f ?s1 = Ret () (?s1\<lparr>faults := hp, firstFault := a, lastFault := b\<rparr>)"
        "fault_queue (?s1\<lparr>faults := hp, firstFault := a, lastFault := b\<rparr>) (fs @ [f])" "hp f = Some ?d"
        "\<forall>p. map_option fault_core (hp p) = map_option fault_core (faults ?s1 p)"
      using append_fault_appends[of ?s1 fs f ?d] f(1) fs by blast
    let ?s2 = "s\<lparr>faults := hp, allocs := Suc (allocs s), cpu_task := NULL, cpu_thread := NULL,
          firstFault := a, lastFault := b\<rparr>"
    have s2: "?s1\<lparr>faults := hp, firstFault := a, lastFault := b\<rparr> = ?s2" by simp
    have s1: "?s0\<lparr>allocs := Suc (allocs s), raws := (raws s)(f := None), faults := (faults s)(f \<mapsto> ?d)\<rparr> = ?s1"
      using not_live(1)[OF fl] by (intro sched.equality) (simp_all add: fun_upd_idem)
    have "push_page_fault_cont P info s =
      bnd (append_fault f) (\<lambda>_. bnd (wake_pager P) (\<lambda>_. ret True))
        (?s0\<lparr>allocs := Suc (allocs s), raws := (raws s)(f := None), faults := (faults s)(f \<mapsto> ?d)\<rparr>)"
      using pg task f(1) al by (simp add: push_page_fault_cont_def kern fault_of_def)
    then have "push_page_fault_cont P info s = bnd (wake_pager P) (\<lambda>_. ret True) ?s2"
      using ap(1) unfolding s1 s2 by (simp only: bnd_Ret)
    moreover have "\<forall>p. p \<noteq> f \<longrightarrow> map_option fault_core (hp p) = map_option fault_core (faults s p)"
      using ap(4) by simp
    ultimately show ?thesis using f(1) fl ap(2,3) unfolding s2 by blast
  qed
qed

subsection \<open>Exit and retry\<close>

lemma task_exit_runs:
  assumes tk: "cpu_task s = task" "tasks s task = Some tk" "KillLock task \<notin> set (held s)" "t_isKilled tk = 0"
    "t_refCount tk \<noteq> 1" and pg: "pager_not s task"
  shows "task_exit P code s = anscheduler_loop_run P (s\<lparr>tasks := (tasks s)(task \<mapsto>
    tk\<lparr>t_isKilled := 1, t_killReason := code, t_refCount := t_refCount tk - 1\<rparr>), cpu_task := NULL, cpu_thread := NULL\<rparr>)"
proof -
  let ?s0 = "s\<lparr>cpu_task := NULL, cpu_thread := NULL\<rparr>" and ?tk = "tk\<lparr>t_isKilled := 1, t_killReason := code\<rparr>"
  let ?s1 = "s\<lparr>tasks := (tasks s)(task \<mapsto> ?tk), cpu_task := NULL, cpu_thread := NULL\<rparr>"
  have "anscheduler_task_kill task code ?s0 = Ret () (?s0\<lparr>tasks := (tasks s)(task \<mapsto> ?tk)\<rparr>)"
    using task_kill_runs[of ?s0 task tk code] tk(2-4) pg by (auto simp: pager_not_def)
  moreover have "?s0\<lparr>tasks := (tasks s)(task \<mapsto> ?tk)\<rparr> = ?s1" by simp
  ultimately have kill: "anscheduler_task_kill task code ?s0 = Ret () ?s1" by simp
  have "anscheduler_task_dereference P task ?s1 =
      Ret () (?s1\<lparr>tasks := (tasks ?s1)(task \<mapsto> ?tk\<lparr>t_refCount := t_refCount ?tk - 1\<rparr>)\<rparr>)"
    using task_dereference_runs[of ?s1 task ?tk P] tk(3,5) by (simp add: Let_def)
  then show ?thesis using kill tk(1) by (simp add: task_exit_def kern cpu_order)
qed

text \<open>Taking a reference for the next thread leaves the kill flag and reason of every task alone.\<close>

lemma take_ref_kill:
  assumes "take_ref s r p = Some tk'"
  shows "\<exists>tk. tasks s p = Some tk \<and> t_isKilled tk' = t_isKilled tk \<and> t_killReason tk' = t_killReason tk"
  using assms by (auto simp: take_ref_def split: option.splits if_splits)

lemma take_ref_dom: "(take_ref s r p = None) = (tasks s p = None)"
  by (auto simp: take_ref_def split: option.splits)

lemma loop_run_keeps_kill:
  assumes "run_queue s xs" and "queue_ok s xs" and "LoopLock \<notin> set (held s)" and "cpu_task s = NULL"
    and "cpu_locked s" and "tasks s task = Some tk"
  shows "\<exists>c s' tk'. anscheduler_loop_run P s = Stop c s' \<and> tasks s' task = Some tk' \<and>
    t_isKilled tk' = t_isKilled tk \<and> t_killReason tk' = t_killReason tk"
proof -
  note run = loop_run_no_task[OF assms(1-5), of P]
  show ?thesis
  proof (cases "\<exists>x \<in> set xs. runnable s x")
    case True
    then obtain s' c r where s': "anscheduler_loop_run P s = Stop c s'" "tasks s' = take_ref s r"
      using run by (simp only: if_True) blast
    obtain tk' where tk': "tasks s' task = Some tk'"
      using take_ref_dom[of s r task] assms(6) unfolding s'(2) by auto
    then show ?thesis using take_ref_kill[of s r task tk'] s' assms(6) by auto
  next
    case False
    then show ?thesis using run assms(6) by (simp only: if_False) auto
  qed
qed

subsection \<open>Properties\<close>

text \<open>A task whose thread faulted, with the pager's thread of another task.\<close>

definition fault_ex :: "bool \<Rightarrow> flatvm sched" where
  "fault_ex polling = flat_boot\<lparr>tasks := [0xA0000 \<mapsto> zero_task\<lparr>t_refCount := 2, t_firstThread := 0xB0000, t_vm := 0x1000\<rparr>,
       0xD0000 \<mapsto> zero_task\<lparr>t_refCount := 1, t_firstThread := 0xE0000\<rparr>],
     threads := [0xB0000 \<mapsto> zero_thread\<lparr>th_task := 0xA0000\<rparr>,
       0xE0000 \<mapsto> zero_thread\<lparr>th_task := 0xD0000, th_isPolling := polling\<rparr>],
     faults := [0xF0000 \<mapsto> \<lparr>pf_next = NULL, pf_task = 0xA0000, pf_thread = 0xB1000, pf_ptr = 0x5000, pf_flags = 0\<rparr>],
     cpu_task := 0xA0000, cpu_thread := 0xB0000, pagerThread := 0xE0000, firstFault := 0xF0000, lastFault := 0xF0000\<rparr>"

lemma fault_ex_fields:
  "cpu_locked (fault_ex b)" "pagerThread (fault_ex b) = 0xE0000" "cpu_task (fault_ex b) = 0xA0000"
  "threads (fault_ex b) 0xE0000 = Some (zero_thread\<lparr>th_task := 0xD0000, th_isPolling := b\<rparr>)"
  "held (fault_ex b) = []" "cpu_thread (fault_ex b) = 0xB0000"
  by (simp_all add: fault_ex_def flat_boot_def boot_def)

lemma fault_ex_queue: "fault_queue (fault_ex b) [0xF0000]"
  by (simp add: fault_queue_def fault_ex_def slist_Cons fld_def flat_boot_def boot_def)

text \<open>C22: faults go to the pager in order, and none is lost. With a busy pager, reporting a fault
  leaves it at the end of the queue with the task, thread, address and flags of the fault, the
  CPU without a thread, and the faulting thread not in the run queue; the pager then takes
  exactly the faults that waited and this one, in this order. The kernel aborts when there is no
  memory for the fault.\<close>

theorem page_faults_fifo:
  assumes "allocator P" and "cpu_locked s" and "fault_queue s fs" and "pagerThread s \<noteq> NULL"
    and "threads s (pagerThread s) = Some th" and "\<not> th_isPolling th" and "cpu_task s \<noteq> NULL"
    and "length fs < n"
  shows "(\<exists>s'. push_page_fault_cont P info s = Stop (Aborted ''failed to allocate fault object'') s') \<or>
    (\<exists>f s' s''. push_page_fault_cont P info s = Ret True s' \<and> \<not> live s f \<and> fault_queue s' (fs @ [f]) \<and>
       faults s' f = Some (fault_of s info) \<and> cpu_task s' = NULL \<and> cpu_thread s' = NULL \<and>
       threads s' = threads s \<and> firstThread s' = firstThread s \<and>
       drain (\<lambda>f. f \<noteq> NULL) n take_fault s' = Ret (fs @ [f]) s'' \<and> fault_queue s'' [])"
  using push_fault_queued[OF assms(1-4,7), of info]
proof (elim disjE exE conjE)
  fix s' assume "push_page_fault_cont P info s = Stop (Aborted ''failed to allocate fault object'') s'"
  then show ?thesis by blast
next
  fix f hp a b
  let ?s = "s\<lparr>faults := hp, allocs := Suc (allocs s), cpu_task := NULL, cpu_thread := NULL,
      firstFault := a, lastFault := b\<rparr>"
  assume f: "\<not> live s f" "hp f = Some (fault_of s info)" and q: "fault_queue ?s (fs @ [f])"
    and run: "push_page_fault_cont P info s = bnd (wake_pager P) (\<lambda>_. ret True) ?s"
  have "wake_pager P ?s = Ret () (?s\<lparr>threads := (threads s)(pagerThread s \<mapsto> th\<lparr>th_isPolling := False\<rparr>)\<rparr>)"
    using assms(5,6) by (simp add: wake_pager_def kern)
  moreover have "?s\<lparr>threads := (threads s)(pagerThread s \<mapsto> th\<lparr>th_isPolling := False\<rparr>)\<rparr> = ?s"
    using assms(5,6) by (intro sched.equality) (simp_all add: map_upd_triv)
  ultimately have "push_page_fault_cont P info s = Ret True ?s" using run by (simp only: bnd_Ret ret_apply)
  moreover obtain s'' where "drain (\<lambda>f. f \<noteq> NULL) n take_fault ?s = Ret (fs @ [f]) s''" "fault_queue s'' []"
    using pager.drain_all[OF q, of n] assms(8) by auto
  ultimately show ?thesis using f q by (intro disjI2 exI[of _ f] exI[of _ ?s] exI[of _ s'']) simp
qed

theorem page_faults_fifo_witness:
  "(\<exists>s'. push_page_fault_cont flat_plat \<lparr>fi_ptr = 0x6000, fi_flags = 2\<rparr> (fault_ex False) =
      Stop (Aborted ''failed to allocate fault object'') s') \<or>
   (\<exists>f s' s''. push_page_fault_cont flat_plat \<lparr>fi_ptr = 0x6000, fi_flags = 2\<rparr> (fault_ex False) = Ret True s' \<and>
      drain (\<lambda>f. f \<noteq> NULL) 2 take_fault s' = Ret [0xF0000, f] s'')"
proof -
  note w = page_faults_fifo[OF flat.allocator_axioms fault_ex_fields(1) fault_ex_queue, of False _ 2
    "\<lparr>fi_ptr = 0x6000, fi_flags = 2\<rparr>", unfolded fault_ex_fields(2,3), OF _ fault_ex_fields(4)]
  have "\<not> th_isPolling (zero_thread\<lparr>th_task := 0xD0000, th_isPolling := False\<rparr>)" by simp
  from w[OF _ this] show ?thesis by fastforce
qed

text \<open>C37: demand allocation. A fault on a page that is marked to be allocated and has no entry yet
  is served without the pager: the page gets the block that the platform hands out as its entry, with the
  user, present and write flags, no other page of this or another address space changes, and the
  faulting thread goes on with the same locks held. The block is fresh, and allocated with the
  size of a page. The mapping cannot fail: the page has an entry in the tables already. Only when
  there is no memory for the block the code writes through NULL.\<close>

theorem page_fault_allocates:
  assumes "allocator P" and "vm_platform P spaces vp" and "spaces (vmst s) R" and "t_vm tk \<in> R"
    and "vp (drop_bit 12 ptr)" and "cpu_task s = task" and "task \<noteq> NULL" and "tasks s task = Some tk"
    and "VmLock task \<notin> set (held s)" and "cpu_locked s" and "raws s NULL = None"
    and "threads s (cpu_thread s) = Some th" and "fault_flags AND PAGE_FAULT_PRESENT = 0"
    and "pf_vm_lookup P (vmst s) (t_vm tk) (drop_bit 12 ptr) = (0, fl)" and "fl AND PAGE_FLAG_UNALLOC \<noteq> 0"
    and "pf_alloc P (allocs s) 0x1000 (live s) = p"
  shows "if p = NULL then anscheduler_page_fault P ptr fault_flags s = Crash (BadPtr NULL)
    else \<not> live s p \<and> (\<exists>v. anscheduler_page_fault P ptr fault_flags s =
        Stop (RunThread task (cpu_thread s)) (s\<lparr>raws := (raws s)(p \<mapsto> 0x1000), allocs := Suc (allocs s),
          vmst := v, cpu_locked := cpuLocked (th_state th)\<rparr>) \<and> spaces v R \<and>
      (\<forall>root \<in> R. \<forall>q. vp q \<longrightarrow> pf_vm_lookup P v root q =
        (if root = t_vm tk \<and> q = drop_bit 12 ptr then (pf_vm_physical P (drop_bit 12 p), 7)
         else pf_vm_lookup P (vmst s) root q)))"
proof -
  let ?h = "VmLock task # held s" and ?page = "drop_bit 12 ptr" and ?fl = "PAGE_FLAG_USER OR PAGE_FLAG_PRESENT OR PAGE_FLAG_WRITE"
  let ?s1 = "s\<lparr>held := ?h\<rparr>" and ?d = "pf_vm_physical P (drop_bit 12 p)"
  have sa: "should_allocate 0 fl" using assms(15) by (simp add: should_allocate_def)
  have fl7: "?fl = 7" by (simp add: PAGE_FLAG_USER_def PAGE_FLAG_PRESENT_def PAGE_FLAG_WRITE_def)
  note start = anscheduler_page_fault_def Let_def kern
  have "cpu_locked ?s1" "pf_alloc P (allocs ?s1) 0x1000 (live ?s1) = p" using assms(10,16) by simp_all
  note al = allocator.alloc_value[OF assms(1) this]
  show ?thesis
  proof (cases "p = NULL")
    case True
    have "zero_block NULL (?s1\<lparr>allocs := Suc (allocs ?s1)\<rparr>) = Crash (BadPtr NULL)"
      using assms(11) by (simp add: zero_block_def)
    then have "anscheduler_page_fault P ptr fault_flags s = Crash (BadPtr NULL)"
      using assms(6-9,13,14) sa al(1) True by (simp add: start)
    then show ?thesis using True by simp
  next
    case False
    obtain ok v where v: "pf_vm_map P (vmst s) (t_vm tk) ?page ?d 7 = (ok, v)" by fastforce
    have "pf_vm_lookup P (vmst s) (t_vm tk) ?page \<noteq> (0, 0)" using assms(14,15) by auto
    from vm_platform.remap[OF assms(2-5) this, of ?d 7] have ok: "ok" using v by simp
    let ?s' = "s\<lparr>raws := (raws s)(p \<mapsto> 0x1000), allocs := Suc (allocs s), vmst := v,
      cpu_locked := cpuLocked (th_state th)\<rparr>"
    have "anscheduler_page_fault P ptr fault_flags s = Stop (RunThread task (cpu_thread s)) ?s'"
      using assms(6-9,12-14) sa al(1) False v by (simp add: start anscheduler_vm_map_def fl7 sched_order)
    moreover have "spaces v R" using vm_platform.map_spaces[OF assms(2-5), of ?d 7] v by simp
    moreover have "\<forall>root \<in> R. \<forall>q. vp q \<longrightarrow> pf_vm_lookup P v root q =
        (if root = t_vm tk \<and> q = ?page then (?d, 7) else pf_vm_lookup P (vmst s) root q)"
      using vm_platform.map_lookup[OF assms(2-4) _ assms(5) _ vm_platform.physical_block[OF assms(2)], of _ _ 7 p] v ok
      by auto
    moreover have "\<not> live s p" using al(2) False by simp
    ultimately show ?thesis using False by (simp only: if_False simp_thms) blast
  qed
qed

definition demand_ex :: "flatvm sched" where
  "demand_ex = (fault_ex False)\<lparr>vmst := (0x1000, (\<lambda>_ _. (0, 0))(0x1000 := (\<lambda>_. (0, 0))(0x200000 := (0, 0x206))))\<rparr>"

theorem page_fault_allocates_witness:
  "\<exists>s'. anscheduler_page_fault flat_plat 0x200000123 6 demand_ex = Stop (RunThread 0xA0000 0xB0000) s' \<and>
     \<not> live demand_ex 0x1000 \<and> raws s' 0x1000 = Some 0x1000 \<and> pf_vm_lookup flat_plat (vmst s') 0x1000 0x200000 = (1, 7)"
proof -
  let ?tk = "zero_task\<lparr>t_refCount := 2, t_firstThread := 0xB0000, t_vm := 0x1000\<rparr>"
  have s: "cpu_task demand_ex = 0xA0000" "tasks demand_ex 0xA0000 = Some ?tk" "held demand_ex = []" "cpu_locked demand_ex"
    "raws demand_ex NULL = None" "cpu_thread demand_ex = 0xB0000"
    "threads demand_ex 0xB0000 = Some (zero_thread\<lparr>th_task := 0xA0000\<rparr>)" "flat_spaces (vmst demand_ex) {0x1000}"
    by (simp_all add: demand_ex_def fault_ex_def flat_boot_def boot_def flat_spaces_def)
  have lk: "pf_vm_lookup flat_plat (vmst demand_ex) (t_vm ?tk) (drop_bit 12 0x200000123) = (0, 0x206)"
    by (simp add: flat_plat_def demand_ex_def)
  have al: "pf_alloc flat_plat (allocs demand_ex) 0x1000 (live demand_ex) = 0x1000"
    by (simp add: flat_plat_def flat_alloc_def live_def demand_ex_def fault_ex_def flat_boot_def boot_def)
  have ph: "pf_vm_physical flat_plat (drop_bit 12 0x1000) = 1" by (simp add: flat_plat_def)
  note w = page_fault_allocates[OF flat.allocator_axioms flatvm.vm_platform_axioms s(8) _ _ s(1) _ s(2),
    unfolded s(3,6), OF _ _ _ _ s(4,5,7) _ lk _ al, unfolded ph]
  show ?thesis
    using w[of 6] by (auto simp: PAGE_FAULT_PRESENT_def PAGE_FLAG_UNALLOC_def)
qed

text \<open>C38: a write to a page that is present and writable is taken for an error. When another thread
  has just allocated the page and this CPU has not seen the new entry yet, a read is retried, but
  a write is handed to the pager, and without a pager the task is killed for its memory use:
  the test of the write flag is inverted (the comment in the code says that such a fault is to
  be retried).\<close>

theorem spurious_write_fault_kills:
  assumes "run_queue s xs" and "queue_ok s xs" and "LoopLock \<notin> set (held s)" and "cpu_locked s"
    and "cpu_task s = task" and "task \<noteq> NULL" and "tasks s task = Some tk" and "VmLock task \<notin> set (held s)"
    and "KillLock task \<notin> set (held s)" and "t_isKilled tk = 0" and "t_refCount tk \<noteq> 1" and "pagerThread s = NULL"
    and "threads s (cpu_thread s) = Some th"
    and "pf_vm_lookup P (vmst s) (t_vm tk) (drop_bit 12 ptr) = (entry, 7)"
  shows "anscheduler_page_fault P ptr 4 s =
      Stop (RunThread task (cpu_thread s)) (s\<lparr>cpu_locked := cpuLocked (th_state th)\<rparr>) \<and>
    (\<exists>c s' tk'. anscheduler_page_fault P ptr 6 s = Stop c s' \<and> tasks s' task = Some tk' \<and>
       t_isKilled tk' = 1 \<and> t_killReason tk' = KILL_REASON_MEMORY)"
proof
  note flags = PAGE_FAULT_PRESENT_def PAGE_FAULT_WRITE_def PAGE_FLAG_PRESENT_def PAGE_FLAG_WRITE_def
    PAGE_FLAG_USER_def PAGE_FLAG_UNALLOC_def
  have sf: "\<not> should_allocate entry 7" "\<not> should_fault 4 entry 7" "should_fault 6 entry 7"
    by (simp_all add: should_allocate_def should_fault_def flags)
  have pr: "(4 :: u64) AND PAGE_FAULT_PRESENT = 0" "(6 :: u64) AND PAGE_FAULT_PRESENT = 0" by (simp_all add: flags)
  show "anscheduler_page_fault P ptr 4 s =
      Stop (RunThread task (cpu_thread s)) (s\<lparr>cpu_locked := cpuLocked (th_state th)\<rparr>)"
    using assms(5-8,13,14) sf pr by (simp add: anscheduler_page_fault_def Let_def kern)
  let ?info = "\<lparr>fi_ptr = ptr, fi_flags = 6\<rparr>"
  let ?tk = "tk\<lparr>t_isKilled := 1, t_killReason := 2, t_refCount := t_refCount tk - 1\<rparr>"
  let ?s1 = "s\<lparr>tasks := (tasks s)(task \<mapsto> ?tk), cpu_task := NULL, cpu_thread := NULL\<rparr>"
  have "pager_not s task" using assms(12) by (simp add: pager_not_def)
  then have "task_exit P 2 s = anscheduler_loop_run P ?s1"
    using task_exit_runs[of s task tk P 2] assms(5,7,9-11) by simp
  moreover have "queue_ok ?s1 xs" using assms(2,7,9) by (simp add: queue_ok_def killable_def)
  moreover have "run_queue ?s1 xs" using assms(1) by (simp add: run_queue_def)
  ultimately obtain c s' tk' where ex: "task_exit P 2 s = Stop c s'" "tasks s' task = Some tk'"
    "t_isKilled tk' = 1" "t_killReason tk' = 2"
    using loop_run_keeps_kill[of ?s1 xs task ?tk P] assms(3,4) by auto
  have "push_page_fault_cont P ?info s = Ret False s"
    using assms(12) by (simp add: push_page_fault_cont_def kern)
  then have "push_page_fault P ?info s = Stop c s'"
    using ex(1) by (simp add: push_page_fault_def anscheduler_task_exit_def KILL_REASON_MEMORY_def kern)
  then have "anscheduler_page_fault P ptr 6 s = Stop c s'"
    using assms(5-8,14) sf pr by (simp add: anscheduler_page_fault_def Let_def kern)
  then show "\<exists>c s' tk'. anscheduler_page_fault P ptr 6 s = Stop c s' \<and> tasks s' task = Some tk' \<and>
       t_isKilled tk' = 1 \<and> t_killReason tk' = KILL_REASON_MEMORY"
    using ex(2-4) by (auto simp: KILL_REASON_MEMORY_def)
qed

definition spurious_ex :: "flatvm sched" where
  "spurious_ex = (fault_ex False)\<lparr>vmst := (0x1000, (\<lambda>_ _. (0, 0))(0x1000 := (\<lambda>_. (0, 0))(0x200000 := (0x77, 7)))),
     pagerThread := NULL\<rparr>"

theorem spurious_write_fault_kills_witness:
  "\<exists>c s' tk'. anscheduler_page_fault flat_plat 0x200000123 6 spurious_ex = Stop c s' \<and>
     tasks s' 0xA0000 = Some tk' \<and> t_isKilled tk' = 1"
proof -
  let ?tk = "zero_task\<lparr>t_refCount := 2, t_firstThread := 0xB0000, t_vm := 0x1000\<rparr>"
  have s: "cpu_task spurious_ex = 0xA0000" "tasks spurious_ex 0xA0000 = Some ?tk" "held spurious_ex = []"
    "cpu_locked spurious_ex" "pagerThread spurious_ex = NULL" "cpu_thread spurious_ex = 0xB0000"
    "threads spurious_ex 0xB0000 = Some (zero_thread\<lparr>th_task := 0xA0000\<rparr>)"
    "run_queue spurious_ex []" "queue_ok spurious_ex []"
    by (simp_all add: spurious_ex_def fault_ex_def flat_boot_def boot_def run_queue_def queue_ok_def)
  have lk: "pf_vm_lookup flat_plat (vmst spurious_ex) (t_vm ?tk) (drop_bit 12 0x200000123) = (0x77, 7)"
    by (simp add: flat_plat_def spurious_ex_def)
  have "t_isKilled ?tk = 0" "t_refCount ?tk \<noteq> 1" by (simp_all add: zero_task_def)
  then show ?thesis
    using spurious_write_fault_kills[OF s(8,9) _ s(4,1) _ s(2) _ _ _ _ s(5) _ lk] s(3,6,7) by auto
qed

end
