(* ===== verification/Thread.thy ===== *)
theory Thread
  imports Interrupts Paging Socket_List
begin

unbundle bit_operations_syntax

text \<open>
  Threads (\<open>src/thread.c\<close>): creating one with its two stacks, adding it to its task, polling,
  and exit.

  A thread has an index, \<open>stack\<close>, from its task's pool. The index gives the page of its kernel
  stack, which is allocated when the thread is created, and the 256 pages of its user stack,
  which are only marked as to be allocated; the page fault handler fills them in.
\<close>

subsection \<open>The layout of the stacks\<close>

definition KERN_STACKS_PAGE :: u64 where "KERN_STACKS_PAGE = 0x100000"
definition USER_STACKS_PAGE :: u64 where "USER_STACKS_PAGE = 0x200000"
definition DATA_PAGE :: u64 where "DATA_PAGE = 0x10200000"

definition kern_page :: "u64 \<Rightarrow> u64" where
  "kern_page stack = KERN_STACKS_PAGE + stack"

definition user_page :: "u64 \<Rightarrow> nat \<Rightarrow> u64" where
  "user_page stack i = USER_STACKS_PAGE + push_bit 8 stack + of_nat i"

definition anscheduler_thread_interrupt_stack :: "addr \<Rightarrow> ('v, addr) kern" where
  "anscheduler_thread_interrupt_stack thread =
     bnd (rd_thread thread) (\<lambda>th.
     let page = th_stack th + KERN_STACKS_PAGE in
     ret (push_bit 12 (page + 1)))"

definition anscheduler_thread_user_stack :: "addr \<Rightarrow> ('v, addr) kern" where
  "anscheduler_thread_user_stack thread =
     bnd (rd_thread thread) (\<lambda>th.
     let page = push_bit 8 (th_stack th) + USER_STACKS_PAGE in
     ret (push_bit 12 (page + 0x100)))"

definition anscheduler_thread_kernel_stack :: "'v plat \<Rightarrow> addr \<Rightarrow> addr \<Rightarrow> ('v, addr) kern" where
  "anscheduler_thread_kernel_stack P task thread =
     bnd (rd_thread thread) (\<lambda>th.
     let vPage = kern_page (th_stack th) in
     bnd (anscheduler_lock (VmLock task)) (\<lambda>_.
     bnd (rd_task task) (\<lambda>tk.
     bnd (anscheduler_vm_lookup P (t_vm tk) vPage) (\<lambda>(entry, flags).
     bnd (anscheduler_unlock (VmLock task)) (\<lambda>_.
     ret (if flags AND PAGE_FLAG_PRESENT \<noteq> 0 then push_bit 12 (pf_vm_virtual P entry) else NULL))))))"

subsection \<open>Creating a thread\<close>

definition alloc_kernel_stack :: "'v plat \<Rightarrow> addr \<Rightarrow> addr \<Rightarrow> ('v, bool) kern" where
  "alloc_kernel_stack P task thread =
     bnd (anscheduler_alloc P 0x1000) (\<lambda>buffer.
     if buffer = NULL then ret False
     else
       bnd (rd_thread thread) (\<lambda>th.
       let kPage = kern_page (th_stack th);
           phyPage = pf_vm_physical P (drop_bit 12 buffer);
           flags = PAGE_FLAG_PRESENT OR PAGE_FLAG_WRITE in
       bnd (anscheduler_lock (VmLock task)) (\<lambda>_.
       bnd (rd_task task) (\<lambda>tk.
       bnd (anscheduler_vm_map P (t_vm tk) kPage phyPage flags) (\<lambda>ok.
       if \<not> ok then
         bnd (anscheduler_unlock (VmLock task)) (\<lambda>_.
         bnd (anscheduler_free_raw buffer) (\<lambda>_.
         ret False))
       else
         bnd (anscheduler_unlock (VmLock task)) (\<lambda>_.
         ret True))))))"

text \<open>One round of the loop of \<open>_map_user_stack\<close>; on failure the pages mapped so far are unmapped.\<close>

definition map_user_round :: "'v plat \<Rightarrow> addr \<Rightarrow> u64 \<Rightarrow> nat \<Rightarrow> ('v, nat + bool) kern" where
  "map_user_round P task stack i =
     (if i < 0x100 then
        bnd (rd_task task) (\<lambda>tk.
        bnd (anscheduler_vm_map P (t_vm tk) (user_page stack i) 0
               (PAGE_FLAG_UNALLOC OR PAGE_FLAG_USER OR PAGE_FLAG_WRITE)) (\<lambda>ok.
        if \<not> ok then
          bnd (kfor 0 i (\<lambda>j. bnd (rd_task task) (\<lambda>tk. anscheduler_vm_unmap P (t_vm tk) (user_page stack j)))) (\<lambda>_.
          bnd (anscheduler_unlock (VmLock task)) (\<lambda>_.
          ret (Inr False)))
        else ret (Inl (Suc i))))
      else
        bnd (anscheduler_unlock (VmLock task)) (\<lambda>_.
        ret (Inr True)))"

definition map_user_stack :: "'v plat \<Rightarrow> addr \<Rightarrow> addr \<Rightarrow> ('v, bool) kern" where
  "map_user_stack P task thread =
     bnd (rd_thread thread) (\<lambda>th.
     bnd (anscheduler_lock (VmLock task)) (\<lambda>_.
     kwhile (map_user_round P task (th_stack th)) 0))"

definition dealloc_kernel_stack :: "'v plat \<Rightarrow> addr \<Rightarrow> addr \<Rightarrow> ('v, unit) kern" where
  "dealloc_kernel_stack P task thread =
     bnd (rd_thread thread) (\<lambda>th.
     let page = kern_page (th_stack th) in
     bnd (anscheduler_lock (VmLock task)) (\<lambda>_.
     bnd (rd_task task) (\<lambda>tk.
     bnd (anscheduler_vm_lookup P (t_vm tk) page) (\<lambda>(phyPage, flags).
     bnd (cond (flags AND PAGE_FLAG_PRESENT \<noteq> 0) (anscheduler_vm_unmap P (t_vm tk) page)) (\<lambda>_.
     bnd (anscheduler_unlock (VmLock task)) (\<lambda>_.
     cond (flags AND PAGE_FLAG_PRESENT \<noteq> 0)
       (anscheduler_free_raw (push_bit 12 (pf_vm_virtual P phyPage)))))))))"

text \<open>Putting a stack index back, as \<open>anscheduler_thread_create\<close> and \<open>_finalize_thread_exit\<close> do.\<close>

definition put_stack :: "'v plat \<Rightarrow> addr \<Rightarrow> u64 \<Rightarrow> ('v, unit) kern" where
  "put_stack P task stack =
     bnd (anscheduler_lock (StacksLock task)) (\<lambda>_.
     bnd (rd_task task) (\<lambda>tk.
     bnd (anidxset_put P (t_stacks tk) stack) (\<lambda>(ok, root).
     bnd (wr_task task (\<lambda>t. t\<lparr>t_stacks := root\<rparr>)) (\<lambda>_.
     anscheduler_unlock (StacksLock task)))))"

text \<open>The second half of \<open>anscheduler_thread_create\<close>: the stacks of a thread whose struct is set up.\<close>

definition setup_stacks :: "'v plat \<Rightarrow> addr \<Rightarrow> addr \<Rightarrow> u64 \<Rightarrow> ('v, addr) kern" where
  "setup_stacks P task thread stack =
     bnd (alloc_kernel_stack P task thread) (\<lambda>ok.
     if \<not> ok then
       bnd (put_stack P task stack) (\<lambda>_.
       bnd (anscheduler_free_thread thread) (\<lambda>_.
       ret NULL))
     else
       bnd (map_user_stack P task thread) (\<lambda>ok.
       if \<not> ok then
         bnd (dealloc_kernel_stack P task thread) (\<lambda>_.
         bnd (put_stack P task stack) (\<lambda>_.
         bnd (anscheduler_free_thread thread) (\<lambda>_.
         ret NULL)))
       else ret thread))"

definition anscheduler_thread_create :: "'v plat \<Rightarrow> addr \<Rightarrow> ('v, addr) kern" where
  "anscheduler_thread_create P task =
     bnd (anscheduler_alloc P (sizeof_thread_t P)) (\<lambda>thread.
     if thread = NULL then ret NULL
     else
       bnd (anscheduler_lock (StacksLock task)) (\<lambda>_.
       bnd (rd_task task) (\<lambda>tk.
       bnd (anidxset_get (t_stacks tk)) (\<lambda>(stack, root).
       bnd (wr_task task (\<lambda>t. t\<lparr>t_stacks := root\<rparr>)) (\<lambda>_.
       bnd (anscheduler_unlock (StacksLock task)) (\<lambda>_.
       if 0x100000 \<le> stack then
         bnd (anscheduler_free_raw thread) (\<lambda>_. ret NULL)
       else
         bnd (new_thread thread zero_thread) (\<lambda>_.
         bnd (wr_thread thread (\<lambda>t. t\<lparr>th_task := task\<rparr>)) (\<lambda>_.
         bnd (wr_thread thread (\<lambda>t. t\<lparr>th_stack := stack\<rparr>)) (\<lambda>_.
         setup_stacks P task thread stack)))))))))"

definition anscheduler_thread_add :: "addr \<Rightarrow> addr \<Rightarrow> ('v, unit) kern" where
  "anscheduler_thread_add task thread =
     bnd (anscheduler_lock (ThreadsLock task)) (\<lambda>_.
     bnd (rd_task task) (\<lambda>tk.
     let next = t_firstThread tk in
     bnd (cond (next \<noteq> NULL) (wr_thread next (\<lambda>t. t\<lparr>th_last := thread\<rparr>))) (\<lambda>_.
     bnd (wr_task task (\<lambda>t. t\<lparr>t_firstThread := thread\<rparr>)) (\<lambda>_.
     bnd (wr_thread thread (\<lambda>t. t\<lparr>th_last := NULL\<rparr>)) (\<lambda>_.
     bnd (wr_thread thread (\<lambda>t. t\<lparr>th_next := next\<rparr>)) (\<lambda>_.
     bnd (anscheduler_unlock (ThreadsLock task)) (\<lambda>_.
     anscheduler_loop_push thread)))))))"

subsection \<open>Polling\<close>

definition anscheduler_thread_poll :: "('v, bool) kern" where
  "anscheduler_thread_poll =
     bnd anscheduler_cpu_get_thread (\<lambda>thread.
     bnd anscheduler_cpu_get_task (\<lambda>task.
     bnd (anscheduler_lock (PendingLock task)) (\<lambda>_.
     bnd (rd_task task) (\<lambda>tk.
     if t_firstPending tk \<noteq> NULL then
       bnd (anscheduler_unlock (PendingLock task)) (\<lambda>_. ret False)
     else
       bnd anscheduler_intd_get (\<lambda>intd.
       if thread = intd then
         bnd anscheduler_intd_lock (\<lambda>_.
         bnd anscheduler_intd_waiting (\<lambda>waiting.
         if \<not> waiting then
           bnd (wr_thread thread (\<lambda>t. t\<lparr>th_isPolling := True\<rparr>)) (\<lambda>_.
           bnd anscheduler_intd_unlock (\<lambda>_.
           bnd (anscheduler_unlock (PendingLock task)) (\<lambda>_.
           ret True)))
         else
           bnd anscheduler_intd_unlock (\<lambda>_.
           bnd (anscheduler_unlock (PendingLock task)) (\<lambda>_.
           ret False))))
       else
         bnd anscheduler_pager_get (\<lambda>pager.
         if thread = pager then
           bnd anscheduler_pager_lock (\<lambda>_.
           bnd anscheduler_pager_waiting (\<lambda>waiting.
           if \<not> waiting then
             bnd (wr_thread thread (\<lambda>t. t\<lparr>th_isPolling := True\<rparr>)) (\<lambda>_.
             bnd anscheduler_pager_unlock (\<lambda>_.
             bnd (anscheduler_unlock (PendingLock task)) (\<lambda>_.
             ret True)))
           else
             bnd anscheduler_pager_unlock (\<lambda>_.
             bnd (anscheduler_unlock (PendingLock task)) (\<lambda>_.
             ret False))))
         else
           bnd (wr_thread thread (\<lambda>t. t\<lparr>th_isPolling := True\<rparr>)) (\<lambda>_.
           bnd (anscheduler_unlock (PendingLock task)) (\<lambda>_.
           ret True))))))))"

subsection \<open>Exit\<close>

text \<open>The bodies of the two loops of \<open>anscheduler_thread_deallocate\<close>, for page \<open>i\<close> of the stack.\<close>

definition release_page :: "'v plat \<Rightarrow> addr \<Rightarrow> u64 \<Rightarrow> nat \<Rightarrow> ('v, unit) kern" where
  "release_page P task stack i =
     (let page = user_page stack i in
      bnd anscheduler_cpu_lock (\<lambda>_.
      bnd (anscheduler_lock (VmLock task)) (\<lambda>_.
      bnd (rd_task task) (\<lambda>tk.
      bnd (anscheduler_vm_lookup P (t_vm tk) page) (\<lambda>(phyPage, flags).
      bnd (if flags AND PAGE_FLAG_PRESENT \<noteq> 0 then
             bnd (anscheduler_vm_map P (t_vm tk) page phyPage ((flags XOR PAGE_FLAG_PRESENT) OR PAGE_FLAG_UNALLOC)) (\<lambda>_.
             skip)
           else if flags \<noteq> 0 \<and> page = 0 then anscheduler_vm_unmap P (t_vm tk) page
           else skip) (\<lambda>_.
      bnd (anscheduler_unlock (VmLock task)) (\<lambda>_.
      anscheduler_cpu_unlock)))))))"

definition free_page :: "'v plat \<Rightarrow> addr \<Rightarrow> u64 \<Rightarrow> nat \<Rightarrow> ('v, unit) kern" where
  "free_page P task stack i =
     (let page = user_page stack i in
      bnd anscheduler_cpu_lock (\<lambda>_.
      bnd (anscheduler_lock (VmLock task)) (\<lambda>_.
      bnd (rd_task task) (\<lambda>tk.
      bnd (anscheduler_vm_lookup P (t_vm tk) page) (\<lambda>(phyPage, flags).
      bnd (cond (phyPage \<noteq> 0 \<or> flags \<noteq> 0) (anscheduler_vm_unmap P (t_vm tk) page)) (\<lambda>_.
      bnd (anscheduler_unlock (VmLock task)) (\<lambda>_.
      bnd (cond (phyPage \<noteq> 0 \<and> flags AND PAGE_FLAG_UNALLOC \<noteq> 0)
             (anscheduler_free_raw (push_bit 12 (pf_vm_virtual P phyPage)))) (\<lambda>_.
      anscheduler_cpu_unlock))))))))"

definition anscheduler_thread_deallocate :: "'v plat \<Rightarrow> addr \<Rightarrow> addr \<Rightarrow> ('v, unit) kern" where
  "anscheduler_thread_deallocate P task thread =
     bnd anscheduler_cpu_lock (\<lambda>_.
     bnd (anscheduler_intd_cmpnull thread) (\<lambda>_.
     bnd anscheduler_cpu_unlock (\<lambda>_.
     bnd (rd_thread thread) (\<lambda>th.
     bnd (kfor 0 0x100 (release_page P task (th_stack th))) (\<lambda>_.
     bnd anscheduler_cpu_lock (\<lambda>_.
     bnd anscheduler_cpu_unlock (\<lambda>_.
     kfor 0 0x100 (free_page P task (th_stack th)))))))))"

definition finalize_thread_exit :: "'v plat \<Rightarrow> addr \<Rightarrow> ('v, unit) kern" where
  "finalize_thread_exit P thread =
     bnd (anscheduler_cpu_set_task NULL) (\<lambda>_.
     bnd (anscheduler_cpu_set_thread NULL) (\<lambda>_.
     bnd (rd_thread thread) (\<lambda>th.
     let task = th_task th in
     bnd (anscheduler_lock (ThreadsLock task)) (\<lambda>_.
     bnd (rd_thread thread) (\<lambda>th.
     bnd (if th_last th = NULL then
            bnd (wr_task task (\<lambda>t. t\<lparr>t_firstThread := th_next th\<rparr>)) (\<lambda>_.
            cond (th_next th \<noteq> NULL) (wr_thread (th_next th) (\<lambda>t. t\<lparr>th_last := NULL\<rparr>)))
          else
            bnd (wr_thread (th_last th) (\<lambda>t. t\<lparr>th_next := th_next th\<rparr>)) (\<lambda>_.
            bnd (rd_thread thread) (\<lambda>th.
            cond (th_next th \<noteq> NULL) (wr_thread (th_next th) (\<lambda>t. t\<lparr>th_last := th_last th\<rparr>))))) (\<lambda>_.
     bnd (anscheduler_unlock (ThreadsLock task)) (\<lambda>_.
     bnd (rd_thread thread) (\<lambda>th.
     bnd (put_stack P task (th_stack th)) (\<lambda>_.
     bnd (anscheduler_thread_kernel_stack P task thread) (\<lambda>stack.
     bnd (anscheduler_free_raw stack) (\<lambda>_.
     bnd (anscheduler_free_thread thread) (\<lambda>_.
     bnd (anscheduler_task_dereference P task) (\<lambda>_.
     anscheduler_loop_run P)))))))))))))"

definition anscheduler_thread_exit :: "'v plat \<Rightarrow> ('v, unit) kern" where
  "anscheduler_thread_exit P =
     bnd anscheduler_cpu_lock (\<lambda>_.
     bnd anscheduler_cpu_get_task (\<lambda>task.
     bnd anscheduler_cpu_get_thread (\<lambda>thread.
     bnd anscheduler_cpu_unlock (\<lambda>_.
     bnd (anscheduler_thread_deallocate P task thread) (\<lambda>_.
     bnd anscheduler_cpu_lock (\<lambda>_.
     finalize_thread_exit P thread))))))"

end
