(* ===== verification/Task.thy ===== *)
theory Task
  imports Thread Socket Pidmap
begin

unbundle bit_operations_syntax

text \<open>
  Tasks (\<open>src/task.c\<close>): creating and launching one, and the kernel thread that frees a killed
  task. References, the kill flag and the kill job are in theory \<open>Task_Life\<close>, the exit of the
  running task in theory \<open>Paging\<close>.
\<close>

subsection \<open>Creating and launching\<close>

text \<open>One round of the loop of \<open>_map_first_4mb\<close>.\<close>

definition map_first_round :: "'v plat \<Rightarrow> addr \<Rightarrow> nat \<Rightarrow> ('v, nat + bool) kern" where
  "map_first_round P task i =
     (if i < 0x400 then
        bnd (rd_task task) (\<lambda>tk.
        bnd (anscheduler_vm_map P (t_vm tk) (of_nat i) (of_nat i)
               (PAGE_FLAG_PRESENT OR PAGE_FLAG_WRITE OR PAGE_FLAG_GLOBAL)) (\<lambda>ok.
        if \<not> ok then ret (Inr False) else ret (Inl (Suc i))))
      else ret (Inr True))"

definition map_first_4mb :: "'v plat \<Rightarrow> addr \<Rightarrow> ('v, bool) kern" where
  "map_first_4mb P task = kwhile (map_first_round P task) 0"

definition anscheduler_task_create :: "'v plat \<Rightarrow> ('v, addr) kern" where
  "anscheduler_task_create P =
     bnd (anscheduler_alloc P (sizeof_task_t P)) (\<lambda>task.
     if task = NULL then ret NULL
     else
       bnd (new_task task zero_task) (\<lambda>_.
       bnd (wr_task task (\<lambda>t. t\<lparr>t_refCount := 1\<rparr>)) (\<lambda>_.
       bnd (anscheduler_vm_root_alloc P) (\<lambda>vm.
       bnd (wr_task task (\<lambda>t. t\<lparr>t_vm := vm\<rparr>)) (\<lambda>_.
       if vm = NULL then
         bnd (anscheduler_free_task task) (\<lambda>_.
         ret NULL)
       else
         bnd (anscheduler_idxset_init P) (\<lambda>(ok, root).
         bnd (wr_task task (\<lambda>t. t\<lparr>t_descriptors := root\<rparr>)) (\<lambda>_.
         if \<not> ok then
           bnd (rd_task task) (\<lambda>tk.
           bnd (anscheduler_vm_root_free P (t_vm tk)) (\<lambda>_.
           bnd (anscheduler_free_task task) (\<lambda>_.
           ret NULL)))
         else
           bnd (anscheduler_idxset_init P) (\<lambda>(ok, root).
           bnd (wr_task task (\<lambda>t. t\<lparr>t_stacks := root\<rparr>)) (\<lambda>_.
           if \<not> ok then
             bnd (rd_task task) (\<lambda>tk.
             bnd (anidxset_free (t_descriptors tk)) (\<lambda>_.
             bnd (anscheduler_vm_root_free P (t_vm tk)) (\<lambda>_.
             bnd (anscheduler_free_task task) (\<lambda>_.
             ret NULL))))
           else
             bnd (map_first_4mb P task) (\<lambda>ok.
             if \<not> ok then
               bnd (rd_task task) (\<lambda>tk.
               bnd (anidxset_free (t_descriptors tk)) (\<lambda>_.
               bnd (anidxset_free (t_stacks tk)) (\<lambda>_.
               bnd (anscheduler_vm_root_free P (t_vm tk)) (\<lambda>_.
               bnd (anscheduler_free_task task) (\<lambda>_.
               ret NULL)))))
             else
               bnd (anscheduler_pidmap_alloc_pid P) (\<lambda>pid.
               bnd (wr_task task (\<lambda>t. t\<lparr>t_pid := pid\<rparr>)) (\<lambda>_.
               ret task))))))))))))"

text \<open>One round of the loop of \<open>anscheduler_task_launch\<close> over the task's threads.\<close>

definition launch_round :: "addr \<Rightarrow> ('v, addr + unit) kern" where
  "launch_round thread =
     (if thread = NULL then ret (Inr ())
      else
        bnd (anscheduler_loop_push thread) (\<lambda>_.
        bnd (rd_thread thread) (\<lambda>th. ret (Inl (th_next th)))))"

definition anscheduler_task_launch :: "'v plat \<Rightarrow> addr \<Rightarrow> ('v, unit) kern" where
  "anscheduler_task_launch P task =
     bnd (anscheduler_task_reference task) (\<lambda>_.
     bnd (anscheduler_pidmap_set task) (\<lambda>_.
     bnd (anscheduler_lock (ThreadsLock task)) (\<lambda>_.
     bnd (rd_task task) (\<lambda>tk.
     bnd (kwhile launch_round (t_firstThread tk)) (\<lambda>_.
     bnd (anscheduler_unlock (ThreadsLock task)) (\<lambda>_.
     anscheduler_task_dereference P task))))))"

subsection \<open>Freeing\<close>

definition resign_continuation :: "'v plat \<Rightarrow> ('v, unit) kern" where
  "resign_continuation P = anscheduler_loop_resign P"

text \<open>
  The wait for a closed socket to leave the table. \<open>anscheduler_save_return_state\<close> does not
  return: when the thread runs again it goes round the loop, so a run of the code ends there.
\<close>

definition wait_round :: "'v plat \<Rightarrow> addr \<Rightarrow> addr \<Rightarrow> u8 \<Rightarrow> addr \<Rightarrow> unit \<Rightarrow> ('v, unit + unit) kern" where
  "wait_round P thread task i desc u =
     bnd (anscheduler_lock (SocketsLock task)) (\<lambda>_.
     bnd (rd_task task) (\<lambda>tk.
     if t_sockets tk i \<noteq> desc then
       bnd (anscheduler_unlock (SocketsLock task)) (\<lambda>_.
       ret (Inr ()))
     else
       bnd (anscheduler_save_return_state thread NULL (\<lambda>_. resign_continuation P)) (\<lambda>_.
       ret (Inl ()))))"

text \<open>One round of the loop over the sockets of bucket \<open>i\<close>.\<close>

definition close_round :: "'v plat \<Rightarrow> addr \<Rightarrow> addr \<Rightarrow> u8 \<Rightarrow> unit \<Rightarrow> ('v, unit + unit) kern" where
  "close_round P thread task i u =
     bnd (anscheduler_lock (SocketsLock task)) (\<lambda>_.
     bnd (rd_task task) (\<lambda>tk.
     let desc = t_sockets tk i in
     bnd (if desc \<noteq> NULL then
            bnd (anscheduler_socket_reference desc) (\<lambda>ok. ret (if ok then desc else NULL))
          else ret NULL) (\<lambda>desc.
     bnd (anscheduler_unlock (SocketsLock task)) (\<lambda>_.
     if desc = NULL then ret (Inr ())
     else
       bnd (rd_task task) (\<lambda>tk.
       bnd (anscheduler_socket_close desc (1 OR push_bit 1 (t_killReason tk))) (\<lambda>_.
       bnd (anscheduler_socket_dereference P desc) (\<lambda>_.
       bnd (kwhile (wait_round P thread task i desc) ()) (\<lambda>_.
       ret (Inl ())))))))))"

definition close_task_sockets_async :: "'v plat \<Rightarrow> addr \<Rightarrow> ('v, unit) kern" where
  "close_task_sockets_async P task =
     bnd anscheduler_cpu_lock (\<lambda>_.
     bnd anscheduler_cpu_get_thread (\<lambda>thread.
     bnd (kfor 0 0x10 (\<lambda>i. kwhile (close_round P thread task (of_nat i)) ())) (\<lambda>_.
     anscheduler_cpu_unlock)))"

text \<open>One round of the loop that frees the threads of the task.\<close>

definition free_threads_round :: "'v plat \<Rightarrow> addr \<Rightarrow> unit \<Rightarrow> ('v, unit + unit) kern" where
  "free_threads_round P task u =
     bnd (rd_task task) (\<lambda>tk.
     let thread = t_firstThread tk in
     if thread = NULL then ret (Inr ())
     else
       bnd (rd_thread thread) (\<lambda>th.
       bnd (wr_task task (\<lambda>t. t\<lparr>t_firstThread := th_next th\<rparr>)) (\<lambda>_.
       bnd (anscheduler_thread_deallocate P task thread) (\<lambda>_.
       bnd anscheduler_cpu_lock (\<lambda>_.
       bnd (anscheduler_thread_kernel_stack P task thread) (\<lambda>stack.
       bnd (anscheduler_free_raw stack) (\<lambda>_.
       bnd (anscheduler_free_thread thread) (\<lambda>_.
       bnd anscheduler_cpu_unlock (\<lambda>_.
       ret (Inl ()))))))))))"

definition free_task_method :: "'v plat \<Rightarrow> addr \<Rightarrow> ('v, unit) kern" where
  "free_task_method P task =
     bnd anscheduler_cpu_lock (\<lambda>_.
     bnd (anscheduler_pidmap_unset task) (\<lambda>_.
     bnd anscheduler_cpu_unlock (\<lambda>_.
     bnd (close_task_sockets_async P task) (\<lambda>_.
     bnd (kwhile (free_threads_round P task) ()) (\<lambda>_.
     bnd (anscheduler_task_cleanup P task) (\<lambda>_.
     bnd (rd_task task) (\<lambda>tk.
     bnd (anscheduler_vm_root_free_async P (t_vm tk)) (\<lambda>_.
     bnd anscheduler_cpu_lock (\<lambda>_.
     bnd (rd_task task) (\<lambda>tk.
     bnd (anidxset_free (t_stacks tk)) (\<lambda>_.
     bnd (anidxset_free (t_descriptors tk)) (\<lambda>_.
     bnd (anscheduler_pidmap_free_pid P (t_pid tk)) (\<lambda>_.
     bnd (anscheduler_free_task task) (\<lambda>_.
     anscheduler_loop_delete_cur_kernel P))))))))))))))"

end
