(* ===== verification/Lock_Discipline.thy ===== *)
theory Lock_Discipline
  imports Lock_Rules Anidxset Loop Pidmap Socket_Queue Interrupts Paging Task "HOL-Library.Sublist"
begin

text \<open>
  The locks held by every operation of the scheduler. Each function returns with the locks that it was
  called with, and gives up the CPU with these locks only, but for the method of the kernel thread that frees a
  task. A function that never returns satisfies the triple with any locks after it.
\<close>

subsection \<open>Index sets\<close>

lemma bal_index [bal]: "bals H0 (wr_index p i x) (h, c) (\<lambda>_. (h, c))" "bals H0 (rd_index p i) (h, c) (\<lambda>_. (h, c))"
  unfolding wr_index_def rd_index_def by (rule bal)+

lemma bal_idxset_alloc [bal]:
  "bals H0 (anscheduler_idxset_alloc P) (h, c) (\<lambda>_. (h, c))" "bals H0 (anscheduler_idxset_free p) (h, c) (\<lambda>_. (h, c))"
  unfolding anscheduler_idxset_alloc_def anscheduler_idxset_free_def by (rule bal)+

lemma bal_idxset_init [bal]: "bals H0 (anscheduler_idxset_init P) (h, c) (\<lambda>_. (h, c))"
  unfolding anscheduler_idxset_init_def anidxset_initialize_def Let_def by (rule bal)+

lemma bal_next_page [bal]: "bals H0 (next_page_loop p i used) (h, c) (\<lambda>_. (h, c))"
proof (induction p i used rule: next_page_loop.induct)
  case (1 p i used)
  show ?case
  proof (cases "i < NODE_CAPACITY")
    case True
    then show ?thesis by (subst next_page_loop.simps) (simp only: if_True, rule bal_bnd[OF bal_index(1)], rule 1)
  next
    case False
    then show ?thesis by (subst next_page_loop.simps) (simp only: if_False bal_ret)
  qed
qed

lemma bal_anidxset [bal]:
  "bals H0 (anidxset_get root) (h, c) (\<lambda>_. (h, c))" "bals H0 (anidxset_put P root x) (h, c) (\<lambda>_. (h, c))"
  "bals H0 (anidxset_free root) (h, c) (\<lambda>_. (h, c))"
  unfolding anidxset_get_def anidxset_put_def anidxset_free_def allocate_next_page_def Let_def by (rule bal)+

subsection \<open>Run queue, tasks and PIDs\<close>

lemma bal_run_queue [bal]:
  "bals H0 (anscheduler_loop_delete thread) (h, c) (\<lambda>_. (h, c))" "bals H0 (push_unconditional thread) (h, c) (\<lambda>_. (h, c))"
  "bals H0 (anscheduler_loop_push thread) (h, c) (\<lambda>_. (h, c))" "bals H0 shift_thread (h, c) (\<lambda>_. (h, c))"
  unfolding anscheduler_loop_delete_def push_unconditional_def anscheduler_loop_push_def shift_thread_def
  by (rule bal bal_modify | simp add: locks_def)+

lemma bal_push_kernel [bal]: "bals H0 (anscheduler_loop_push_kernel P arg fn) (h, c) (\<lambda>_. (h, c))"
  unfolding anscheduler_loop_push_kernel_def by (rule bal)+

lemma bal_task_refs [bal]:
  "bals H0 anscheduler_pager_get (h, c) (\<lambda>_. (h, c))" "bals H0 (anscheduler_task_reference task) (h, c) (\<lambda>_. (h, c))"
  "bals H0 (delete_threads thread) (h, c) (\<lambda>_. (h, c))"
  unfolding anscheduler_pager_get_def anscheduler_task_reference_def delete_threads_def by (rule bal)+

lemma bal_task_life [bal]:
  "bals H0 (anscheduler_task_kill task reason) (h, c) (\<lambda>_. (h, c))" "bals H0 (anscheduler_task_dereference P task) (h, c) (\<lambda>_. (h, c))"
  unfolding anscheduler_task_kill_def anscheduler_task_dereference_def generate_kill_job_def by (rule bal)+

lemma bal_pids [bal]:
  "bals H0 (anscheduler_pidmap_alloc_pid P) (h, c) (\<lambda>_. (h, c))" "bals H0 (anscheduler_pidmap_free_pid P pid) (h, c) (\<lambda>_. (h, c))"
  "bals H0 (anscheduler_pidmap_set task) (h, c) (\<lambda>_. (h, c))" "bals H0 (anscheduler_pidmap_unset task) (h, c) (\<lambda>_. (h, c))"
  "bals H0 (anscheduler_task_for_pid pid) (h, c) (\<lambda>_. (h, c))"
  unfolding anscheduler_pidmap_alloc_pid_def anscheduler_pidmap_free_pid_def anscheduler_pidmap_set_def
    anscheduler_pidmap_unset_def anscheduler_task_for_pid_def anscheduler_pidmap_get_def pidmap_get_round_def Let_def
  by (rule bal bal_modify | simp add: locks_def)+

subsection \<open>The scheduler loop\<close>

lemma bal_next_thread [bal]: "bals H0 (next_thread P) (h, c) (\<lambda>_. (h, c))"
  unfolding next_thread_def next_thread_round_def Let_def by (rule bal bal_modify | simp add: locks_def)+

lemma bal_push_cur [bal]: "bals H0 (anscheduler_loop_push_cur P) (h, c) (\<lambda>_. (h, c))"
  unfolding anscheduler_loop_push_cur_def by (rule bal)+

lemma bal_loop_run [bal]: "bal h (anscheduler_loop_run P) (h, True) H"
  unfolding anscheduler_loop_run_def by (rule bal)+

lemma bal_loop [bal]:
  "bal h (anscheduler_loop_break_task P) (h, True) H" "bal h (anscheduler_loop_resign P) (h, True) H"
  "bal h (anscheduler_loop_save_and_resign P) (h, True) H" "bal h (anscheduler_loop_delete_cur_kernel P) (h, True) H"
  "bal h (anscheduler_loop_switch P task thread) (h, True) H"
  unfolding anscheduler_loop_break_task_def run_loop_stub_def anscheduler_loop_resign_def resign_stub_def
    anscheduler_loop_save_and_resign_def save_resign_stub_def anscheduler_loop_delete_cur_kernel_def
    delete_cur_kernel_def anscheduler_loop_switch_def switch_to_thread_def
  by (rule bal)+

subsection \<open>Sockets\<close>

lemma bal_socket_reference [bal]: "bals H0 (anscheduler_socket_reference socket) (h, c) (\<lambda>_. (h, c))"
  unfolding anscheduler_socket_reference_def by (rule bal)+

lemma bal_descriptors [bal]:
  "bals H0 (anscheduler_descriptor_set task desc) (h, c) (\<lambda>_. (h, c))" "bals H0 (anscheduler_descriptor_delete P task desc) (h, c) (\<lambda>_. (h, c))"
  "bals H0 (anscheduler_descriptor_find task fd) (h, c) (\<lambda>_. (h, c))"
  unfolding anscheduler_descriptor_set_def anscheduler_descriptor_delete_def anscheduler_descriptor_find_def
    descriptor_find_round_def Let_def
  by (rule bal)+

lemma bal_pending [bal]:
  "bals H0 (anscheduler_task_pending task desc) (h, c) (\<lambda>_. (h, c))" "bals H0 (anscheduler_task_not_pending task desc) (h, c) (\<lambda>_. (h, c))"
  "bals H0 (anscheduler_task_pop_pending task) (h, c) (\<lambda>_. (h, c))"
  unfolding anscheduler_task_pending_def anscheduler_task_not_pending_def anscheduler_task_pop_pending_def
    pop_pending_round_def
  by (rule bal)+

lemma bal_current_sockets [bal]:
  "bals H0 (anscheduler_socket_for_descriptor fd) (h, c) (\<lambda>_. (h, c))" "bals H0 anscheduler_socket_next_pending (h, c) (\<lambda>_. (h, c))"
  unfolding anscheduler_socket_for_descriptor_def anscheduler_socket_next_pending_def by (rule bal)+

lemma bal_queues [bal]:
  "bals H0 (push_message dest msg) (h, c) (\<lambda>_. (h, c))" "bals H0 (anscheduler_socket_read dest) (h, c) (\<lambda>_. (h, c))"
  "bals H0 (anscheduler_socket_msg_data P source len) (h, c) (\<lambda>_. (h, c))"
  unfolding push_message_def anscheduler_socket_read_def anscheduler_socket_msg_data_def wr_byte_def Let_def
  by (rule bal)+

lemma bal_socket_ends [bal]:
  "bals H0 (create_descriptor P socket task isConnector) (h, c) (\<lambda>_. (h, c))" "bals H0 (anscheduler_socket_close socket code) (h, c) (\<lambda>_. (h, c))"
  "bals H0 (anscheduler_socket_dereference P socket) (h, c) (\<lambda>_. (h, c))" "bals H0 (reference_other_end socket sock) (h, c) (\<lambda>_. (h, c))"
  unfolding create_descriptor_def anscheduler_socket_close_def anscheduler_socket_dereference_def
    reference_other_end_def Let_def
  by (rule bal)+

lemma bal_socket_new [bal]:
  "bals H0 (anscheduler_socket_new P) (h, c) (\<lambda>_. (h, c))" "bals H0 (anscheduler_socket_remote P socket) (h, c) (\<lambda>_. (h, c))"
  "bals H0 (anscheduler_socket_msg_async P socket msg) (h, c) (\<lambda>_. (h, c))"
  unfolding anscheduler_socket_new_def anscheduler_socket_remote_def anscheduler_socket_msg_async_def Let_def
  by (rule bal)+

lemma bal_wakeup [bal]: "bal h (wakeup_endpoint P dest) (h, True) (\<lambda>_. (h, True))"
  unfolding wakeup_endpoint_def find_polling_round_def switch_continuation_def Let_def by (rule bal)+

lemma bal_socket_msg [bal]: "bal h (anscheduler_socket_msg P socket msg) (h, True) (\<lambda>_. (h, True))"
  unfolding anscheduler_socket_msg_def Let_def by (rule bal)+

lemma bal_socket_connect [bal]:
  "bal h (anscheduler_socket_connect P socket task) (h, True) (\<lambda>_. (h, True))" "bal h (async_msg P info) (h, False) H"
  unfolding anscheduler_socket_connect_def async_msg_def by (rule bal)+

lemma bal_socket_free [bal]:
  "bals H0 (socket_free socket) (h, False) (\<lambda>_. (h, False))" "bals H0 (leave_socket socket sock) (h, c) (\<lambda>_. (h, c))"
  unfolding socket_free_def free_queue_round_def leave_socket_def Let_def by (rule bal)+

lemma bal_hangup [bal]: "bal h (hangup_finish P socket sock) (h, True) H" "bal h (socket_hangup P socket) (h, False) H"
  unfolding hangup_finish_def socket_hangup_def release_end_def Let_def by (rule bal)+

subsection \<open>Interrupts and page faults\<close>

lemma bal_intd_lock [bal]:
  "bals H0 anscheduler_intd_lock (h, c) (\<lambda>_. (IntdLock # h, c))" "bals H0 anscheduler_intd_unlock (IntdLock # h, c) (\<lambda>_. (h, c))"
  "bals H0 anscheduler_pager_lock (h, c) (\<lambda>_. (PagerLock # h, c))" "bals H0 anscheduler_pager_unlock (PagerLock # h, c) (\<lambda>_. (h, c))"
  unfolding anscheduler_intd_lock_def anscheduler_intd_unlock_def anscheduler_pager_lock_def anscheduler_pager_unlock_def
  by (rule bal)+

lemma bal_intd [bal]:
  "bals H0 anscheduler_intd_get (h, c) (\<lambda>_. (h, c))" "bals H0 (anscheduler_intd_set thread) (h, c) (\<lambda>_. (h, c))"
  "bals H0 (anscheduler_intd_cmpnull thread) (h, c) (\<lambda>_. (h, c))" "bals H0 anscheduler_intd_read (h, c) (\<lambda>_. (h, c))"
  "bals H0 anscheduler_intd_waiting (h, c) (\<lambda>_. (h, c))"
  unfolding anscheduler_intd_get_def anscheduler_intd_set_def anscheduler_intd_cmpnull_def
    anscheduler_intd_read_def anscheduler_intd_waiting_def
  by (rule bal bal_modify | simp add: locks_def)+

lemma bal_irq [bal]: "bal h (anscheduler_irq P irqNumber) (h, True) (\<lambda>_. (h, True))"
  unfolding anscheduler_irq_def irq_flag_def Let_def by (rule bal)+

lemma bal_pager [bal]:
  "bals H0 (anscheduler_pager_set thread) (h, c) (\<lambda>_. (h, c))" "bals H0 anscheduler_pager_shift (h, c) (\<lambda>_. (h, c))"
  "bals H0 anscheduler_pager_peek (h, c) (\<lambda>_. (h, c))" "bals H0 anscheduler_pager_waiting (h, c) (\<lambda>_. (h, c))"
  "bals H0 (append_fault fault) (h, c) (\<lambda>_. (h, c))"
  unfolding anscheduler_pager_set_def anscheduler_pager_shift_def anscheduler_pager_peek_def
    anscheduler_pager_waiting_def append_fault_def
  by (rule bal bal_modify | simp add: locks_def)+

lemma bal_task_exit [bal]: "bal h (anscheduler_task_exit P code) (h, True) H"
  unfolding anscheduler_task_exit_def task_exit_def by (rule bal)+

lemma bal_page_fault [bal]: "bal h (push_page_fault P info) (h, True) H"
  unfolding push_page_fault_def push_page_fault_cont_def wake_pager_def Let_def by (rule bal)+

lemma bal_zero_block [bal]: "bals H0 (zero_block p) (h, c) (\<lambda>_. (h, c))"
  by (simp add: bals_def zero_block_def split: option.split)

lemma bal_anscheduler_page_fault [bal]: "bal h (anscheduler_page_fault P ptr flags) (h, True) H"
  unfolding anscheduler_page_fault_def Let_def by (rule bal)+

subsection \<open>Threads and tasks\<close>

lemma bal_stacks [bal]:
  "bals H0 (anscheduler_thread_interrupt_stack thread) (h, c) (\<lambda>_. (h, c))" "bals H0 (anscheduler_thread_user_stack thread) (h, c) (\<lambda>_. (h, c))"
  "bals H0 (anscheduler_thread_kernel_stack P task thread) (h, c) (\<lambda>_. (h, c))" "bals H0 (alloc_kernel_stack P task thread) (h, c) (\<lambda>_. (h, c))"
  "bals H0 (map_user_stack P task thread) (h, c) (\<lambda>_. (h, c))" "bals H0 (dealloc_kernel_stack P task thread) (h, c) (\<lambda>_. (h, c))"
  "bals H0 (put_stack P task stack) (h, c) (\<lambda>_. (h, c))"
  unfolding anscheduler_thread_interrupt_stack_def anscheduler_thread_user_stack_def anscheduler_thread_kernel_stack_def
    alloc_kernel_stack_def map_user_stack_def map_user_round_def dealloc_kernel_stack_def put_stack_def Let_def
  by (rule bal)+

lemma bal_threads [bal]:
  "bals H0 (anscheduler_thread_create P task) (h, c) (\<lambda>_. (h, c))" "bals H0 (anscheduler_thread_add task thread) (h, c) (\<lambda>_. (h, c))"
  "bals H0 anscheduler_thread_poll (h, c) (\<lambda>_. (h, c))" "bals H0 (anscheduler_thread_deallocate P task thread) (h, False) (\<lambda>_. (h, False))"
  unfolding anscheduler_thread_create_def setup_stacks_def anscheduler_thread_add_def anscheduler_thread_poll_def
    anscheduler_thread_deallocate_def release_page_def free_page_def Let_def
  by (rule bal)+

lemma bal_thread_exit [bal]: "bal h (anscheduler_thread_exit P) (h, False) H"
  unfolding anscheduler_thread_exit_def finalize_thread_exit_def Let_def by (rule bal)+

lemma bal_tasks [bal]:
  "bals H0 (anscheduler_task_create P) (h, c) (\<lambda>_. (h, c))" "bals H0 (anscheduler_task_launch P task) (h, c) (\<lambda>_. (h, c))"
  "bals H0 (free_threads_round P task u) (h, False) (round_locks (h, False) (h, False))"
  unfolding anscheduler_task_create_def map_first_4mb_def map_first_round_def anscheduler_task_launch_def
    launch_round_def free_threads_round_def Let_def
  by (rule bal)+

text \<open>
  The method that frees a task: it gives up the CPU either at its end, with the locks that it started with, or
  while it waits for a socket to leave the table, and then with the lock of that table as well.
\<close>

abbreviation leaks :: "lockid list \<Rightarrow> addr \<Rightarrow> lockid list set" where
  "leaks h task \<equiv> {h, SocketsLock task # h}"

lemma bals_wait_round [bal]: "bals (leaks h task) (wait_round P thread task i desc u) (h, True) (round_locks (h, True) (h, True))"
proof -
  have "bal (SocketsLock task # h) (anscheduler_save_return_state thread NULL (\<lambda>_. resign_continuation P)) (SocketsLock task # h, True)
      (\<lambda>_. (h, True))"
    unfolding resign_continuation_def by (rule bal)+
  then have give_up: "bals (leaks h task) (anscheduler_save_return_state thread NULL (\<lambda>_. resign_continuation P)) (SocketsLock task # h, True)
      (\<lambda>_. (h, True))" by (rule bals_mono) simp
  show ?thesis unfolding wait_round_def by (rule give_up bal)+
qed

lemma bals_close_round [bal]: "bals (leaks h task) (close_round P thread task i u) (h, True) (round_locks (h, True) (h, True))"
  unfolding close_round_def Let_def by (rule bal)+

lemma bals_close_sockets [bal]: "bals (leaks h task) (close_task_sockets_async P task) (h, False) (\<lambda>_. (h, False))"
  unfolding close_task_sockets_async_def by (rule bal)+

text \<open>The method after the sockets are closed, and the method from where its thread goes on when it runs again after the wait.\<close>

definition free_task_rest :: "'v plat \<Rightarrow> addr \<Rightarrow> ('v, unit) kern" where
  "free_task_rest P task =
     bnd (kwhile (free_threads_round P task) ()) (\<lambda>_.
     bnd (anscheduler_task_cleanup P task) (\<lambda>_.
     bnd (rd_task task) (\<lambda>tk.
     bnd (anscheduler_vm_root_free_async P (t_vm tk)) (\<lambda>_.
     bnd anscheduler_cpu_lock (\<lambda>_.
     bnd (rd_task task) (\<lambda>tk.
     bnd (anidxset_free (t_stacks tk)) (\<lambda>_.
     bnd (anidxset_free (t_descriptors tk)) (\<lambda>_.
     bnd (anscheduler_pidmap_free_pid P (t_pid tk)) (\<lambda>_.
     bnd (anscheduler_free_task task) (\<lambda>_.
     anscheduler_loop_delete_cur_kernel P))))))))))"

lemma free_task_method_rest:
  "free_task_method P task =
     bnd anscheduler_cpu_lock (\<lambda>_.
     bnd (anscheduler_pidmap_unset task) (\<lambda>_.
     bnd anscheduler_cpu_unlock (\<lambda>_.
     bnd (close_task_sockets_async P task) (\<lambda>_.
     free_task_rest P task))))"
  unfolding free_task_method_def free_task_rest_def by (rule refl)

definition free_task_resumed :: "'v plat \<Rightarrow> addr \<Rightarrow> addr \<Rightarrow> nat \<Rightarrow> addr \<Rightarrow> ('v, unit) kern" where
  "free_task_resumed P thread task i desc =
     bnd (kwhile (wait_round P thread task (of_nat i) desc) ()) (\<lambda>_.
     bnd (kfor i 0x10 (\<lambda>i. kwhile (close_round P thread task (of_nat i)) ())) (\<lambda>_.
     bnd anscheduler_cpu_unlock (\<lambda>_.
     free_task_rest P task)))"

lemma bals_free_rest: "bals (leaks h task) (free_task_rest P task) (h, False) H"
proof -
  note ends = bals_mono[OF bal_loop(4), of h "leaks h task"]
  show ?thesis unfolding free_task_rest_def by (rule ends bal | simp)+
qed

lemma bals_free_task: "bals (leaks h task) (free_task_method P task) (h, False) H"
  "bals (leaks h task) (free_task_resumed P thread task i desc) (h, True) H"
  unfolding free_task_method_rest free_task_resumed_def by (rule bals_free_rest bal)+

subsection \<open>The calls of the scheduler\<close>

text \<open>
  The functions that the kernel calls and the methods of its kernel threads, by component.
  \<open>_free_task_method\<close> is added to them in the runs below; \<open>Hangup_finish\<close> is the rest of \<open>_socket_hangup\<close> when its
  thread runs again.
\<close>

definition ignore :: "('v, 'a) kern \<Rightarrow> ('v, unit) kern" where
  "ignore m = bnd m (\<lambda>_. skip)"

lemma bal_ignore [bal]: "bals H0 m l (\<lambda>_. l') \<Longrightarrow> bals H0 (ignore m) l (\<lambda>_. l')"
  unfolding ignore_def by (rule bal_bnd[OF _ bal_skip])

datatype loop_call =
    Push_cur
  | Push addr
  | Delete addr
  | Push_kernel addr kfun
  | Run
  | Break_task
  | Resign
  | Save_and_resign
  | Switch addr addr
  | Delete_cur_kernel

fun do_loop :: "'v plat \<Rightarrow> loop_call \<Rightarrow> ('v, unit) kern" where
  "do_loop P Push_cur = anscheduler_loop_push_cur P"
| "do_loop P (Push thread) = anscheduler_loop_push thread"
| "do_loop P (Delete thread) = anscheduler_loop_delete thread"
| "do_loop P (Push_kernel arg fn) = anscheduler_loop_push_kernel P arg fn"
| "do_loop P Run = anscheduler_loop_run P"
| "do_loop P Break_task = anscheduler_loop_break_task P"
| "do_loop P Resign = anscheduler_loop_resign P"
| "do_loop P Save_and_resign = anscheduler_loop_save_and_resign P"
| "do_loop P (Switch task thread) = anscheduler_loop_switch P task thread"
| "do_loop P Delete_cur_kernel = anscheduler_loop_delete_cur_kernel P"

fun loop_noreturn :: "loop_call \<Rightarrow> bool" where
  "loop_noreturn Run = True"
| "loop_noreturn Break_task = True"
| "loop_noreturn Resign = True"
| "loop_noreturn Save_and_resign = True"
| "loop_noreturn (Switch _ _) = True"
| "loop_noreturn Delete_cur_kernel = True"
| "loop_noreturn _ = False"

datatype task_call =
    Create
  | Launch addr
  | Kill_task addr u64
  | Reference_task addr
  | Dereference_task addr
  | For_pid u64
  | Exit_task u8
  | Alloc_pid
  | Free_pid u64
  | Set_pid addr
  | Unset_pid addr

fun do_task :: "'v plat \<Rightarrow> task_call \<Rightarrow> ('v, unit) kern" where
  "do_task P Create = ignore (anscheduler_task_create P)"
| "do_task P (Launch task) = anscheduler_task_launch P task"
| "do_task P (Kill_task task reason) = anscheduler_task_kill task reason"
| "do_task P (Reference_task task) = ignore (anscheduler_task_reference task)"
| "do_task P (Dereference_task task) = anscheduler_task_dereference P task"
| "do_task P (For_pid pid) = ignore (anscheduler_task_for_pid pid)"
| "do_task P (Exit_task code) = anscheduler_task_exit P code"
| "do_task P Alloc_pid = ignore (anscheduler_pidmap_alloc_pid P)"
| "do_task P (Free_pid pid) = anscheduler_pidmap_free_pid P pid"
| "do_task P (Set_pid task) = anscheduler_pidmap_set task"
| "do_task P (Unset_pid task) = anscheduler_pidmap_unset task"

fun task_noreturn :: "task_call \<Rightarrow> bool" where
  "task_noreturn (Exit_task _) = True"
| "task_noreturn _ = False"

datatype thread_call =
    Create_thread addr
  | Add addr addr
  | Poll
  | Exit_thread
  | Deallocate addr addr
  | Kernel_stack addr addr

fun do_thread :: "'v plat \<Rightarrow> thread_call \<Rightarrow> ('v, unit) kern" where
  "do_thread P (Create_thread task) = ignore (anscheduler_thread_create P task)"
| "do_thread P (Add task thread) = anscheduler_thread_add task thread"
| "do_thread P Poll = ignore anscheduler_thread_poll"
| "do_thread P Exit_thread = anscheduler_thread_exit P"
| "do_thread P (Deallocate task thread) = anscheduler_thread_deallocate P task thread"
| "do_thread P (Kernel_stack task thread) = ignore (anscheduler_thread_kernel_stack P task thread)"

fun thread_critical :: "thread_call \<Rightarrow> bool" where
  "thread_critical Exit_thread = False"
| "thread_critical (Deallocate _ _) = False"
| "thread_critical _ = True"

fun thread_noreturn :: "thread_call \<Rightarrow> bool" where
  "thread_noreturn Exit_thread = True"
| "thread_noreturn _ = False"

datatype socket_call =
    New
  | For_descriptor u64
  | Reference_socket addr
  | Dereference_socket addr
  | Connect addr addr
  | Msg addr addr
  | Msg_async addr addr
  | Msg_data "nat \<Rightarrow> u8" u64
  | Next_pending
  | Read addr
  | Remote addr
  | Close addr u64
  | Hangup addr
  | Hangup_finish addr addr
  | Async addr

fun do_socket :: "'v plat \<Rightarrow> socket_call \<Rightarrow> ('v, unit) kern" where
  "do_socket P New = ignore (anscheduler_socket_new P)"
| "do_socket P (For_descriptor desc) = ignore (anscheduler_socket_for_descriptor desc)"
| "do_socket P (Reference_socket socket) = ignore (anscheduler_socket_reference socket)"
| "do_socket P (Dereference_socket socket) = anscheduler_socket_dereference P socket"
| "do_socket P (Connect socket task) = ignore (anscheduler_socket_connect P socket task)"
| "do_socket P (Msg socket msg) = ignore (anscheduler_socket_msg P socket msg)"
| "do_socket P (Msg_async socket msg) = anscheduler_socket_msg_async P socket msg"
| "do_socket P (Msg_data source len) = ignore (anscheduler_socket_msg_data P source len)"
| "do_socket P Next_pending = ignore anscheduler_socket_next_pending"
| "do_socket P (Read socket) = ignore (anscheduler_socket_read socket)"
| "do_socket P (Remote socket) = ignore (anscheduler_socket_remote P socket)"
| "do_socket P (Close socket code) = anscheduler_socket_close socket code"
| "do_socket P (Hangup socket) = socket_hangup P socket"
| "do_socket P (Hangup_finish socket sock) = hangup_finish P socket sock"
| "do_socket P (Async info) = async_msg P info"

fun socket_critical :: "socket_call \<Rightarrow> bool" where
  "socket_critical (Hangup _) = False"
| "socket_critical (Async _) = False"
| "socket_critical _ = True"

fun socket_noreturn :: "socket_call \<Rightarrow> bool" where
  "socket_noreturn (Hangup _) = True"
| "socket_noreturn (Hangup_finish _ _) = True"
| "socket_noreturn (Async _) = True"
| "socket_noreturn _ = False"

datatype event_call =
    Irq u8
  | Intd_get
  | Intd_set addr
  | Intd_cmpnull addr
  | Intd_read
  | Page_fault addr u64
  | Pager_set addr
  | Pager_peek
  | Pager_shift

fun do_event :: "'v plat \<Rightarrow> event_call \<Rightarrow> ('v, unit) kern" where
  "do_event P (Irq irqNumber) = anscheduler_irq P irqNumber"
| "do_event P Intd_get = ignore anscheduler_intd_get"
| "do_event P (Intd_set thread) = anscheduler_intd_set thread"
| "do_event P (Intd_cmpnull thread) = anscheduler_intd_cmpnull thread"
| "do_event P Intd_read = ignore anscheduler_intd_read"
| "do_event P (Page_fault ptr flags) = anscheduler_page_fault P ptr flags"
| "do_event P (Pager_set thread) = anscheduler_pager_set thread"
| "do_event P Pager_peek = ignore anscheduler_pager_peek"
| "do_event P Pager_shift = anscheduler_pager_shift"

fun event_noreturn :: "event_call \<Rightarrow> bool" where
  "event_noreturn (Page_fault _ _) = True"
| "event_noreturn _ = False"

datatype api = Loop loop_call | Task task_call | Thread thread_call | Socket socket_call | Event event_call

fun call :: "'v plat \<Rightarrow> api \<Rightarrow> ('v, unit) kern" where
  "call P (Loop c) = do_loop P c"
| "call P (Task c) = do_task P c"
| "call P (Thread c) = do_thread P c"
| "call P (Socket c) = do_socket P c"
| "call P (Event c) = do_event P c"

text \<open>
  The functions marked \<open>@noncritical\<close> in the headers and the methods of kernel threads start outside a critical
  section, all others inside one. The functions of the second group leave their caller for good.
\<close>

fun critical :: "api \<Rightarrow> bool" where
  "critical (Loop c) = True"
| "critical (Task c) = True"
| "critical (Thread c) = thread_critical c"
| "critical (Socket c) = socket_critical c"
| "critical (Event c) = True"

fun noreturn :: "api \<Rightarrow> bool" where
  "noreturn (Loop c) = loop_noreturn c"
| "noreturn (Task c) = task_noreturn c"
| "noreturn (Thread c) = thread_noreturn c"
| "noreturn (Socket c) = socket_noreturn c"
| "noreturn (Event c) = event_noreturn c"

lemma component_balanced:
  "bal h (do_loop P c0) (h, True) (\<lambda>_. (h, True))"
  "bal h (do_task P c1) (h, True) (\<lambda>_. (h, True))"
  "bal h (do_thread P c2) (h, thread_critical c2) (\<lambda>_. (h, thread_critical c2))"
  "bal h (do_socket P c3) (h, socket_critical c3) (\<lambda>_. (h, socket_critical c3))"
  "bal h (do_event P c4) (h, True) (\<lambda>_. (h, True))"
proof -
  show "bal h (do_loop P c0) (h, True) (\<lambda>_. (h, True))"
    by (cases c0; simp only: do_loop.simps; (rule bal)+)
  show "bal h (do_task P c1) (h, True) (\<lambda>_. (h, True))"
    by (cases c1; simp only: do_task.simps; (rule bal)+)
  show "bal h (do_thread P c2) (h, thread_critical c2) (\<lambda>_. (h, thread_critical c2))"
    by (cases c2; simp only: do_thread.simps thread_critical.simps; (rule bal)+)
  show "bal h (do_socket P c3) (h, socket_critical c3) (\<lambda>_. (h, socket_critical c3))"
    by (cases c3; simp only: do_socket.simps socket_critical.simps; (rule bal)+)
  show "bal h (do_event P c4) (h, True) (\<lambda>_. (h, True))"
    by (cases c4; simp only: do_event.simps; (rule bal)+)
qed

lemma component_noreturn:
  "loop_noreturn c0 \<Longrightarrow> bal h (do_loop P c0) (h, True) H"
  "task_noreturn c1 \<Longrightarrow> bal h (do_task P c1) (h, True) H"
  "thread_noreturn c2 \<Longrightarrow> bal h (do_thread P c2) (h, thread_critical c2) H"
  "socket_noreturn c3 \<Longrightarrow> bal h (do_socket P c3) (h, socket_critical c3) H"
  "event_noreturn c4 \<Longrightarrow> bal h (do_event P c4) (h, True) H"
proof -
  show "loop_noreturn c0 \<Longrightarrow> bal h (do_loop P c0) (h, True) H"
    by (cases c0; simp only: do_loop.simps loop_noreturn.simps simp_thms; (rule bal)+)
  show "task_noreturn c1 \<Longrightarrow> bal h (do_task P c1) (h, True) H"
    by (cases c1; simp only: do_task.simps task_noreturn.simps simp_thms; (rule bal)+)
  show "thread_noreturn c2 \<Longrightarrow> bal h (do_thread P c2) (h, thread_critical c2) H"
    by (cases c2; simp only: do_thread.simps thread_noreturn.simps simp_thms thread_critical.simps; (rule bal)+)
  show "socket_noreturn c3 \<Longrightarrow> bal h (do_socket P c3) (h, socket_critical c3) H"
    by (cases c3; simp only: do_socket.simps socket_noreturn.simps simp_thms socket_critical.simps; (rule bal)+)
  show "event_noreturn c4 \<Longrightarrow> bal h (do_event P c4) (h, True) H"
    by (cases c4; simp only: do_event.simps event_noreturn.simps simp_thms; (rule bal)+)
qed

lemma call_balanced: "bal h (call P op) (h, critical op) (\<lambda>_. (h, critical op))"
  by (cases op) (simp_all add: component_balanced)

lemma call_noreturn: "noreturn op \<Longrightarrow> bal h (call P op) (h, critical op) H"
  by (cases op) (simp_all add: component_noreturn)

text \<open>
  What the kernel does: it makes a call, it starts the method of a kernel thread that frees a task, or it goes on with that
  method when its thread runs again.
\<close>

datatype entry = Call api | Free_task addr | Free_task_resumed addr addr nat addr

fun enter :: "'v plat \<Rightarrow> entry \<Rightarrow> ('v, unit) kern" where
  "enter P (Call op) = call P op"
| "enter P (Free_task task) = free_task_method P task"
| "enter P (Free_task_resumed thread task i desc) = free_task_resumed P thread task i desc"

fun enters_critical :: "entry \<Rightarrow> bool" where
  "enters_critical (Call op) = critical op"
| "enters_critical (Free_task task) = False"
| "enters_critical (Free_task_resumed thread task i desc) = True"

fun frees_task :: "entry \<Rightarrow> addr list" where
  "frees_task (Call op) = []"
| "frees_task (Free_task task) = [task]"
| "frees_task (Free_task_resumed thread task i desc) = [task]"

text \<open>
  A run of the kernel on one CPU: any sequence of entries, each made when the condition \<open>G\<close> holds, each entered in the
  kind of section it expects, each one returning or giving up the CPU. Between them the CPU runs other
  code, which enters and leaves critical sections, lets time pass and uses the virtual memory.
\<close>

inductive kernel_run :: "'v plat \<Rightarrow> (entry \<Rightarrow> 'v sched \<Rightarrow> bool) \<Rightarrow> 'v sched \<Rightarrow> entry list \<Rightarrow> 'v sched \<Rightarrow> bool" for P G s where
  start: "kernel_run P G s [] s"
| returns: "kernel_run P G s ops s1 \<Longrightarrow> G op s1 \<Longrightarrow> cpu_locked s1 = enters_critical op \<Longrightarrow> enter P op s1 = Ret () s2 \<Longrightarrow>
     kernel_run P G s (ops @ [op]) s2"
| switches: "kernel_run P G s ops s1 \<Longrightarrow> G op s1 \<Longrightarrow> cpu_locked s1 = enters_critical op \<Longrightarrow> enter P op s1 = Stop c s2 \<Longrightarrow>
     gives_up c \<Longrightarrow> kernel_run P G s (ops @ [op]) s2"
| outside: "kernel_run P G s ops s1 \<Longrightarrow> kernel_run P G s ops (s1\<lparr>cpu_locked := b, now := t, vmst := v\<rparr>)"

lemma call_locks:
  assumes "cpu_locked s = critical op"
  shows "call P op s = Ret () s' \<Longrightarrow> locks s' = locks s"
    and "call P op s = Stop c s' \<Longrightarrow> gives_up c \<Longrightarrow> held s' = held s"
proof -
  have l: "locks s = (held s, critical op)" using assms by (simp add: locks_def)
  show "call P op s = Ret () s' \<Longrightarrow> locks s' = locks s" unfolding l by (rule balD(1)[OF call_balanced l])
  show "call P op s = Stop c s' \<Longrightarrow> gives_up c \<Longrightarrow> held s' = held s" by (rule balD(2)[OF call_balanced l])
qed

lemma enter_locks:
  assumes "cpu_locked s = enters_critical op"
  shows "enter P op s = Ret () s' \<Longrightarrow> held s' = held s"
    and "enter P op s = Stop c s' \<Longrightarrow> gives_up c \<Longrightarrow> \<exists>tks. subseq tks (frees_task op) \<and> held s' = map SocketsLock tks @ held s"
proof -
  have l: "locks s = (held s, enters_critical op)" using assms by (simp add: locks_def)
  have b: "bals (insert (held s) ((\<lambda>task. SocketsLock task # held s) ` set (frees_task op)))
      (enter P op) (held s, enters_critical op) (\<lambda>_. (held s, enters_critical op))"
    by (cases op) (simp_all add: call_balanced bals_free_task)
  show "enter P op s = Ret () s' \<Longrightarrow> held s' = held s" using balsD(1)[OF b l] by (simp add: locks_def)
  show "\<exists>tks. subseq tks (frees_task op) \<and> held s' = map SocketsLock tks @ held s"
    if r: "enter P op s = Stop c s'" "gives_up c"
  proof -
    consider "held s' = held s" | task where "task \<in> set (frees_task op)" "held s' = SocketsLock task # held s"
      using balsD(2)[OF b l r] by blast
    then show ?thesis
    proof cases
      case 1
      then show ?thesis by (intro exI[of _ "[]"]) simp
    next
      case (2 task)
      then show ?thesis by (intro exI[of _ "[task]"]) (simp add: subseq_singleton_left)
    qed
  qed
qed

text \<open>C4: the locks of a CPU over a run of the kernel, with calls that return, calls that give up the CPU in the middle, and
  kernel threads that free tasks. At the end the CPU holds the locks that it held at the start, and on top of them at
  most the locks of the socket lists of tasks that were being freed, in the order in which they were, one
  for each time the freeing thread gave up the CPU. So a run in which no task is freed leaves the locks exactly as they
  were, and every thread that gave up the CPU in it held no lock of its own. The freeing thread does keep the
  lock of the socket list when it has to wait for a socket of the task.\<close>

theorem lock_discipline:
  assumes "kernel_run P G s ops s'"
  shows "\<exists>tks. subseq (rev tks) (concat (map frees_task ops)) \<and> held s' = map SocketsLock tks @ held s"
  using assms
proof induction
  case (returns ops s1 op s2)
  then have "held s2 = held s1" by (intro enter_locks(1))
  with returns.IH show ?case by (auto intro: subseq_rev_drop_many)
next
  case (switches ops s1 op c s2)
  from enter_locks(2)[OF switches(3-5)] obtain ks where
    k: "subseq ks (frees_task op)" "held s2 = map SocketsLock ks @ held s1" by blast
  from switches.IH obtain tks where
    t: "subseq (rev tks) (concat (map frees_task ops))" "held s1 = map SocketsLock tks @ held s" by blast
  have "length ks \<le> 1" using list_emb_length[OF k(1)] by (cases op) auto
  then have "rev ks = ks" by (cases ks) auto
  then have "subseq (rev (ks @ tks)) (concat (map frees_task (ops @ [op])))" using t(1) k(1) by (simp add: list_emb_append_mono)
  with t(2) k(2) show ?case by (intro exI[of _ "ks @ tks"]) simp
qed auto

text \<open>C21: Every call respects the critical sections: a call that returns does so in the same kind of section as it
  was entered in and with the same locks, and the calls that are meant to leave their caller for good
  (entering the scheduler loop, resigning, switching, exiting, a page fault, the ends of the kernel threads) never return.\<close>

theorem sections_respected:
  assumes "cpu_locked s = critical op"
  shows "case call P op s of
      Ret _ s' \<Rightarrow> \<not> noreturn op \<and> cpu_locked s' = critical op \<and> held s' = held s
    | Stop c s' \<Rightarrow> gives_up c \<longrightarrow> held s' = held s
    | Crash e \<Rightarrow> True"
proof (cases "call P op s")
  case (Ret u s')
  have "\<not> noreturn op"
  proof
    assume "noreturn op"
    then have "locks s' = (fst (locks s'), \<not> snd (locks s'))"
      by (rule balD(1)[OF call_noreturn]) (use Ret assms in \<open>simp_all add: locks_def\<close>)
    then have "snd (locks s') = (\<not> snd (locks s'))" by (rule ssubst) simp
    then show False by simp
  qed
  with Ret assms call_locks(1)[OF assms] show ?thesis by (simp add: locks_def)
next
  case (Stop c s')
  then show ?thesis using call_locks(2)[OF assms] by simp
qed simp

text \<open>An idle CPU with one task, which nobody runs.\<close>

definition lock_ex :: "flatvm sched" where
  "lock_ex = flat_boot\<lparr>tasks := [0xA0000 \<mapsto> zero_task]\<rparr>"

lemma lock_ex_fields: "cpu_locked lock_ex" "held lock_ex = []" "tasks lock_ex 0xA0000 = Some zero_task"
  "cpu_task lock_ex = NULL" "queueCount lock_ex = 0"
  by (simp_all add: lock_ex_def flat_boot_def boot_def)

lemma lock_ex_run: "\<exists>s'. call flat_plat (Loop Run) lock_ex = Stop Idle s'"
proof -
  have "kwhile (next_thread_round 0 n) (0, t) s = Ret (NULL, t) (s\<lparr>held := []\<rparr>)"
    if "held s = [LoopLock]" for n t and s :: "flatvm sched"
    by (rule kwhile_done) (use that in \<open>simp add: next_thread_round_def kern\<close>)
  then show ?thesis
    by (simp add: anscheduler_loop_run_def next_thread_def kern lock_ex_fields)
qed

theorem sections_respected_witness:
  "\<exists>s'. call flat_plat (Task (Reference_task 0xA0000)) lock_ex = Ret () s' \<and> cpu_locked s' \<and> held s' = []"
proof -
  have "\<exists>s'. call flat_plat (Task (Reference_task 0xA0000)) lock_ex = Ret () s'"
    by (simp add: ignore_def anscheduler_task_reference_def kern lock_ex_fields zero_task_def)
  with sections_respected[of lock_ex "Task (Reference_task 0xA0000)" flat_plat] show ?thesis
    by (auto simp: lock_ex_fields)
qed

subsection \<open>Freeing a task with open sockets\<close>

text \<open>
  The exception. While \<open>_close_task_sockets_async\<close> waits for a descriptor to leave the list of the
  task, it resigns without having released the lock of the list.
\<close>

definition stuck_with :: "lockid \<Rightarrow> (crash, ctl, 'a, 'v sched) outcome \<Rightarrow> bool" where
  "stuck_with l r = (case r of Ret _ _ \<Rightarrow> False | Stop c s' \<Rightarrow> gives_up c \<and> held s' = [l] | Crash e \<Rightarrow> False)"

lemma stuck_bnd: "stuck_with l (m s) \<Longrightarrow> stuck_with l (bnd m f s)"
  by (cases "m s") (simp_all add: stuck_with_def bnd_def)

lemma stuck_kwhile: "stuck_with l (body x s) \<Longrightarrow> stuck_with l (kwhile body x s)"
  unfolding kwhile_def max_steps_Suc kloop.simps by (rule stuck_bnd)

text \<open>The kernel thread \<open>x\<close> runs on a CPU with a sound run queue.\<close>

definition kernel_thread_runs :: "'v sched \<Rightarrow> addr list \<Rightarrow> addr \<Rightarrow> bool" where
  "kernel_thread_runs s xs x \<longleftrightarrow> run_queue s xs \<and> queue_ok s (xs @ [x]) \<and> cpu_thread s = x \<and> x \<noteq> NULL \<and>
     x \<notin> set xs \<and> cpu_task s = NULL \<and> cpu_locked s \<and> (\<exists>t. threads s x = Some t \<and> th_task t = NULL)"

lemma kernel_thread_saved:
  assumes "kernel_thread_runs s xs x" and "threads s x = Some t"
  shows "kernel_thread_runs (s\<lparr>threads := (threads s)(x \<mapsto> t\<lparr>th_state := st\<rparr>)\<rparr>) xs x"
proof -
  have "queue_next ((threads s)(x \<mapsto> t\<lparr>th_state := st\<rparr>)) = queue_next (threads s)"
    "queue_last ((threads s)(x \<mapsto> t\<lparr>th_state := st\<rparr>)) = queue_last (threads s)"
    using assms(2) by (auto simp: queue_next_def queue_last_def fun_eq_iff)
  with assms show ?thesis
    by (auto simp: kernel_thread_runs_def run_queue_def queue_ok_def killable_def)
qed

lemma kernel_thread_frame:
  assumes "kernel_thread_runs s xs x" and "h = [] \<or> h = [SocketsLock l]"
  shows "kernel_thread_runs (s\<lparr>descs := d, held := h\<rparr>) xs x"
  using assms by (auto simp: kernel_thread_runs_def run_queue_def queue_ok_def killable_def)

lemma resign_stuck:
  assumes k: "kernel_thread_runs s xs x" and h: "held s = [SocketsLock l]"
  shows "stuck_with (SocketsLock l) (anscheduler_loop_resign P s)"
proof -
  from k obtain t where t: "threads s x = Some t" "th_task t = cpu_task s" and kt: "cpu_task s = NULL"
    by (auto simp: kernel_thread_runs_def)
  then have live: "has_live_task s x" by (simp add: has_live_task_def)
  from k h push_cur_appends[OF _ _ _ _ _ _ t live, of xs P] obtain s1 where
    s1: "anscheduler_loop_push_cur P s = Ret () s1" "run_queue s1 (xs @ [x])" "queue_ok s1 (xs @ [x])"
      "held s1 = held s" "cpu_task s1 = NULL" "cpu_locked s1"
    by (auto simp: kernel_thread_runs_def)
  have l: "LoopLock \<notin> set (held s1)" using s1(4) h by simp
  have "\<exists>c s'. anscheduler_loop_run P s1 = Stop c s' \<and> gives_up c"
    using loop_run_no_task[OF s1(2,3) l s1(5,6), of P] by (auto split: if_split_asm)
  then obtain c s' where r: "anscheduler_loop_resign P s = Stop c s'" "gives_up c"
    using s1(1) by (auto simp: anscheduler_loop_resign_def resign_stub_def kern)
  have "locks s = ([SocketsLock l], True)" using k h by (simp add: locks_def kernel_thread_runs_def)
  from balD(2)[OF bal_loop(2) this r] r show ?thesis by (simp add: stuck_with_def)
qed

lemma wait_round_stuck:
  assumes "tasks s task = Some tk" and "t_sockets tk i = desc" and "held s = []" and "kernel_thread_runs s xs x"
  shows "stuck_with (SocketsLock task) (wait_round P x task i desc () s)"
proof -
  from assms(4) obtain t where t: "threads s x = Some t" by (auto simp: kernel_thread_runs_def)
  have k: "kernel_thread_runs (s\<lparr>held := [SocketsLock task]\<rparr>) xs x"
    using kernel_thread_frame[OF assms(4), of "[SocketsLock task]" task "descs s"] by simp
  have "stuck_with (SocketsLock task)
      (anscheduler_save_return_state x NULL (\<lambda>_. resign_continuation P) (s\<lparr>held := [SocketsLock task]\<rparr>))"
    using resign_stuck[OF kernel_thread_saved[OF k]] t by (simp add: kern resign_continuation_def)
  then show ?thesis
    using assms(2) by (simp add: wait_round_def kern assms(1,3) stuck_bnd)
qed

lemma find_stuck:
  assumes "SocketsLock task \<in> set (held s)"
  shows "\<exists>e. anscheduler_descriptor_find task fd s = Crash e"
  using assms by (cases "tasks s task") (simp_all add: anscheduler_descriptor_find_def anscheduler_lock_def bnd_def)

lemma close_round_stuck:
  assumes "tasks s task = Some tk" and "t_sockets tk i \<noteq> NULL" and "descs s (t_sockets tk i) = Some d"
    and "d_isClosed d = 0" and "d_refCount d \<noteq> 0" and "d_refCount d + 1 \<noteq> 0" and "held s = []"
    and "kernel_thread_runs s xs x"
  shows "stuck_with (SocketsLock task) (close_round P x task i () s)"
  using assms
  by (simp add: close_round_def anscheduler_socket_reference_def anscheduler_socket_close_def
      anscheduler_socket_dereference_def Let_def kern)
    (intro stuck_bnd stuck_kwhile wait_round_stuck[of _ _ tk] kernel_thread_frame; simp)

text \<open>C40: Freeing a killed task, one of whose socket descriptors is still referenced by another thread, ends in a deadlock. The
  kernel thread that closes the sockets gives up the CPU holding the lock of the socket list of the
  task, and from then on no lookup in that list ever returns, so the thread never sees the descriptor leave the list.\<close>

theorem close_sockets_keeps_lock:
  assumes "tasks s task = Some tk" and "t_sockets tk i \<noteq> NULL" and "descs s (t_sockets tk i) = Some d"
    and "d_isClosed d = 0" and "d_refCount d \<noteq> 0" and "d_refCount d + 1 \<noteq> 0" and "held s = []"
    and "kernel_thread_runs s xs x"
  shows "\<exists>c s'. close_round P x task i () s = Stop c s' \<and> gives_up c \<and> held s' = [SocketsLock task] \<and>
    (\<forall>fd. \<exists>e. anscheduler_descriptor_find task fd s' = Crash e)"
  using close_round_stuck[OF assms, of P]
  by (cases "close_round P x task i () s") (simp_all add: stuck_with_def find_stuck)

text \<open>The kernel thread 0x400 frees a killed task with a descriptor that has one more reference.\<close>

definition free_ex :: "flatvm sched" where
  "free_ex = flat_boot\<lparr>
     tasks := [0xA0000 \<mapsto> zero_task\<lparr>t_isKilled := 1, t_sockets := (\<lambda>_. NULL)(0 := 0xB0000)\<rparr>],
     threads := [0x400 \<mapsto> zero_thread],
     descs := [0xB0000 \<mapsto> zero_desc\<lparr>d_task := 0xA0000, d_refCount := 1\<rparr>], cpu_thread := 0x400\<rparr>"

lemma free_ex_runs: "kernel_thread_runs free_ex [] 0x400"
  by (simp add: kernel_thread_runs_def run_queue_def queue_ok_def killable_def free_ex_def flat_boot_def boot_def
      zero_thread_def)

theorem close_sockets_keeps_lock_witness:
  "\<exists>c s'. close_round flat_plat 0x400 0xA0000 0 () free_ex = Stop c s' \<and> gives_up c \<and>
     held s' = [SocketsLock 0xA0000] \<and> (\<forall>fd. \<exists>e. anscheduler_descriptor_find 0xA0000 fd s' = Crash e)"
  by (rule close_sockets_keeps_lock[of _ _ "zero_task\<lparr>t_isKilled := 1, t_sockets := (\<lambda>_. NULL)(0 := 0xB0000)\<rparr>" _
        "zero_desc\<lparr>d_task := 0xA0000, d_refCount := 1\<rparr>", OF _ _ _ _ _ _ _ free_ex_runs])
    (simp_all add: free_ex_def flat_boot_def boot_def zero_task_def zero_desc_def)

text \<open>The same thread from the start of its method.\<close>

definition free_start :: "flatvm sched" where
  "free_start = free_ex\<lparr>cpu_locked := False\<rparr>"

lemma free_start_stuck: "stuck_with (SocketsLock 0xA0000) (free_task_method flat_plat 0xA0000 free_start)"
proof -
  let ?tk = "zero_task\<lparr>t_isKilled := 1, t_sockets := (\<lambda>_. NULL)(0 := 0xB0000)\<rparr>" and ?d = "zero_desc\<lparr>d_task := 0xA0000, d_refCount := 1\<rparr>"
  note ex = free_ex_def flat_boot_def boot_def
  have unset: "anscheduler_pidmap_unset 0xA0000 free_ex = Ret () free_ex"
    by (simp add: anscheduler_pidmap_unset_def ex kern Let_def zero_task_def fun_upd_idem)
  have lk: "anscheduler_cpu_lock free_start = Ret () free_ex" "anscheduler_cpu_unlock free_ex = Ret () free_start"
    by (simp_all add: anscheduler_cpu_lock_def anscheduler_cpu_unlock_def free_start_def ex)
  have "stuck_with (SocketsLock 0xA0000) (close_round flat_plat 0x400 0xA0000 (of_nat 0) () free_ex)"
    by (rule close_round_stuck[of _ _ ?tk _ ?d, OF _ _ _ _ _ _ _ free_ex_runs]) (simp_all add: ex zero_task_def zero_desc_def)
  then have "stuck_with (SocketsLock 0xA0000)
      (kfor 0 0x10 (\<lambda>i. kwhile (close_round flat_plat 0x400 0xA0000 (of_nat i)) ()) free_ex)"
    by (subst kfor.simps) (simp add: stuck_bnd stuck_kwhile)
  moreover have "cpu_thread free_ex = 0x400" by (simp add: ex)
  ultimately have "stuck_with (SocketsLock 0xA0000) (close_task_sockets_async flat_plat 0xA0000 free_start)"
    unfolding close_task_sockets_async_def by (simp add: bnd_def[of anscheduler_cpu_lock] lk(1) kern stuck_bnd)
  then show ?thesis
    unfolding free_task_method_def by (simp add: bnd_def[of anscheduler_cpu_lock] bnd_def[of anscheduler_cpu_unlock]
        bnd_def[of "anscheduler_pidmap_unset 0xA0000"] lk unset stuck_bnd)
qed

theorem lock_discipline_witness:
  "\<exists>s1 s2. kernel_run flat_plat (\<lambda>_ _. True) lock_ex [Call (Loop Run)] s1 \<and> held s1 = [] \<and>
    kernel_run flat_plat (\<lambda>_ _. True) free_start [Free_task 0xA0000] s2 \<and> held s2 = [SocketsLock 0xA0000]"
proof -
  from lock_ex_run obtain s1 where "call flat_plat (Loop Run) lock_ex = Stop Idle s1" by blast
  with kernel_run.switches[OF kernel_run.start[of flat_plat "\<lambda>_ _. True" lock_ex], of "Call (Loop Run)" Idle s1]
  have k1: "kernel_run flat_plat (\<lambda>_ _. True) lock_ex [Call (Loop Run)] s1" by (simp add: lock_ex_fields)
  from lock_discipline[OF k1] have h1: "held s1 = []" by (auto simp: lock_ex_fields dest!: list_emb_length)
  from free_start_stuck obtain c s2 where s2: "free_task_method flat_plat 0xA0000 free_start = Stop c s2" "gives_up c" "held s2 \<noteq> []"
    by (cases "free_task_method flat_plat 0xA0000 free_start") (simp_all add: stuck_with_def)
  with kernel_run.switches[OF kernel_run.start[of flat_plat "\<lambda>_ _. True" free_start], of "Free_task 0xA0000" c s2]
  have k2: "kernel_run flat_plat (\<lambda>_ _. True) free_start [Free_task 0xA0000] s2" by (simp add: free_start_def)
  have "held free_start = []" by (simp add: free_start_def free_ex_def flat_boot_def boot_def)
  with lock_discipline[OF k2] s2(3) obtain tks where "tks \<noteq> []" "subseq (rev tks) [0xA0000]" "held s2 = map SocketsLock tks" by auto
  then have "held s2 = [SocketsLock 0xA0000]" using list_emb_length[of "(=)" "rev tks" "[0xA0000]"]
    by (cases tks) (auto simp: subseq_singleton_left split: if_splits)
  with k1 h1 k2 show ?thesis by blast
qed

end
