(* ===== verification/Wakeups.thy ===== *)
theory Wakeups
  imports Wakeup_Rules Lock_Discipline
begin

text \<open>
  No wake-up of the interrupt thread or of the pager is lost, in any run of the kernel: the condition
  \<open>no_lost_wakeup\<close> is an invariant of all calls.
\<close>

subsection \<open>Calm functions\<close>

lemma calm_index [calm_rules]:
  "calm (wr_index p i x)" "calm (rd_index p i)"
  unfolding wr_index_def rd_index_def
  by (rule calm_rules calm_step_fields | simp)+

lemma calm_idxset_alloc [calm_rules]:
  "calm (anscheduler_idxset_alloc P)" "calm (anscheduler_idxset_free p)"
  unfolding anscheduler_idxset_alloc_def anscheduler_idxset_free_def
  by (rule calm_rules calm_step_fields | simp)+

lemma calm_idxset_init [calm_rules]:
  "calm (anscheduler_idxset_init P)"
  unfolding anscheduler_idxset_init_def anidxset_initialize_def Let_def
  by (rule calm_rules calm_step_fields | simp)+

lemma calm_next_page [calm_rules]: "calm (next_page_loop p i used)"
proof (induction p i used rule: next_page_loop.induct)
  case (1 p i used)
  show ?case
  proof (cases "i < NODE_CAPACITY")
    case True
    then show ?thesis by (subst next_page_loop.simps) (simp only: if_True, rule calm_bnd[OF calm_index(1)], rule 1)
  next
    case False
    then show ?thesis by (subst next_page_loop.simps) (simp only: if_False calm_basic)
  qed
qed

lemma calm_anidxset [calm_rules]:
  "calm (anidxset_get root)" "calm (anidxset_put P root x)" "calm (anidxset_free root)"
  unfolding anidxset_get_def anidxset_put_def anidxset_free_def allocate_next_page_def Let_def
  by (rule calm_rules calm_step_fields | simp)+

lemma calm_run_queue [calm_rules]:
  "calm (anscheduler_loop_delete thread)" "calm (push_unconditional thread)" "calm (anscheduler_loop_push thread)"
    "calm shift_thread"
  unfolding anscheduler_loop_delete_def push_unconditional_def anscheduler_loop_push_def shift_thread_def
  by (rule calm_rules calm_step_fields | simp)+

lemma calm_push_kernel [calm_rules]:
  "calm (anscheduler_loop_push_kernel P arg fn)"
  unfolding anscheduler_loop_push_kernel_def
  by (rule calm_rules calm_step_fields | simp)+

lemma calm_task_refs [calm_rules]:
  "calm anscheduler_pager_get" "calm (anscheduler_task_reference task)" "calm (delete_threads thread)"
  unfolding anscheduler_pager_get_def anscheduler_task_reference_def delete_threads_def
  by (rule calm_rules calm_step_fields | simp)+

lemma calm_task_life [calm_rules]:
  "calm (anscheduler_task_kill task reason)" "calm (anscheduler_task_dereference P task)"
  unfolding anscheduler_task_kill_def anscheduler_task_dereference_def generate_kill_job_def
  by (rule calm_rules calm_step_fields | simp)+

lemma calm_pids [calm_rules]:
  "calm (anscheduler_pidmap_alloc_pid P)" "calm (anscheduler_pidmap_free_pid P pid)"
    "calm (anscheduler_pidmap_set task)" "calm (anscheduler_pidmap_unset task)" "calm (anscheduler_task_for_pid pid)"
  unfolding anscheduler_pidmap_alloc_pid_def anscheduler_pidmap_free_pid_def anscheduler_pidmap_set_def
    anscheduler_pidmap_unset_def anscheduler_task_for_pid_def anscheduler_pidmap_get_def pidmap_get_round_def Let_def
  by (rule calm_rules calm_step_fields | simp)+

lemma calm_next_thread [calm_rules]:
  "calm (next_thread P)"
  unfolding next_thread_def next_thread_round_def Let_def
  by (rule calm_rules calm_step_fields | simp)+

lemma calm_push_cur [calm_rules]:
  "calm (anscheduler_loop_push_cur P)"
  unfolding anscheduler_loop_push_cur_def
  by (rule calm_rules calm_step_fields | simp)+

lemma calm_loop_run [calm_rules]:
  "calm (anscheduler_loop_run P)"
  unfolding anscheduler_loop_run_def
  by (rule calm_rules calm_step_fields | simp)+

lemma calm_loop [calm_rules]:
  "calm (anscheduler_loop_break_task P)" "calm (anscheduler_loop_resign P)"
    "calm (anscheduler_loop_save_and_resign P)" "calm (anscheduler_loop_delete_cur_kernel P)"
    "calm (anscheduler_loop_switch P task thread)"
  unfolding anscheduler_loop_break_task_def run_loop_stub_def anscheduler_loop_resign_def resign_stub_def
    anscheduler_loop_save_and_resign_def save_resign_stub_def anscheduler_loop_delete_cur_kernel_def
    delete_cur_kernel_def anscheduler_loop_switch_def switch_to_thread_def
  by (rule calm_rules calm_step_fields | simp)+

lemma calm_socket_reference [calm_rules]:
  "calm (anscheduler_socket_reference socket)"
  unfolding anscheduler_socket_reference_def
  by (rule calm_rules calm_step_fields | simp)+

lemma calm_descriptors [calm_rules]:
  "calm (anscheduler_descriptor_set task desc)" "calm (anscheduler_descriptor_delete P task desc)"
    "calm (anscheduler_descriptor_find task fd)"
  unfolding anscheduler_descriptor_set_def anscheduler_descriptor_delete_def anscheduler_descriptor_find_def
    descriptor_find_round_def Let_def
  by (rule calm_rules calm_step_fields | simp)+

lemma calm_pending [calm_rules]:
  "calm (anscheduler_task_pending task desc)" "calm (anscheduler_task_not_pending task desc)"
    "calm (anscheduler_task_pop_pending task)"
  unfolding anscheduler_task_pending_def anscheduler_task_not_pending_def anscheduler_task_pop_pending_def
    pop_pending_round_def
  by (rule calm_rules calm_step_fields | simp)+

lemma calm_current_sockets [calm_rules]:
  "calm (anscheduler_socket_for_descriptor fd)" "calm anscheduler_socket_next_pending"
  unfolding anscheduler_socket_for_descriptor_def anscheduler_socket_next_pending_def
  by (rule calm_rules calm_step_fields | simp)+

lemma calm_queues [calm_rules]:
  "calm (push_message dest msg)" "calm (anscheduler_socket_read dest)" "calm (anscheduler_socket_msg_data P source len)"
  unfolding push_message_def anscheduler_socket_read_def anscheduler_socket_msg_data_def wr_byte_def Let_def
  by (rule calm_rules calm_step_fields | simp)+

lemma calm_socket_ends [calm_rules]:
  "calm (create_descriptor P socket task isConnector)" "calm (anscheduler_socket_close socket code)"
    "calm (anscheduler_socket_dereference P socket)" "calm (reference_other_end socket sock)"
  unfolding create_descriptor_def anscheduler_socket_close_def anscheduler_socket_dereference_def
    reference_other_end_def Let_def
  by (rule calm_rules calm_step_fields | simp)+

lemma calm_socket_new [calm_rules]:
  "calm (anscheduler_socket_new P)" "calm (anscheduler_socket_remote P socket)"
    "calm (anscheduler_socket_msg_async P socket msg)"
  unfolding anscheduler_socket_new_def anscheduler_socket_remote_def anscheduler_socket_msg_async_def Let_def
  by (rule calm_rules calm_step_fields | simp)+

lemma calm_wakeup [calm_rules]:
  "calm (wakeup_endpoint P dest)"
  unfolding wakeup_endpoint_def find_polling_round_def switch_continuation_def Let_def
  by (rule calm_rules calm_step_fields | simp)+

lemma calm_socket_msg [calm_rules]:
  "calm (anscheduler_socket_msg P socket msg)"
  unfolding anscheduler_socket_msg_def Let_def
  by (rule calm_rules calm_step_fields | simp)+

lemma calm_socket_connect [calm_rules]:
  "calm (anscheduler_socket_connect P socket task)" "calm (async_msg P info)"
  unfolding anscheduler_socket_connect_def async_msg_def
  by (rule calm_rules calm_step_fields | simp)+

lemma calm_socket_free [calm_rules]:
  "calm (socket_free socket)" "calm (leave_socket socket sock)"
  unfolding socket_free_def free_queue_round_def leave_socket_def Let_def
  by (rule calm_rules calm_step_fields | simp)+

lemma calm_hangup [calm_rules]:
  "calm (hangup_finish P socket sock)" "calm (socket_hangup P socket)"
  unfolding hangup_finish_def socket_hangup_def release_end_def Let_def
  by (rule calm_rules calm_step_fields | simp)+

lemma calm_intd_lock [calm_rules]:
  "calm anscheduler_intd_lock" "calm anscheduler_intd_unlock" "calm anscheduler_pager_lock" "calm anscheduler_pager_unlock"
  unfolding anscheduler_intd_lock_def anscheduler_intd_unlock_def anscheduler_pager_lock_def anscheduler_pager_unlock_def
  by (rule calm_rules calm_step_fields | simp)+

lemma calm_intd [calm_rules]:
  "calm anscheduler_intd_get" "calm anscheduler_intd_waiting"
  unfolding anscheduler_intd_get_def anscheduler_intd_waiting_def
  by (rule calm_rules calm_step_fields | simp)+

lemma calm_pager [calm_rules]:
  "calm anscheduler_pager_peek" "calm anscheduler_pager_waiting"
  unfolding anscheduler_pager_peek_def anscheduler_pager_waiting_def
  by (rule calm_rules calm_step_fields | simp)+

lemma calm_task_exit [calm_rules]:
  "calm (anscheduler_task_exit P code)"
  unfolding anscheduler_task_exit_def task_exit_def
  by (rule calm_rules calm_step_fields | simp)+

lemma calm_zero_block [calm_rules]: "calm (zero_block p)"
  by (simp add: steps_def zero_block_def split: option.split)

lemma calm_stacks [calm_rules]:
  "calm (anscheduler_thread_interrupt_stack thread)" "calm (anscheduler_thread_user_stack thread)"
    "calm (anscheduler_thread_kernel_stack P task thread)" "calm (alloc_kernel_stack P task thread)"
    "calm (map_user_stack P task thread)" "calm (dealloc_kernel_stack P task thread)" "calm (put_stack P task stack)"
  unfolding anscheduler_thread_interrupt_stack_def anscheduler_thread_user_stack_def
    anscheduler_thread_kernel_stack_def alloc_kernel_stack_def map_user_stack_def map_user_round_def
    dealloc_kernel_stack_def put_stack_def Let_def
  by (rule calm_rules calm_step_fields | simp)+

lemma calm_threads [calm_rules]:
  "calm (anscheduler_thread_create P task)" "calm (anscheduler_thread_add task thread)"
  unfolding anscheduler_thread_create_def setup_stacks_def anscheduler_thread_add_def Let_def
  by (rule calm_rules calm_step_fields | simp)+

lemma calm_tasks [calm_rules]:
  "calm (anscheduler_task_create P)" "calm (anscheduler_task_launch P task)"
  unfolding anscheduler_task_create_def map_first_4mb_def map_first_round_def anscheduler_task_launch_def
    launch_round_def Let_def
  by (rule calm_rules calm_step_fields | simp)+

subsection \<open>Triples\<close>

text \<open>Started in \<open>I\<close>, the code returns in \<open>J\<close>; whenever control leaves it, no wake-up is lost.\<close>

definition wk :: "('v sched \<Rightarrow> bool) \<Rightarrow> ('v, 'a) kern \<Rightarrow> ('a \<Rightarrow> 'v sched \<Rightarrow> bool) \<Rightarrow> bool" where
  "wk I m J \<longleftrightarrow> (\<forall>s. I s \<longrightarrow>
     (case m s of Ret x s' \<Rightarrow> J x s' | Stop c s' \<Rightarrow> no_lost_wakeup s' | Crash e \<Rightarrow> True))"

definition stable :: "('v sched \<Rightarrow> bool) \<Rightarrow> bool" where
  "stable I \<longleftrightarrow> (\<forall>s s'. I s \<longrightarrow> calm_step s s' \<longrightarrow> I s') \<and> (\<forall>s. I s \<longrightarrow> no_lost_wakeup s)"

lemma wkD:
  assumes "wk I m J" and "I s"
  shows "m s = Ret x s' \<Longrightarrow> J x s'" and "m s = Stop c s' \<Longrightarrow> no_lost_wakeup s'"
proof -
  have *: "case m s of Ret x s' \<Rightarrow> J x s' | Stop c s' \<Rightarrow> no_lost_wakeup s' | Crash e \<Rightarrow> True"
    using assms unfolding wk_def by (elim allE[of _ s]) simp
  show "m s = Ret x s' \<Longrightarrow> J x s'" and "m s = Stop c s' \<Longrightarrow> no_lost_wakeup s'" using * by simp_all
qed

lemma wk_bnd:
  assumes "wk I m J" and "\<And>x. wk (J x) (f x) K"
  shows "wk I (bnd m f) K"
  unfolding wk_def
proof (intro allI impI)
  fix s :: "'a sched" assume s: "I s"
  show "case bnd m f s of Ret x s' \<Rightarrow> K x s' | Stop c s' \<Rightarrow> no_lost_wakeup s' | Crash e \<Rightarrow> True"
  proof (cases "m s")
    case (Ret y s1)
    note s1 = wkD(1)[OF assms(1) s Ret]
    show ?thesis using Ret wkD[OF assms(2)[of y] s1] by (cases "f y s1") (simp_all add: bnd_def)
  next
    case (Stop c s1)
    then show ?thesis using wkD(2)[OF assms(1) s Stop] by (simp add: bnd_def)
  qed (simp add: bnd_def)
qed

lemma wk_pre: "wk I m J \<Longrightarrow> (\<And>s. I' s \<Longrightarrow> I s) \<Longrightarrow> wk I' m J"
  unfolding wk_def by simp

lemma wk_calm:
  assumes "stable I" and "calm m"
  shows "wk I m (\<lambda>_. I)"
  unfolding wk_def
proof (intro allI impI)
  fix s :: "'a sched" assume s: "I s"
  have I: "I s'" "no_lost_wakeup s'" if "calm_step s s'" for s'
    using assms(1) s that unfolding stable_def by blast+
  show "case m s of Ret x s' \<Rightarrow> I s' | Stop c s' \<Rightarrow> no_lost_wakeup s' | Crash e \<Rightarrow> True"
    using I stepsD[OF assms(2), of s] by (cases "m s") simp_all
qed

text \<open>Code that goes on after a calm part, and code that is calm to its end.\<close>

lemma wk_step: "stable I \<Longrightarrow> calm m \<Longrightarrow> (\<And>x. wk I (f x) K) \<Longrightarrow> wk I (bnd m f) K"
  by (rule wk_bnd[OF wk_calm])

lemma wk_end: "stable I \<Longrightarrow> calm m \<Longrightarrow> wk I m (\<lambda>_. no_lost_wakeup)"
  using wk_calm[of I m] unfolding wk_def stable_def by (auto split: outcome.split)

lemma wk_gets: "(\<And>x. wk (\<lambda>s. I s \<and> g s = x) (f x) K) \<Longrightarrow> wk I (bnd (gets g) f) K"
  unfolding wk_def bnd_def gets_def by simp

lemma wk_modify: "(\<And>s. I s \<Longrightarrow> J (h s)) \<Longrightarrow> (\<And>u. wk J (f u) K) \<Longrightarrow> wk I (bnd (modify h) f) K"
  unfolding wk_def bnd_def modify_def by simp

lemma wk_wr_thread:
  assumes "\<And>s t. I s \<Longrightarrow> threads s p = Some t \<Longrightarrow> J (s\<lparr>threads := (threads s)(p \<mapsto> g t)\<rparr>)" and "\<And>u. wk J (f u) K"
  shows "wk I (bnd (wr_thread p g) f) K"
  using assms unfolding wk_def bnd_def wr_thread_def by (auto split: option.split)

lemma wk_if: "(b \<Longrightarrow> wk I m J) \<Longrightarrow> (\<not> b \<Longrightarrow> wk I m' J) \<Longrightarrow> wk I (if b then m else m') J"
  by simp

lemma stable_nlw: "stable no_lost_wakeup"
  unfolding stable_def using calm_keeps by blast

lemma keeps_bnd:
  "wk no_lost_wakeup m (\<lambda>_. no_lost_wakeup) \<Longrightarrow> (\<And>x. wk no_lost_wakeup (f x) (\<lambda>_. no_lost_wakeup)) \<Longrightarrow>
     wk no_lost_wakeup (bnd m f) (\<lambda>_. no_lost_wakeup)"
  by (rule wk_bnd)

lemma keeps_split:
  "(\<And>x y. wk no_lost_wakeup (f x y) (\<lambda>_. no_lost_wakeup)) \<Longrightarrow>
     wk no_lost_wakeup (case p of (x, y) \<Rightarrow> f x y) (\<lambda>_. no_lost_wakeup)"
  by (cases p) simp

lemma keeps_cond:
  "wk no_lost_wakeup m (\<lambda>_. no_lost_wakeup) \<Longrightarrow> wk no_lost_wakeup (cond b m) (\<lambda>_. no_lost_wakeup)"
  by (simp add: wk_def cond_def skip_def)

lemma keeps_loop_n:
  assumes "\<And>x. wk no_lost_wakeup (body x) (\<lambda>_. no_lost_wakeup)"
  shows "wk no_lost_wakeup (kloop n d body x) (\<lambda>_. no_lost_wakeup)"
proof (induction n arbitrary: x)
  case 0
  show ?case by (simp add: kloop.simps wk_def crash_def)
next
  case (Suc n)
  show ?case
    unfolding kloop.simps
  proof (rule keeps_bnd[OF assms])
    fix r
    show "wk no_lost_wakeup (case r of Inl x' \<Rightarrow> kloop n d body x' | Inr y \<Rightarrow> ret y) (\<lambda>_. no_lost_wakeup)"
      using Suc by (cases r) (simp_all add: wk_def ret_def)
  qed
qed

lemma keeps_loop:
  "(\<And>x. wk no_lost_wakeup (body x) (\<lambda>_. no_lost_wakeup)) \<Longrightarrow> wk no_lost_wakeup (kwhile body x) (\<lambda>_. no_lost_wakeup)"
  unfolding kwhile_def by (rule keeps_loop_n)

lemma stable_conj:
  "stable I \<Longrightarrow> (\<And>s s'. calm_step s s' \<Longrightarrow> J s \<Longrightarrow> J s') \<Longrightarrow> stable (\<lambda>s. I s \<and> J s)"
  unfolding stable_def by blast

lemma stable_vars:
  "stable I \<Longrightarrow> stable (\<lambda>s. I s \<and> interruptThread s = p)" "stable I \<Longrightarrow> stable (\<lambda>s. I s \<and> pagerThread s = p)"
  "stable I \<Longrightarrow> stable (\<lambda>s. I s \<and> firstFault s = p)" "stable I \<Longrightarrow> stable (\<lambda>s. I s \<and> irqMask s = k)"
  by (rule stable_conj, assumption, simp add: calm_step_def)+

lemma polls_upd:
  "polls (s\<lparr>threads := (threads s)(p \<mapsto> t)\<rparr>) q \<longleftrightarrow> (if q = p then th_isPolling t else polls s q)"
  by (simp add: polls_def)

lemma polls_other [simp]:
  "polls (s\<lparr>irqMask := a\<rparr>) = polls s" "polls (s\<lparr>firstFault := b\<rparr>) = polls s" "polls (s\<lparr>lastFault := c\<rparr>) = polls s"
  "polls (s\<lparr>interruptThread := d\<rparr>) = polls s" "polls (s\<lparr>pagerThread := e\<rparr>) = polls s"
  by (simp_all add: polls_def fun_eq_iff)

subsection \<open>The functions that handle events\<close>

lemmas nlw_stable = stable_vars stable_nlw
lemmas keeps_rules = keeps_bnd wk_if keeps_split keeps_cond
lemmas keeps_calm = wk_end[OF stable_nlw]

lemma calm_irq_flag [calm_rules]: "calm (irq_flag n)"
  unfolding irq_flag_def by (rule calm_rules | simp)+

lemma wk_intd_read: "wk no_lost_wakeup anscheduler_intd_read (\<lambda>_. no_lost_wakeup)"
  unfolding anscheduler_intd_read_def
  by (rule wk_step[OF nlw_stable(5)], (rule calm_rules)+, rule wk_gets, rule wk_modify[of _ no_lost_wakeup])
    (simp add: no_lost_wakeup_def, rule wk_end[OF stable_nlw], (rule calm_rules)+)

lemma wk_intd_cmpnull: "wk no_lost_wakeup (anscheduler_intd_cmpnull thread) (\<lambda>_. no_lost_wakeup)"
proof -
  have c: "wk no_lost_wakeup (cond b (modify (\<lambda>s. s\<lparr>interruptThread := NULL\<rparr>))) (\<lambda>_. no_lost_wakeup)" for b
    by (auto simp: wk_def cond_def skip_def modify_def no_lost_wakeup_def)
  show ?thesis
    unfolding anscheduler_intd_cmpnull_def
    by (rule wk_step[OF stable_nlw calm_intd_lock(1)], rule wk_step[OF stable_nlw calm_basic(3)],
        rule wk_bnd[OF c], rule wk_end[OF stable_nlw calm_intd_lock(2)])
qed

text \<open>A thread may become the interrupt thread or the pager if it does not poll and is not the other of the two.\<close>

definition may_serve :: "addr \<Rightarrow> addr \<Rightarrow> 'v sched \<Rightarrow> bool" where
  "may_serve thread other s \<longleftrightarrow> thread \<noteq> NULL \<longrightarrow> \<not> polls s thread \<and> thread \<noteq> other"

lemma wk_intd_set:
  "wk (\<lambda>s. no_lost_wakeup s \<and> may_serve thread (pagerThread s) s) (anscheduler_intd_set thread) (\<lambda>_. no_lost_wakeup)"
proof -
  have c: "stable (\<lambda>s. no_lost_wakeup s \<and> may_serve thread (pagerThread s) s)"
    by (rule stable_conj[OF stable_nlw]) (auto simp: calm_step_def may_serve_def)
  show ?thesis
    unfolding anscheduler_intd_set_def
    by (rule wk_step[OF c calm_intd_lock(1)], rule wk_modify[OF _ wk_end[OF stable_nlw calm_intd_lock(2)]])
      (auto simp: no_lost_wakeup_def may_serve_def)
qed

lemma wk_pager_set:
  "wk (\<lambda>s. no_lost_wakeup s \<and> may_serve thread (interruptThread s) s) (anscheduler_pager_set thread) (\<lambda>_. no_lost_wakeup)"
  by (auto simp: wk_def anscheduler_pager_set_def modify_def no_lost_wakeup_def may_serve_def)

text \<open>A pager that polls has no fault, so that taking one changes nothing for it.\<close>

lemma wk_pager_shift: "wk no_lost_wakeup anscheduler_pager_shift (\<lambda>_. no_lost_wakeup)"
proof -
  have c: "wk (\<lambda>s. no_lost_wakeup s \<and> firstFault s = first) (cond (first \<noteq> NULL)
            (bnd (rd_fault first) (\<lambda>f.
             bnd (modify (\<lambda>s. s\<lparr>firstFault := pf_next f\<rparr>)) (\<lambda>_.
             bnd (gets firstFault) (\<lambda>first.
             cond (first = NULL) (modify (\<lambda>s. s\<lparr>lastFault := NULL\<rparr>))))))) (\<lambda>_. no_lost_wakeup)" for first
  proof (cases "first = NULL")
    case True
    then show ?thesis by (simp add: wk_def cond_def skip_def)
  next
    case False
    then have "wk (\<lambda>s. no_lost_wakeup s \<and> firstFault s = first) (bnd (rd_fault first) (\<lambda>f.
             bnd (modify (\<lambda>s. s\<lparr>firstFault := pf_next f\<rparr>)) (\<lambda>_.
             bnd (gets firstFault) (\<lambda>first.
             cond (first = NULL) (modify (\<lambda>s. s\<lparr>lastFault := NULL\<rparr>)))))) (\<lambda>_. no_lost_wakeup)"
      by (intro wk_step[OF nlw_stable(3)[OF stable_nlw]] wk_modify[of _ no_lost_wakeup] wk_end[OF stable_nlw] calm_rules)
        (auto simp: no_lost_wakeup_def intro: calm_step_fields)
    then show ?thesis using False by (simp add: cond_def)
  qed
  show ?thesis
    unfolding anscheduler_pager_shift_def
    by (rule wk_step[OF stable_nlw calm_intd_lock(3)], rule wk_gets, rule wk_bnd[OF c],
        rule wk_end[OF stable_nlw calm_intd_lock(4)])
qed

text \<open>
  An interrupt is noted first and the thread woken up after that. In between, the condition holds but for
  the interrupt thread.
\<close>

definition irq_pending :: "'v sched \<Rightarrow> bool" where
  "irq_pending s \<longleftrightarrow> (pagerThread s \<noteq> NULL \<longrightarrow> polls s (pagerThread s) \<longrightarrow> firstFault s = NULL) \<and>
     (interruptThread s = pagerThread s \<longrightarrow> pagerThread s = NULL)"

lemma irq_woken:
  assumes "irq_pending s" and "interruptThread s = p"
  shows "no_lost_wakeup (s\<lparr>threads := (threads s)(p \<mapsto> t\<lparr>th_isPolling := False\<rparr>)\<rparr>)"
  using assms by (auto simp: irq_pending_def no_lost_wakeup_def polls_upd)

lemma wk_rd_thread: "(\<And>t. wk I (f t) K) \<Longrightarrow> wk I (bnd (rd_thread p) f) K"
  unfolding wk_def bnd_def rd_thread_def by (auto split: option.split)

lemma wk_irq: "wk no_lost_wakeup (anscheduler_irq P n) (\<lambda>_. no_lost_wakeup)"
proof -
  have note_irq: "wk no_lost_wakeup (bnd (anscheduler_or_32 flag) f) K" if "\<And>u. wk irq_pending (f u) K"
    for flag f and K :: "unit \<Rightarrow> 'a sched \<Rightarrow> bool"
    unfolding anscheduler_or_32_def
    by (rule wk_modify[OF _ that]) (auto simp: no_lost_wakeup_def irq_pending_def)
  have wake: "wk (\<lambda>s. irq_pending s \<and> interruptThread s = p) (bnd (wr_thread p (\<lambda>t. t\<lparr>th_isPolling := False\<rparr>)) f) K"
    if "\<And>u. wk no_lost_wakeup (f u) K" for p f and K :: "unit \<Rightarrow> 'a sched \<Rightarrow> bool"
    by (rule wk_wr_thread[OF _ that]) (auto intro: irq_woken)
  have tail: "wk no_lost_wakeup (bnd (anscheduler_or_32 flag) (\<lambda>_. bnd (gets interruptThread) (\<lambda>intd.
      bnd (rd_thread intd) (\<lambda>th. bnd (wr_thread intd (\<lambda>t. t\<lparr>th_isPolling := False\<rparr>)) (g th))))) K"
    if "\<And>th u. wk no_lost_wakeup (g th u) K" for flag g and K :: "unit \<Rightarrow> 'a sched \<Rightarrow> bool"
    by (rule note_irq, rule wk_gets, rule wk_rd_thread, rule wake, rule that)
  show ?thesis
    unfolding anscheduler_irq_def Let_def
    by (rule tail | rule keeps_rules | rule keeps_calm | rule calm_rules)+
qed

text \<open>A fault is queued first and the pager woken up after that.\<close>

definition fault_pending :: "'v sched \<Rightarrow> bool" where
  "fault_pending s \<longleftrightarrow> (interruptThread s \<noteq> NULL \<longrightarrow> polls s (interruptThread s) \<longrightarrow> irqMask s = 0) \<and>
     (interruptThread s = pagerThread s \<longrightarrow> pagerThread s = NULL)"

lemma pager_woken:
  assumes "fault_pending s" and "pagerThread s = p"
  shows "no_lost_wakeup (s\<lparr>threads := (threads s)(p \<mapsto> t\<lparr>th_isPolling := False\<rparr>)\<rparr>)"
  using assms by (auto simp: fault_pending_def no_lost_wakeup_def polls_upd)

lemma append_fault_pending: "wk no_lost_wakeup (append_fault fault) (\<lambda>_. fault_pending)"
proof -
  have lock: "fault_pending s" if "no_lost_wakeup s" for s :: "'a sched"
    using that by (simp add: fault_pending_def no_lost_wakeup_def)
  have queue: "wk no_lost_wakeup
      (if last \<noteq> NULL then
         bnd (wr_fault last (\<lambda>f. f\<lparr>pf_next := fault\<rparr>)) (\<lambda>_. modify (\<lambda>s. s\<lparr>lastFault := fault\<rparr>))
       else modify (\<lambda>s. s\<lparr>firstFault := fault, lastFault := fault\<rparr>)) (\<lambda>_. fault_pending)" for last
    by (auto simp: wk_def wr_fault_def bnd_def modify_def fault_pending_def no_lost_wakeup_def polls_def split: option.split)
  have unlock: "wk fault_pending anscheduler_pager_unlock (\<lambda>_. fault_pending)"
    by (auto simp: wk_def anscheduler_pager_unlock_def anscheduler_unlock_def fault_pending_def polls_def)
  show ?thesis
    unfolding append_fault_def
    by (rule wk_step[OF stable_nlw calm_intd_lock(3)], rule wk_step[OF stable_nlw calm_basic(3)],
        rule wk_bnd[OF queue unlock])
qed

lemma wk_wake_pager: "wk fault_pending (wake_pager P) (\<lambda>_. no_lost_wakeup)"
proof -
  have wake: "wk (\<lambda>s. fault_pending s \<and> pagerThread s = p) (bnd (wr_thread p (\<lambda>t. t\<lparr>th_isPolling := False\<rparr>)) f) K"
    if "\<And>u. wk no_lost_wakeup (f u) K" for p f and K :: "unit \<Rightarrow> 'a sched \<Rightarrow> bool"
    by (rule wk_wr_thread[OF _ that]) (auto intro: pager_woken)
  show ?thesis
    unfolding wake_pager_def Let_def
    by (rule wk_gets, rule wk_rd_thread, rule wake) (rule keeps_calm calm_rules)+
qed

lemma wk_page_fault: "wk no_lost_wakeup (push_page_fault P info) (\<lambda>_. no_lost_wakeup)"
proof -
  have tail: "wk no_lost_wakeup (bnd (append_fault fault) (\<lambda>_. bnd (wake_pager P) (\<lambda>_. ret True))) (\<lambda>_. no_lost_wakeup)"
    for fault
    by (rule wk_bnd[OF append_fault_pending], rule wk_bnd[OF wk_wake_pager], rule keeps_calm[OF calm_basic(1)])
  have "wk no_lost_wakeup (push_page_fault_cont P info) (\<lambda>_. no_lost_wakeup)"
    unfolding push_page_fault_cont_def by (rule tail | rule keeps_rules | rule keeps_calm | rule calm_rules)+
  then show ?thesis
    unfolding push_page_fault_def by (rule wk_bnd) (rule keeps_calm calm_rules)+
qed

lemma wk_anscheduler_page_fault: "wk no_lost_wakeup (anscheduler_page_fault P ptr flags) (\<lambda>_. no_lost_wakeup)"
  unfolding anscheduler_page_fault_def Let_def
  by (rule wk_page_fault | rule keeps_rules | rule keeps_calm | rule calm_rules)+

text \<open>The other functions that contain one of these.\<close>

lemma calm_pages [calm_rules]: "calm (release_page P task stack i)" "calm (free_page P task stack i)"
  unfolding release_page_def free_page_def Let_def by (rule calm_rules)+

lemma wk_deallocate: "wk no_lost_wakeup (anscheduler_thread_deallocate P task thread) (\<lambda>_. no_lost_wakeup)"
  unfolding anscheduler_thread_deallocate_def
  by (rule wk_intd_cmpnull | rule keeps_rules | rule keeps_calm | rule calm_rules)+

lemma wk_thread_exit: "wk no_lost_wakeup (anscheduler_thread_exit P) (\<lambda>_. no_lost_wakeup)"
  unfolding anscheduler_thread_exit_def finalize_thread_exit_def Let_def
  by (rule wk_deallocate | rule keeps_rules | rule keeps_calm | rule calm_rules | simp)+

text \<open>Polling: a thread goes to sleep only if there is nothing for it to do.\<close>

lemma poll_sleeps:
  assumes "no_lost_wakeup s" and "p = interruptThread s \<Longrightarrow> irqMask s = 0"
    and "p = pagerThread s \<Longrightarrow> p \<noteq> interruptThread s \<Longrightarrow> firstFault s = NULL"
  shows "no_lost_wakeup (s\<lparr>threads := (threads s)(p \<mapsto> t)\<rparr>)"
  using assms by (auto simp: no_lost_wakeup_def polls_upd)

lemma wk_ret: "(\<And>s. I s \<Longrightarrow> J x s) \<Longrightarrow> wk I (ret x) J"
  by (simp add: wk_def ret_def)

lemma wk_intd_get: "wk no_lost_wakeup anscheduler_intd_get (\<lambda>x s. no_lost_wakeup s \<and> interruptThread s = x)"
  unfolding anscheduler_intd_get_def
  by (rule wk_step[OF stable_nlw calm_intd_lock(1)], rule wk_gets,
      rule wk_step[OF nlw_stable(1)[OF stable_nlw] calm_intd_lock(2)], rule wk_ret)

lemma wk_waiting:
  "wk I anscheduler_intd_waiting (\<lambda>w s. I s \<and> w = (irqMask s \<noteq> 0))"
  "wk I anscheduler_pager_waiting (\<lambda>w s. I s \<and> w = (firstFault s \<noteq> NULL))"
  by (simp_all add: wk_def anscheduler_intd_waiting_def anscheduler_pager_waiting_def bnd_def gets_def ret_def)

lemma wk_pager_get: "wk I anscheduler_pager_get (\<lambda>x s. I s \<and> pagerThread s = x)"
  by (simp add: wk_def anscheduler_pager_get_def gets_def)

lemma wk_sleep:
  assumes "\<And>s. I s \<Longrightarrow> no_lost_wakeup s \<and> (thread = interruptThread s \<longrightarrow> irqMask s = 0) \<and>
      (thread = pagerThread s \<longrightarrow> thread \<noteq> interruptThread s \<longrightarrow> firstFault s = NULL)"
    and "calm m"
  shows "wk I (bnd (wr_thread thread (\<lambda>t. t\<lparr>th_isPolling := True\<rparr>)) (\<lambda>_. m)) (\<lambda>_. no_lost_wakeup)"
proof (rule wk_wr_thread[of _ _ no_lost_wakeup])
  show "wk no_lost_wakeup m (\<lambda>_. no_lost_wakeup)" by (rule keeps_calm[OF assms(2)])
  show "no_lost_wakeup (s\<lparr>threads := (threads s)(thread \<mapsto> t\<lparr>th_isPolling := True\<rparr>)\<rparr>)" if "I s" for s t
    by (rule poll_sleeps) (use assms(1)[OF that] in blast)+
qed

lemma wk_poll: "wk no_lost_wakeup anscheduler_thread_poll (\<lambda>_. no_lost_wakeup)"
proof -
  let ?sleep = "\<lambda>thread. wr_thread thread (\<lambda>t. t\<lparr>th_isPolling := True\<rparr>)"
  let ?I = "\<lambda>intd s :: 'a sched. no_lost_wakeup s \<and> interruptThread s = intd"
  have intd: "wk (?I p) (bnd anscheduler_intd_lock (\<lambda>_. bnd anscheduler_intd_waiting (\<lambda>w.
      if \<not> w then bnd (?sleep p) (\<lambda>_. m) else m'))) (\<lambda>_. no_lost_wakeup)" if "calm m" "calm m'"
    for p and m m' :: "('a, bool) kern"
  proof (rule wk_step[OF nlw_stable(1)[OF stable_nlw] calm_intd_lock(1)], rule wk_bnd[OF wk_waiting(1)], rule wk_if)
    show "wk (\<lambda>s. ?I p s \<and> w = (irqMask s \<noteq> 0)) m' (\<lambda>_. no_lost_wakeup)" for w
      by (rule wk_pre[OF keeps_calm[OF that(2)]]) blast
    show "\<not> w \<Longrightarrow> wk (\<lambda>s. ?I p s \<and> w = (irqMask s \<noteq> 0)) (bnd (?sleep p) (\<lambda>_. m)) (\<lambda>_. no_lost_wakeup)" for w
      by (rule wk_sleep[OF _ that(1)]) auto
  qed
  have pager: "wk (\<lambda>s. ?I q s \<and> pagerThread s = p) (bnd anscheduler_pager_lock (\<lambda>_. bnd anscheduler_pager_waiting (\<lambda>w.
      if \<not> w then bnd (?sleep p) (\<lambda>_. m) else m'))) (\<lambda>_. no_lost_wakeup)" if "p \<noteq> q" "calm m" "calm m'"
    for p q and m m' :: "('a, bool) kern"
  proof (rule wk_step[OF nlw_stable(2)[OF nlw_stable(1)[OF stable_nlw]] calm_intd_lock(3)], rule wk_bnd[OF wk_waiting(2)], rule wk_if)
    show "wk (\<lambda>s. (?I q s \<and> pagerThread s = p) \<and> w = (firstFault s \<noteq> NULL)) m' (\<lambda>_. no_lost_wakeup)" for w
      by (rule wk_pre[OF keeps_calm[OF that(3)]]) blast
    show "\<not> w \<Longrightarrow> wk (\<lambda>s. (?I q s \<and> pagerThread s = p) \<and> w = (firstFault s \<noteq> NULL)) (bnd (?sleep p) (\<lambda>_. m)) (\<lambda>_. no_lost_wakeup)" for w
      by (rule wk_sleep[OF _ that(2)]) (use that(1) in auto)
  qed
  have other: "wk (\<lambda>s. ?I q s \<and> pagerThread s = r) (bnd (?sleep p) (\<lambda>_. m)) (\<lambda>_. no_lost_wakeup)"
    if "p \<noteq> q" "p \<noteq> r" "calm m" for p q r and m :: "('a, bool) kern"
    by (rule wk_sleep[OF _ that(3)]) (use that(1,2) in auto)
  have roles: "wk (?I q) (if p = q then m1 else bnd anscheduler_pager_get (\<lambda>pager. if p = pager then m2 else m3)) (\<lambda>_. no_lost_wakeup)"
    if "wk (?I p) m1 (\<lambda>_. no_lost_wakeup)" "p \<noteq> q \<Longrightarrow> wk (\<lambda>s. ?I q s \<and> pagerThread s = p) m2 (\<lambda>_. no_lost_wakeup)"
      "\<And>r. p \<noteq> q \<Longrightarrow> p \<noteq> r \<Longrightarrow> wk (\<lambda>s. ?I q s \<and> pagerThread s = r) m3 (\<lambda>_. no_lost_wakeup)"
    for p q and m1 m2 m3 :: "('a, bool) kern"
    by (rule wk_if; (use that(1) in simp)?; rule wk_bnd[OF wk_pager_get]; rule wk_if; use that(2,3) in simp)
  have body: "wk no_lost_wakeup (bnd anscheduler_intd_get (\<lambda>intd. if p = intd then m1 else
      bnd anscheduler_pager_get (\<lambda>pager. if p = pager then m2 else m3))) (\<lambda>_. no_lost_wakeup)"
    if "wk (?I p) m1 (\<lambda>_. no_lost_wakeup)" "\<And>q. p \<noteq> q \<Longrightarrow> wk (\<lambda>s. ?I q s \<and> pagerThread s = p) m2 (\<lambda>_. no_lost_wakeup)"
      "\<And>q r. p \<noteq> q \<Longrightarrow> p \<noteq> r \<Longrightarrow> wk (\<lambda>s. ?I q s \<and> pagerThread s = r) m3 (\<lambda>_. no_lost_wakeup)"
    for p and m1 m2 m3 :: "('a, bool) kern"
    by (rule wk_bnd[OF wk_intd_get], rule roles[OF that])
  show ?thesis
    unfolding anscheduler_thread_poll_def
    by (rule body intd pager other | assumption | rule keeps_rules | rule keeps_calm | rule calm_rules)+
qed

subsection \<open>All calls\<close>

text \<open>The condition under which a thread is made the interrupt thread or the pager.\<close>

definition serves_ok :: "entry \<Rightarrow> 'v sched \<Rightarrow> bool" where
  "serves_ok op s = (case op of
      Call (Event (Intd_set thread)) \<Rightarrow> may_serve thread (pagerThread s) s
    | Call (Event (Pager_set thread)) \<Rightarrow> may_serve thread (interruptThread s) s
    | _ \<Rightarrow> True)"

lemma calm_ignore [calm_rules]: "calm m \<Longrightarrow> calm (ignore m)"
  unfolding ignore_def by (rule calm_bnd[OF _ calm_basic(2)])

lemma wk_ignore: "wk I m (\<lambda>_. no_lost_wakeup) \<Longrightarrow> wk I (ignore m) (\<lambda>_. no_lost_wakeup)"
  unfolding ignore_def by (rule wk_bnd[OF _ keeps_calm[OF calm_basic(2)]])

lemma calm_components: "calm (do_loop P c0)" "calm (do_task P c1)" "calm (do_socket P c2)"
proof -
  show "calm (do_loop P c0)" by (cases c0; simp only: do_loop.simps; (rule calm_rules)+)
  show "calm (do_task P c1)" by (cases c1; simp only: do_task.simps; (rule calm_rules)+)
  show "calm (do_socket P c2)" by (cases c2; simp only: do_socket.simps; (rule calm_rules)+)
qed

lemma wk_do_thread: "wk no_lost_wakeup (do_thread P c) (\<lambda>_. no_lost_wakeup)"
  by (cases c; simp only: do_thread.simps;
      (rule wk_poll wk_thread_exit wk_deallocate | rule wk_ignore[OF wk_poll] | (rule keeps_calm, (rule calm_rules)+)))

lemma wk_do_event: "wk (\<lambda>s. no_lost_wakeup s \<and> serves_ok (Call (Event c)) s) (do_event P c) (\<lambda>_. no_lost_wakeup)"
proof (cases c)
  case (Intd_set thread)
  then show ?thesis using wk_intd_set[of thread] by (simp add: serves_ok_def)
next
  case (Pager_set thread)
  then show ?thesis using wk_pager_set[of thread] by (simp add: serves_ok_def)
qed (rule wk_pre[of no_lost_wakeup], simp only: do_event.simps,
    (rule wk_irq wk_anscheduler_page_fault wk_pager_shift wk_intd_cmpnull wk_ignore[OF wk_intd_read] |
      (rule keeps_calm, (rule calm_rules)+)), blast)+

lemma call_wk: "wk (\<lambda>s. no_lost_wakeup s \<and> serves_ok (Call op) s) (call P op) (\<lambda>_. no_lost_wakeup)"
proof (cases op)
  case (Event c)
  then show ?thesis using wk_do_event by simp
next
  case (Thread c)
  have "wk (\<lambda>s. no_lost_wakeup s \<and> serves_ok (Call op) s) (do_thread P c) (\<lambda>_. no_lost_wakeup)"
    by (rule wk_pre[OF wk_do_thread]) blast
  then show ?thesis using Thread by simp
qed (simp_all only: call.simps, (rule wk_pre[OF keeps_calm], rule calm_components, blast)+)

text \<open>The thread that frees a task: it is calm but for the threads of the task, which it deallocates.\<close>

lemma calm_close_rounds [calm_rules]: "calm (wait_round P thread task i desc u)" "calm (close_round P thread task i u)"
  unfolding close_round_def wait_round_def resign_continuation_def Let_def by (rule calm_rules)+

lemma wk_free_rest: "wk no_lost_wakeup (free_task_rest P task) (\<lambda>_. no_lost_wakeup)"
  unfolding free_task_rest_def free_threads_round_def Let_def
  by (rule wk_deallocate | rule keeps_rules | rule keeps_loop | rule keeps_calm | rule calm_rules)+

lemma wk_free_task: "wk no_lost_wakeup (free_task_method P task) (\<lambda>_. no_lost_wakeup)"
  "wk no_lost_wakeup (free_task_resumed P thread task i desc) (\<lambda>_. no_lost_wakeup)"
  unfolding free_task_method_rest close_task_sockets_async_def free_task_resumed_def
  by (rule wk_free_rest | rule keeps_rules | rule keeps_calm | rule calm_rules)+

lemma enter_wk: "wk (\<lambda>s. no_lost_wakeup s \<and> serves_ok op s) (enter P op) (\<lambda>_. no_lost_wakeup)"
  by (cases op; simp only: enter.simps call_wk; rule wk_pre[of no_lost_wakeup]; (rule wk_free_task | blast))

text \<open>C5: no wake-up is ever lost. If in the beginning no event waits for a sleeping server, then in any run of the kernel,
  whatever calls are made, whatever tasks are freed and wherever the CPU is given up, a polling interrupt thread has no pending interrupt and
  a polling pager has no waiting fault; so a server with work to do is never left asleep. Only threads that do not
  poll and are not the other server must be made servers.\<close>

theorem wakeups_never_lost:
  assumes "kernel_run P serves_ok s ops s'" and "no_lost_wakeup s"
  shows "no_lost_wakeup s'"
  using assms
proof induction
  case (returns ops s1 op s2)
  then show ?case using wkD(1)[OF enter_wk, of s1 op P] by blast
next
  case (switches ops s1 op c s2)
  then show ?case using wkD(2)[OF enter_wk, of s1 op P] by blast
next
  case outside
  have "calm_step s1 (s1\<lparr>cpu_locked := b, now := n, vmst := v\<rparr>)" for s1 :: "'a sched" and b n v
    by (rule calm_step_fields; simp)
  then show ?case using calm_keeps outside.IH[OF outside.prems] by blast
qed

text \<open>An interrupt for the polling interrupt thread 0x100 of the task 0xA0000, on a CPU that runs the kernel thread 0x400.\<close>

definition wake_ex :: "flatvm sched" where
  "wake_ex = flat_boot\<lparr>tasks := [0xA0000 \<mapsto> zero_task],
     threads := [0x100 \<mapsto> zero_thread\<lparr>th_task := 0xA0000, th_isPolling := True\<rparr>, 0x400 \<mapsto> zero_thread],
     cpu_thread := 0x400, interruptThread := 0x100\<rparr>"

lemma wake_ex_runs: "\<exists>s'. call flat_plat (Event (Irq 3)) wake_ex = Stop (RunThread 0xA0000 0x100) s' \<and> irqMask s' = 8"
  by (simp add: wake_ex_def flat_boot_def boot_def anscheduler_irq_def anscheduler_intd_lock_def anscheduler_intd_unlock_def
      irq_flag_def anscheduler_task_reference_def anscheduler_loop_switch_def switch_to_thread_def
      anscheduler_loop_push_cur_def anscheduler_loop_push_def zero_task_def zero_thread_def kern Let_def)

theorem wakeups_never_lost_witness:
  "\<exists>s'. kernel_run flat_plat serves_ok wake_ex [Call (Event (Irq 3))] s' \<and> irqMask s' = 8 \<and> no_lost_wakeup s'"
proof -
  from wake_ex_runs obtain s' where r: "call flat_plat (Event (Irq 3)) wake_ex = Stop (RunThread 0xA0000 0x100) s'" "irqMask s' = 8"
    by blast
  have k: "kernel_run flat_plat serves_ok wake_ex [Call (Event (Irq 3))] s'"
    using kernel_run.switches[OF kernel_run.start[of flat_plat serves_ok wake_ex], of "Call (Event (Irq 3))"] r(1)
    by (simp add: serves_ok_def wake_ex_def flat_boot_def boot_def)
  have "no_lost_wakeup wake_ex"
    by (simp add: no_lost_wakeup_def wake_ex_def flat_boot_def boot_def)
  with wakeups_never_lost[OF k] k r(2) show ?thesis by blast
qed

end
