(* ===== verification/Field_Ranges.thy ===== *)
theory Field_Ranges
  imports Step_Rules Lock_Discipline
begin

text \<open>
  The ranges of the fields that other code relies on. The truth values of the structs (\<open>isKilled\<close>, \<open>isConnector\<close>,
  \<open>isClosed\<close>, \<open>hasBeenConnected\<close>) hold 0 or 1. A message has one of the three types, and the length that
  belongs to it: nothing in a connect message, less than 0xfe8 bytes in a data message, so that the payload is inside the
  page of the message, and the eight bytes of the code in a close message. A thread of a task has a stack index
  below 0x100000, so that its stacks are inside the areas for stacks. All code keeps these ranges, because of
  the tests in \<open>anscheduler_socket_msg_data\<close> and \<open>anscheduler_thread_create\<close> and because new structs are filled in
  before they are used.
\<close>

named_theorems typed_rules \<open>code that keeps the ranges of the fields\<close>

subsection \<open>Ranges\<close>

definition flag :: "u64 \<Rightarrow> bool" where
  "flag x \<longleftrightarrow> x = 0 \<or> x = 1"

definition task_typed :: "task_t \<Rightarrow> bool" where
  "task_typed t \<longleftrightarrow> flag (t_isKilled t)"

definition thread_typed :: "thread_t \<Rightarrow> bool" where
  "thread_typed t \<longleftrightarrow> (th_task t \<noteq> NULL \<longrightarrow> th_stack t < 0x100000)"

definition socket_typed :: "socket_t \<Rightarrow> bool" where
  "socket_typed k \<longleftrightarrow> flag (sk_hasBeenConnected k)"

definition desc_typed :: "socket_desc_t \<Rightarrow> bool" where
  "desc_typed d \<longleftrightarrow> flag (d_isConnector d) \<and> flag (d_isClosed d)"

definition msg_typed :: "socket_msg_t \<Rightarrow> bool" where
  "msg_typed m \<longleftrightarrow> (m_type m = MSG_TYPE_CONNECT \<and> m_len m = 0) \<or> (m_type m = MSG_TYPE_DATA \<and> m_len m < 0xfe8) \<or>
     (m_type m = MSG_TYPE_CLOSE \<and> m_len m = 8)"

definition in_range :: "'v sched \<Rightarrow> bool" where
  "in_range s \<longleftrightarrow> (\<forall>p t. tasks s p = Some t \<longrightarrow> task_typed t) \<and> (\<forall>p t. threads s p = Some t \<longrightarrow> thread_typed t) \<and>
     (\<forall>p k. sockets s p = Some k \<longrightarrow> socket_typed k) \<and> (\<forall>p d. descs s p = Some d \<longrightarrow> desc_typed d) \<and>
     (\<forall>p m. msgs s p = Some m \<longrightarrow> msg_typed m)"

definition typed_step :: "'v sched \<Rightarrow> 'v sched \<Rightarrow> bool" where
  "typed_step s s' \<longleftrightarrow> (in_range s \<longrightarrow> in_range s')"

abbreviation typed :: "('v, 'a) kern \<Rightarrow> bool" where
  "typed m \<equiv> steps typed_step m"

interpretation typed: step_logic typed_step
  by unfold_locales (auto simp: typed_step_def)

text \<open>The tests of the code are kept for its branches.\<close>

lemma typed_branch: "(b \<Longrightarrow> typed m) \<Longrightarrow> (\<not> b \<Longrightarrow> typed m') \<Longrightarrow> typed (if b then m else m')"
  by simp

lemmas typed_control [typed_rules] =
  typed.seq typed.basic typed_branch typed.pair typed.guard typed.assign typed.loop typed.for_loop typed.reads

text \<open>
  A new struct is out of range until its fields are written: the writes that follow its creation are taken together with it.
\<close>

lemma new_thread_filled: "bnd (new_thread p x) (\<lambda>_. bnd (wr_thread p f) k) = bnd (new_thread p (f x)) k"
  by (rule ext) (simp add: bnd_def new_thread_def wr_thread_def split: option.split)

lemma new_msg_filled: "bnd (new_msg p x) (\<lambda>_. bnd (wr_msg p f) k) = bnd (new_msg p (f x)) k"
  by (rule ext) (simp add: bnd_def new_msg_def wr_msg_def split: option.split)

subsection \<open>Primitives\<close>

text \<open>An update that leaves the structs alone.\<close>

lemma typed_step_same:
  assumes "tasks s' = tasks s" "threads s' = threads s" "sockets s' = sockets s" "descs s' = descs s" "msgs s' = msgs s"
  shows "typed_step s s'"
  by (simp add: typed_step_def in_range_def assms)

lemma typed_writes [typed_rules]:
  "typed (wr_fault p f5)" "typed (wr_node p f6)" "typed (new_fault p x5)" "typed (new_info p x6)" "typed (new_node p x7)"
  by (simp_all add: steps_def wr_fault_def wr_node_def new_fault_def new_info_def new_node_def typed_step_same split: option.split)

lemma typed_wr [typed_rules]:
  "(\<And>t. task_typed t \<Longrightarrow> task_typed (f0 t)) \<Longrightarrow> typed (wr_task p f0)"
  "(\<And>t. thread_typed t \<Longrightarrow> thread_typed (f1 t)) \<Longrightarrow> typed (wr_thread p f1)"
  "(\<And>t. socket_typed t \<Longrightarrow> socket_typed (f2 t)) \<Longrightarrow> typed (wr_socket p f2)"
  "(\<And>t. desc_typed t \<Longrightarrow> desc_typed (f3 t)) \<Longrightarrow> typed (wr_desc p f3)"
  "(\<And>t. msg_typed t \<Longrightarrow> msg_typed (f4 t)) \<Longrightarrow> typed (wr_msg p f4)"
  by (simp_all add: steps_def wr_task_def wr_thread_def wr_socket_def wr_desc_def wr_msg_def typed_step_def in_range_def
      split: option.split)

lemma typed_new [typed_rules]:
  "task_typed x0 \<Longrightarrow> typed (new_task p x0)" "thread_typed x1 \<Longrightarrow> typed (new_thread p x1)"
  "socket_typed x2 \<Longrightarrow> typed (new_socket p x2)" "desc_typed x3 \<Longrightarrow> typed (new_desc p x3)" "msg_typed x4 \<Longrightarrow> typed (new_msg p x4)"
  by (simp_all add: steps_def new_task_def new_thread_def new_socket_def new_desc_def new_msg_def typed_step_def in_range_def
      split: option.split)

lemma typed_memory [typed_rules]:
  "typed (anscheduler_alloc P sz)" "typed (anscheduler_free_raw p)" "typed (anscheduler_free_task p)" "typed (anscheduler_free_thread p)"
  "typed (anscheduler_free_socket p)" "typed (anscheduler_free_desc p)" "typed (anscheduler_free_msg p)"
  "typed (anscheduler_free_info p)" "typed (anscheduler_free_node p)"
  by (auto simp: steps_def anscheduler_alloc_def anscheduler_free_raw_def anscheduler_free_task_def anscheduler_free_thread_def
      anscheduler_free_socket_def anscheduler_free_desc_def anscheduler_free_msg_def anscheduler_free_info_def
      anscheduler_free_node_def typed_step_def in_range_def Let_def split: if_splits)

lemma typed_cpu [typed_rules]:
  "typed anscheduler_cpu_lock" "typed anscheduler_cpu_unlock" "typed anscheduler_cpu_get_task" "typed anscheduler_cpu_get_thread"
  "typed (anscheduler_cpu_set_task p)" "typed (anscheduler_cpu_set_thread p)" "typed (anscheduler_timer_set n)"
  "typed anscheduler_get_time" "typed (anscheduler_lock l)" "typed (anscheduler_unlock l)" "typed (anscheduler_or_32 w)"
  by (simp_all add: steps_def anscheduler_cpu_lock_def anscheduler_cpu_unlock_def anscheduler_cpu_get_task_def
      anscheduler_cpu_get_thread_def anscheduler_cpu_set_task_def anscheduler_cpu_set_thread_def anscheduler_or_32_def
      anscheduler_timer_set_def anscheduler_get_time_def anscheduler_lock_def anscheduler_unlock_def gets_def modify_def
      typed_step_same)

lemma typed_vm [typed_rules]:
  "typed (anscheduler_vm_root_alloc P)" "typed (anscheduler_vm_map P r p d f)" "typed (anscheduler_vm_unmap P r p)"
  "typed (anscheduler_vm_lookup P r p)" "typed (anscheduler_vm_root_free P r)" "typed (anscheduler_vm_root_free_async P r)"
  "typed (anscheduler_task_cleanup P r)"
  by (simp_all add: steps_def anscheduler_vm_root_alloc_def anscheduler_vm_map_def anscheduler_vm_unmap_def
      anscheduler_vm_lookup_def anscheduler_vm_root_free_def anscheduler_vm_root_free_async_def
      anscheduler_task_cleanup_def gets_def modify_def typed_step_same Let_def split: prod.split)

lemma typed_thread_run [typed_rules]: "typed (anscheduler_thread_run task thread)"
  unfolding anscheduler_thread_run_def by (rule typed_rules typed_step_same | simp)+

lemma typed_set_state [typed_rules]: "typed (anscheduler_set_state thread stack ip arg)"
  unfolding anscheduler_set_state_def by (rule typed_rules | simp add: thread_typed_def)+

lemma typed_save [typed_rules]: "typed (fn arg) \<Longrightarrow> typed (anscheduler_save_return_state thread arg fn)"
  unfolding anscheduler_save_return_state_def by (rule typed_rules | simp add: thread_typed_def)+

text \<open>What the code writes into the fields.\<close>

lemma flag_values [simp]: "flag 0" "flag 1" "flag x \<Longrightarrow> flag (or x 1)"
  by (auto simp: flag_def)

lemma zero_typed [simp]: "task_typed zero_task" "thread_typed zero_thread" "socket_typed zero_socket" "desc_typed zero_desc"
  by (simp_all add: task_typed_def thread_typed_def socket_typed_def desc_typed_def zero_task_def zero_thread_def
      zero_socket_def zero_desc_def)

lemma queue_typed [simp]:
  "socket_typed (set_q_count c n sk) = socket_typed sk" "socket_typed (set_q_first c p sk) = socket_typed sk"
  "socket_typed (set_q_last c p sk) = socket_typed sk"
  by (simp_all add: socket_typed_def set_q_count_def set_q_first_def set_q_last_def)

lemma msg_kinds [simp]:
  "msg_typed (m\<lparr>m_type := MSG_TYPE_CONNECT, m_len := 0\<rparr>)" "len < 0xfe8 \<Longrightarrow> msg_typed (m\<lparr>m_type := MSG_TYPE_DATA, m_len := len\<rparr>)"
  "msg_typed (m\<lparr>m_type := MSG_TYPE_CLOSE, m_len := 8\<rparr>)"
  by (simp_all add: msg_typed_def)

lemma thread_kinds [simp]:
  "stack < 0x100000 \<Longrightarrow> thread_typed (t\<lparr>th_task := task, th_stack := stack\<rparr>)" "thread_typed (zero_thread\<lparr>th_stack := stack\<rparr>)"
  by (simp_all add: thread_typed_def zero_thread_def)

lemmas struct_typed = task_typed_def thread_typed_def socket_typed_def desc_typed_def msg_typed_def
lemmas filled = new_thread_filled new_msg_filled

subsection \<open>All functions\<close>

lemma typed_index [typed_rules]:
  "typed (wr_index p i x)" "typed (rd_index p i)"
  unfolding wr_index_def rd_index_def
  by (rule typed_rules typed_step_same | simp | simp add: struct_typed)+

lemma typed_idxset_alloc [typed_rules]:
  "typed (anscheduler_idxset_alloc P)" "typed (anscheduler_idxset_free p)"
  unfolding anscheduler_idxset_alloc_def anscheduler_idxset_free_def
  by (rule typed_rules typed_step_same | simp | simp add: struct_typed)+

lemma typed_idxset_init [typed_rules]:
  "typed (anscheduler_idxset_init P)"
  unfolding anscheduler_idxset_init_def anidxset_initialize_def Let_def
  by (rule typed_rules typed_step_same | simp | simp add: struct_typed)+

lemma typed_next_page [typed_rules]: "typed (next_page_loop p i used)"
proof (induction p i used rule: next_page_loop.induct)
  case (1 p i used)
  show ?case
  proof (cases "i < NODE_CAPACITY")
    case True
    then show ?thesis by (subst next_page_loop.simps) (simp only: if_True, rule typed.seq[OF typed_index(1)], rule 1)
  next
    case False
    then show ?thesis by (subst next_page_loop.simps) (simp only: if_False typed.basic)
  qed
qed

lemma typed_anidxset [typed_rules]:
  "typed (anidxset_get root)" "typed (anidxset_put P root x)" "typed (anidxset_free root)"
  unfolding anidxset_get_def anidxset_put_def anidxset_free_def allocate_next_page_def Let_def
  by (rule typed_rules typed_step_same | simp | simp add: struct_typed)+

lemma typed_run_queue [typed_rules]:
  "typed (anscheduler_loop_delete thread)" "typed (push_unconditional thread)" "typed (anscheduler_loop_push thread)"
    "typed shift_thread"
  unfolding anscheduler_loop_delete_def push_unconditional_def anscheduler_loop_push_def shift_thread_def
  by (rule typed_rules typed_step_same | simp | simp add: struct_typed)+

lemma typed_push_kernel [typed_rules]:
  "typed (anscheduler_loop_push_kernel P arg fn)"
  unfolding anscheduler_loop_push_kernel_def filled
  by (rule typed_rules typed_step_same | simp | simp add: struct_typed)+

lemma typed_task_refs [typed_rules]:
  "typed anscheduler_pager_get" "typed (anscheduler_task_reference task)" "typed (delete_threads thread)"
  unfolding anscheduler_pager_get_def anscheduler_task_reference_def delete_threads_def
  by (rule typed_rules typed_step_same | simp | simp add: struct_typed)+

lemma typed_task_life [typed_rules]:
  "typed (anscheduler_task_kill task reason)" "typed (anscheduler_task_dereference P task)"
  unfolding anscheduler_task_kill_def anscheduler_task_dereference_def generate_kill_job_def
  by (rule typed_rules typed_step_same | simp | simp add: struct_typed)+

lemma typed_pids [typed_rules]:
  "typed (anscheduler_pidmap_alloc_pid P)" "typed (anscheduler_pidmap_free_pid P pid)"
    "typed (anscheduler_pidmap_set task)" "typed (anscheduler_pidmap_unset task)" "typed (anscheduler_task_for_pid pid)"
  unfolding anscheduler_pidmap_alloc_pid_def anscheduler_pidmap_free_pid_def anscheduler_pidmap_set_def
    anscheduler_pidmap_unset_def anscheduler_task_for_pid_def anscheduler_pidmap_get_def pidmap_get_round_def Let_def
  by (rule typed_rules typed_step_same | simp | simp add: struct_typed)+

lemma typed_next_thread [typed_rules]:
  "typed (next_thread P)"
  unfolding next_thread_def next_thread_round_def Let_def
  by (rule typed_rules typed_step_same | simp | simp add: struct_typed)+

lemma typed_push_cur [typed_rules]:
  "typed (anscheduler_loop_push_cur P)"
  unfolding anscheduler_loop_push_cur_def
  by (rule typed_rules typed_step_same | simp | simp add: struct_typed)+

lemma typed_loop_run [typed_rules]:
  "typed (anscheduler_loop_run P)"
  unfolding anscheduler_loop_run_def
  by (rule typed_rules typed_step_same | simp | simp add: struct_typed)+

lemma typed_loop [typed_rules]:
  "typed (anscheduler_loop_break_task P)" "typed (anscheduler_loop_resign P)"
    "typed (anscheduler_loop_save_and_resign P)" "typed (anscheduler_loop_delete_cur_kernel P)"
    "typed (anscheduler_loop_switch P task thread)"
  unfolding anscheduler_loop_break_task_def run_loop_stub_def anscheduler_loop_resign_def resign_stub_def
    anscheduler_loop_save_and_resign_def save_resign_stub_def anscheduler_loop_delete_cur_kernel_def
    delete_cur_kernel_def anscheduler_loop_switch_def switch_to_thread_def
  by (rule typed_rules typed_step_same | simp | simp add: struct_typed)+

lemma typed_socket_reference [typed_rules]:
  "typed (anscheduler_socket_reference socket)"
  unfolding anscheduler_socket_reference_def
  by (rule typed_rules typed_step_same | simp | simp add: struct_typed)+

lemma typed_descriptors [typed_rules]:
  "typed (anscheduler_descriptor_set task desc)" "typed (anscheduler_descriptor_delete P task desc)"
    "typed (anscheduler_descriptor_find task fd)"
  unfolding anscheduler_descriptor_set_def anscheduler_descriptor_delete_def anscheduler_descriptor_find_def
    descriptor_find_round_def Let_def
  by (rule typed_rules typed_step_same | simp | simp add: struct_typed)+

lemma typed_pending [typed_rules]:
  "typed (anscheduler_task_pending task desc)" "typed (anscheduler_task_not_pending task desc)"
    "typed (anscheduler_task_pop_pending task)"
  unfolding anscheduler_task_pending_def anscheduler_task_not_pending_def anscheduler_task_pop_pending_def
    pop_pending_round_def
  by (rule typed_rules typed_step_same | simp | simp add: struct_typed)+

lemma typed_current_sockets [typed_rules]:
  "typed (anscheduler_socket_for_descriptor fd)" "typed anscheduler_socket_next_pending"
  unfolding anscheduler_socket_for_descriptor_def anscheduler_socket_next_pending_def
  by (rule typed_rules typed_step_same | simp | simp add: struct_typed)+

lemma typed_queues [typed_rules]:
  "typed (push_message dest msg)" "typed (anscheduler_socket_read dest)" "typed (anscheduler_socket_msg_data P source len)"
  unfolding push_message_def anscheduler_socket_read_def anscheduler_socket_msg_data_def wr_byte_def Let_def filled
  by (rule typed_rules typed_step_same | simp | simp add: struct_typed)+

lemma typed_socket_ends [typed_rules]:
  "typed (create_descriptor P socket task isConnector)" "typed (anscheduler_socket_close socket code)"
    "typed (anscheduler_socket_dereference P socket)" "typed (reference_other_end socket sock)"
  unfolding create_descriptor_def anscheduler_socket_close_def anscheduler_socket_dereference_def
    reference_other_end_def Let_def
  by (rule typed_rules typed_step_same | simp | simp add: struct_typed)+

lemma typed_socket_new [typed_rules]:
  "typed (anscheduler_socket_new P)" "typed (anscheduler_socket_remote P socket)"
    "typed (anscheduler_socket_msg_async P socket msg)"
  unfolding anscheduler_socket_new_def anscheduler_socket_remote_def anscheduler_socket_msg_async_def Let_def
  by (rule typed_rules typed_step_same | simp | simp add: struct_typed)+

lemma typed_wakeup [typed_rules]:
  "typed (wakeup_endpoint P dest)"
  unfolding wakeup_endpoint_def find_polling_round_def switch_continuation_def Let_def
  by (rule typed_rules typed_step_same | simp | simp add: struct_typed)+

lemma typed_socket_msg [typed_rules]:
  "typed (anscheduler_socket_msg P socket msg)"
  unfolding anscheduler_socket_msg_def Let_def
  by (rule typed_rules typed_step_same | simp | simp add: struct_typed)+

lemma typed_socket_connect [typed_rules]:
  "typed (anscheduler_socket_connect P socket task)" "typed (async_msg P info)"
  unfolding anscheduler_socket_connect_def async_msg_def filled
  by (rule typed_rules typed_step_same | simp | simp add: struct_typed)+

lemma typed_socket_free [typed_rules]:
  "typed (socket_free socket)" "typed (leave_socket socket sock)"
  unfolding socket_free_def free_queue_round_def leave_socket_def Let_def
  by (rule typed_rules typed_step_same | simp | simp add: struct_typed)+

lemma typed_hangup [typed_rules]:
  "typed (hangup_finish P socket sock)" "typed (socket_hangup P socket)"
  unfolding hangup_finish_def socket_hangup_def release_end_def Let_def filled
  by (rule typed_rules typed_step_same | simp | simp add: struct_typed)+

lemma typed_intd_lock [typed_rules]:
  "typed anscheduler_intd_lock" "typed anscheduler_intd_unlock" "typed anscheduler_pager_lock" "typed anscheduler_pager_unlock"
  unfolding anscheduler_intd_lock_def anscheduler_intd_unlock_def anscheduler_pager_lock_def anscheduler_pager_unlock_def
  by (rule typed_rules typed_step_same | simp | simp add: struct_typed)+

lemma typed_intd [typed_rules]:
  "typed anscheduler_intd_get" "typed anscheduler_intd_waiting"
  unfolding anscheduler_intd_get_def anscheduler_intd_waiting_def
  by (rule typed_rules typed_step_same | simp | simp add: struct_typed)+

lemma typed_pager [typed_rules]:
  "typed anscheduler_pager_peek" "typed anscheduler_pager_waiting"
  unfolding anscheduler_pager_peek_def anscheduler_pager_waiting_def
  by (rule typed_rules typed_step_same | simp | simp add: struct_typed)+

lemma typed_task_exit [typed_rules]:
  "typed (anscheduler_task_exit P code)"
  unfolding anscheduler_task_exit_def task_exit_def
  by (rule typed_rules typed_step_same | simp | simp add: struct_typed)+

lemma typed_zero_block [typed_rules]: "typed (zero_block p)"
  by (simp add: steps_def zero_block_def typed_step_same split: option.split)

lemma typed_stacks [typed_rules]:
  "typed (anscheduler_thread_interrupt_stack thread)" "typed (anscheduler_thread_user_stack thread)"
    "typed (anscheduler_thread_kernel_stack P task thread)" "typed (alloc_kernel_stack P task thread)"
    "typed (map_user_stack P task thread)" "typed (dealloc_kernel_stack P task thread)" "typed (put_stack P task stack)"
  unfolding anscheduler_thread_interrupt_stack_def anscheduler_thread_user_stack_def
    anscheduler_thread_kernel_stack_def alloc_kernel_stack_def map_user_stack_def map_user_round_def
    dealloc_kernel_stack_def put_stack_def Let_def
  by (rule typed_rules typed_step_same | simp | simp add: struct_typed)+

lemma typed_threads [typed_rules]:
  "typed (anscheduler_thread_create P task)" "typed (anscheduler_thread_add task thread)"
  unfolding anscheduler_thread_create_def setup_stacks_def anscheduler_thread_add_def Let_def filled
  by (rule typed_rules typed_step_same | simp | simp add: struct_typed)+

lemma typed_tasks [typed_rules]:
  "typed (anscheduler_task_create P)" "typed (anscheduler_task_launch P task)"
  unfolding anscheduler_task_create_def map_first_4mb_def map_first_round_def anscheduler_task_launch_def
    launch_round_def Let_def
  by (rule typed_rules typed_step_same | simp | simp add: struct_typed)+

lemma typed_thread_end [typed_rules]:
  "typed anscheduler_thread_poll" "typed (anscheduler_thread_deallocate P task thread)" "typed (anscheduler_thread_exit P)"
  unfolding anscheduler_thread_poll_def anscheduler_thread_deallocate_def release_page_def free_page_def
    anscheduler_thread_exit_def finalize_thread_exit_def anscheduler_intd_cmpnull_def Let_def
  by (rule typed_rules typed_step_same | simp | simp add: struct_typed)+

lemma typed_events [typed_rules]:
  "typed (anscheduler_irq P n)" "typed (anscheduler_intd_set thread)" "typed (anscheduler_intd_cmpnull thread)"
  "typed anscheduler_intd_read"
  unfolding anscheduler_irq_def anscheduler_intd_set_def anscheduler_intd_cmpnull_def anscheduler_intd_read_def
    irq_flag_def Let_def
  by (rule typed_rules typed_step_same | simp | simp add: struct_typed)+

lemma typed_faults [typed_rules]:
  "typed (anscheduler_pager_set thread)" "typed anscheduler_pager_shift" "typed (anscheduler_page_fault P ptr flags)"
  unfolding anscheduler_pager_set_def anscheduler_pager_shift_def anscheduler_page_fault_def push_page_fault_def
    push_page_fault_cont_def append_fault_def wake_pager_def Let_def
  by (rule typed_rules typed_step_same | simp | simp add: struct_typed)+

lemma typed_free_task [typed_rules]: "typed (free_task_method P task)" "typed (free_task_resumed P thread task i desc)"
  unfolding free_task_method_rest free_task_resumed_def free_task_rest_def free_threads_round_def close_task_sockets_async_def
    close_round_def wait_round_def resign_continuation_def Let_def
  by (rule typed_rules typed_step_same | simp | simp add: struct_typed)+

lemma typed_ignore [typed_rules]: "typed m \<Longrightarrow> typed (ignore m)"
  unfolding ignore_def by (rule typed.seq[OF _ typed.basic(2)])

lemma component_typed:
  "typed (do_loop P c0)" "typed (do_task P c1)" "typed (do_thread P c2)" "typed (do_socket P c3)" "typed (do_event P c4)"
proof -
  show "typed (do_loop P c0)" by (cases c0; simp only: do_loop.simps; (rule typed_rules)+)
  show "typed (do_task P c1)" by (cases c1; simp only: do_task.simps; (rule typed_rules)+)
  show "typed (do_thread P c2)" by (cases c2; simp only: do_thread.simps; (rule typed_rules)+)
  show "typed (do_socket P c3)" by (cases c3; simp only: do_socket.simps; (rule typed_rules)+)
  show "typed (do_event P c4)" by (cases c4; simp only: do_event.simps; (rule typed_rules)+)
qed

lemma enter_typed: "typed (enter P op)"
proof (cases op)
  case (Call c)
  then show ?thesis by (cases c) (simp_all add: component_typed)
qed (simp_all add: typed_free_task)

subsection \<open>Properties\<close>

text \<open>C7: the fields stay in their ranges. In any run of the kernel, with calls that return and calls that give up the CPU
  anywhere, and with tasks being freed: every message is a connect message without payload, a data message of less than
  0xfe8 bytes or a close message of eight bytes, whatever lengths the callers ask for; every thread of a task
  has a stack index below 0x100000, whatever index its task's pool hands out; and the truth values in tasks, sockets and descriptors
  are 0 or 1.\<close>

theorem fields_stay_in_range:
  assumes "kernel_run P G s ops s'" and "in_range s"
  shows "in_range s'"
  using assms
proof induction
  case (returns ops s1 op s2)
  then show ?case using stepsD(1)[OF enter_typed returns.hyps(4)] by (simp add: typed_step_def)
next
  case (switches ops s1 op c s2)
  then show ?case using stepsD(2)[OF enter_typed switches.hyps(4)] by (simp add: typed_step_def)
next
  case outside
  have "typed_step s1 (s1\<lparr>cpu_locked := b, now := n, vmst := v\<rparr>)" for s1 :: "'a sched" and b n v
    by (rule typed_step_same) simp_all
  then show ?case using outside.IH[OF outside.prems] unfolding typed_step_def by blast
qed

text \<open>In the state after power on, a message of three bytes is built, and one that is too long is refused.\<close>

lemma boot_messages:
  "\<exists>s'. call flat_plat (Socket (Msg_data (\<lambda>_. 7) 3)) flat_boot = Ret () s' \<and> msgs s' 0x1000 \<noteq> None \<and> cpu_locked s' \<and>
    call flat_plat (Socket (Msg_data (\<lambda>_. 7) 0xfe8)) s' = Ret () s'"
proof -
  let ?s = "flat_boot\<lparr>allocs := Suc 0, raws := (raws flat_boot)(0x1000 \<mapsto> sizeof_socket_msg_t)\<rparr>"
  have "\<not> live flat_boot p" for p by (simp add: live_def flat_boot_def boot_def)
  moreover have "cpu_locked flat_boot" "allocs flat_boot = 0" by (simp_all add: flat_boot_def boot_def)
  ultimately have "anscheduler_alloc flat_plat sizeof_socket_msg_t flat_boot = Ret 0x1000 ?s"
    by (simp add: anscheduler_alloc_def flat_plat_def flat_alloc_def sizeof_socket_msg_t_def)
  moreover have "cpu_locked flat_boot" by (simp add: flat_boot_def boot_def)
  ultimately show ?thesis
    by (simp add: ignore_def anscheduler_socket_msg_data_def kern kfor.simps wr_byte_def)
qed

theorem fields_stay_in_range_witness:
  "\<exists>s'. kernel_run flat_plat (\<lambda>_ _. True) flat_boot
      [Call (Socket (Msg_data (\<lambda>_. 7) 3)), Call (Socket (Msg_data (\<lambda>_. 7) 0xfe8))] s' \<and> msgs s' 0x1000 \<noteq> None \<and> in_range s'"
proof -
  from boot_messages obtain s' where r: "call flat_plat (Socket (Msg_data (\<lambda>_. 7) 3)) flat_boot = Ret () s'" "msgs s' 0x1000 \<noteq> None"
    "cpu_locked s'" "call flat_plat (Socket (Msg_data (\<lambda>_. 7) 0xfe8)) s' = Ret () s'" by blast
  let ?G = "\<lambda>(_ :: entry) (_ :: flatvm sched). True"
  have "kernel_run flat_plat ?G flat_boot ([] @ [Call (Socket (Msg_data (\<lambda>_. 7) 3))]) s'"
    using r(1) by (intro kernel_run.returns[OF kernel_run.start]) (simp_all add: flat_boot_def boot_def)
  from kernel_run.returns[OF this, of "Call (Socket (Msg_data (\<lambda>_. 7) 0xfe8))" s'] r(3,4)
  have k: "kernel_run flat_plat ?G flat_boot [Call (Socket (Msg_data (\<lambda>_. 7) 3)), Call (Socket (Msg_data (\<lambda>_. 7) 0xfe8))] s'" by simp
  have "in_range flat_boot" by (simp add: in_range_def flat_boot_def boot_def)
  with fields_stay_in_range[OF k] k r(2) show ?thesis by blast
qed

end
