(* ===== verification/Socket_Life.thy ===== *)
theory Socket_Life
  imports Socket_Queue
begin

text \<open>
  The life of one end of a socket (\<open>src/socket.c\<close>): it is referenced, released and closed by any number of
  threads, and when it is closed and the last reference is gone it is taken off the lists of its task
  and a kernel thread is started that hangs up.
\<close>

subsection \<open>The fields of a descriptor\<close>

text \<open>
  The operations of this theory touch the links of the pending list, the reference count and the close state
  of descriptors. The links of the descriptor table and those of the pending list are independent of that.
\<close>

definition table_links :: "socket_desc_t \<Rightarrow> addr \<times> addr \<times> u64" where
  "table_links d = (d_next d, d_last d, d_descriptor d)"

definition pending_links :: "socket_desc_t \<Rightarrow> addr \<times> addr" where
  "pending_links d = (d_pendingNext d, d_pendingLast d)"

text \<open>What neither of the two lists changes.\<close>

definition desc_core :: "socket_desc_t \<Rightarrow> addr \<times> addr \<times> u64 \<times> u64 \<times> u64 \<times> u64" where
  "desc_core d = (d_socket d, d_task d, d_isConnector d, d_isClosed d, d_refCount d, d_closeCode d)"

definition same_on :: "(socket_desc_t \<Rightarrow> 'b) \<Rightarrow> (addr \<rightharpoonup> socket_desc_t) \<Rightarrow> (addr \<rightharpoonup> socket_desc_t) \<Rightarrow> bool" where
  "same_on f h h' \<longleftrightarrow> (\<forall>p. map_option f (h' p) = map_option f (h p))"

lemma same_on_refl [simp]: "same_on f h h"
  by (simp add: same_on_def)

lemma same_on_trans: "same_on f h h1 \<Longrightarrow> same_on f h1 h2 \<Longrightarrow> same_on f h h2"
  by (simp add: same_on_def)

lemma same_on_upd: "h p = Some d \<Longrightarrow> f d' = f d \<Longrightarrow> same_on f h (h(p \<mapsto> d'))"
  by (simp add: same_on_def)

lemma same_on_Some: "same_on f h h' \<Longrightarrow> h p = Some d \<Longrightarrow> \<exists>d'. h' p = Some d' \<and> f d' = f d"
  unfolding same_on_def by (metis map_option_eq_Some option.simps(9))

lemma same_on_None: "same_on f h h' \<Longrightarrow> (h' p = None) = (h p = None)"
  unfolding same_on_def by (metis None_eq_map_option_iff)

lemma same_on_fld:
  assumes "same_on f h h'" and "\<And>d d'. f d' = f d \<Longrightarrow> g d' = g d"
  shows "fld g h' = fld g h"
proof
  fix p
  show "fld g h' p = fld g h p"
  proof (cases "h p")
    case None
    then show ?thesis using same_on_None[OF assms(1), of p] by (simp add: fld_def)
  next
    case (Some d)
    from same_on_Some[OF assms(1) this] obtain d' where d': "h' p = Some d'" "f d' = f d" by blast
    show ?thesis using assms(2)[OF d'(2)] d'(1) Some by (simp add: fld_def)
  qed
qed

lemma desc_rep_same:
  assumes "desc_rep s task M" and "tasks s task = Some tk" and "same_on table_links (descs s) (descs s')"
    and "tasks s' task = Some tk'" and "t_sockets tk' = t_sockets tk"
  shows "desc_rep s' task M"
proof -
  obtain B where B: "table d_next d_last d_descriptor descriptor_hash (t_sockets tk) (descs s) B"
    "\<forall>k x. M k = Some x \<longleftrightarrow> x \<in> set (B (descriptor_hash k)) \<and> map_option d_descriptor (descs s x) = Some k"
    using assms(1,2) by (auto simp: desc_rep_def table_rep_def)
  have n: "fld d_next (descs s') = fld d_next (descs s)" "fld d_last (descs s') = fld d_last (descs s)"
    by (rule same_on_fld[OF assms(3)], simp add: table_links_def)+
  have k: "map_option d_descriptor (descs s' x) = map_option d_descriptor (descs s x)" for x
    using same_on_Some[OF assms(3), of x] same_on_None[OF assms(3), of x]
    by (cases "descs s x") (auto simp: table_links_def)
  have hash: "descriptor_hash (d_descriptor a) = i" if "x \<in> set (B i)" "descs s' x = Some a" for x i a
    using B(1) that k[of x] by (cases "descs s x") (auto simp: table_def)
  have "table d_next d_last d_descriptor descriptor_hash (t_sockets tk') (descs s') B"
    using B(1) n same_on_None[OF assms(3)] hash unfolding table_def chain_def assms(5) by simp
  then show ?thesis
    unfolding desc_rep_def table_rep_def using assms(4) B(2) k by auto
qed

subsection \<open>Leaving the pending list\<close>

abbreviation set_pendingNext :: "addr \<Rightarrow> socket_desc_t \<Rightarrow> socket_desc_t" where
  "set_pendingNext p \<equiv> d_pendingNext_update (\<lambda>_. p)"

abbreviation set_pendingLast :: "addr \<Rightarrow> socket_desc_t \<Rightarrow> socket_desc_t" where
  "set_pendingLast p \<equiv> d_pendingLast_update (\<lambda>_. p)"

interpretation pend: intrusive_list d_pendingNext d_pendingLast set_pendingNext set_pendingLast
  by unfold_locales simp_all

text \<open>
  The pending list with all its back links, which it has as long as no socket is taken from its front by
  \<open>anscheduler_task_pop_pending\<close>.
\<close>

definition pending_chain :: "'v sched \<Rightarrow> addr \<Rightarrow> addr list \<Rightarrow> bool" where
  "pending_chain s task xs \<longleftrightarrow> (\<exists>tk. tasks s task = Some tk \<and> t_firstPending tk = first_of xs) \<and>
     chain d_pendingNext d_pendingLast (descs s) xs"

definition off_list :: "addr \<Rightarrow> socket_desc_t \<Rightarrow> (addr \<rightharpoonup> socket_desc_t) \<Rightarrow> addr \<rightharpoonup> socket_desc_t" where
  "off_list x d h = upd x (\<lambda>d. set_pendingNext NULL (set_pendingLast NULL d))
     (unlink set_pendingNext set_pendingLast (d_pendingLast d) (d_pendingNext d) h)"

lemma off_list_map:
  assumes "\<And>q a. g (set_pendingNext q a) = g a" and "\<And>q a. g (set_pendingLast q a) = g a"
  shows "map_option g (off_list x d h p) = map_option g (h p)"
  using pend.unlink_map[of g, OF assms] by (simp add: off_list_def upd_apply option.map_comp comp_def assms)

lemma off_list_same: "same_on table_links h (off_list x d h)" "same_on desc_core h (off_list x d h)"
  unfolding same_on_def by (intro allI off_list_map; simp add: table_links_def desc_core_def)+

lemma pending_links_swap: "set_pendingLast a (set_pendingNext b d) = set_pendingNext b (set_pendingLast a d)"
  by (cases d) simp

lemma not_pending_absent:
  assumes "tasks s task = Some tk" and "t_firstPending tk \<noteq> x" and "not_listed s x" and "PendingLock task \<notin> set (held s)"
  shows "anscheduler_task_not_pending task x s = Ret () s"
  using assms by (auto simp: anscheduler_task_not_pending_def not_listed_def kern)

lemma not_pending_runs:
  assumes L: "pending_chain s task (as @ x # bs)" and tk: "tasks s task = Some tk" and d: "descs s x = Some d"
    and l: "PendingLock task \<notin> set (held s)"
  shows "anscheduler_task_not_pending task x s = Ret ()
    (s\<lparr>tasks := (tasks s)(task \<mapsto> if as = [] then tk\<lparr>t_firstPending := first_of bs\<rparr> else tk),
       descs := off_list x d (descs s)\<rparr>)"
proof -
  have c: "chain d_pendingNext d_pendingLast (descs s) (as @ x # bs)" and f: "t_firstPending tk = first_of (as @ x # bs)"
    using L tk by (auto simp: pending_chain_def)
  have links: "d_pendingLast d = last_of as" "d_pendingNext d = first_of bs" by (rule chain_at[OF c d])+
  have ne: "x \<notin> set as" "x \<notin> set bs" "set as \<inter> set bs = {}" "NULL \<notin> set (as @ x # bs)"
    using chain_distinct[OF c] chain_nonnull[OF c] by auto
  have A: "last_of as \<in> set as" "last_of as \<noteq> x" "last_of as \<noteq> NULL" if "as \<noteq> []"
    using that ne(1,4) by (cases as rule: rev_cases; auto)+
  have B: "first_of bs \<in> set bs" "first_of bs \<noteq> x" "first_of bs \<noteq> NULL" if "bs \<noteq> []"
    using that ne(2,4) by (cases bs; auto)+
  have AB: "first_of bs \<noteq> last_of as" if "as \<noteq> []" "bs \<noteq> []"
    using A(1)[OF that(1)] B(1)[OF that(2)] ne(3) by auto
  have ends: "first_of (as @ x # bs) = (if as = [] then x else first_of as)" "first_of as = x \<longleftrightarrow> as = [] \<and> x = NULL"
    using ne(1) by (simp_all add: first_of_append) (cases as; auto)
  note defs = anscheduler_task_not_pending_def kern off_list_def unlink_def Let_def pending_links_swap sched_order links f ends
  show ?thesis
  proof (cases "as = []"; cases "bs = []")
    assume "as = []" "bs = []"
    with tk d l ne(4) show ?thesis by (simp add: defs)
  next
    assume ab: "as = []" "bs \<noteq> []"
    with chain_Some[OF c, of "first_of bs"] B(1) obtain e where "descs s (first_of bs) = Some e" by auto
    with tk d l ne(4) ab B(2,3) show ?thesis by (simp add: defs)
  next
    assume ab: "as \<noteq> []" "bs = []"
    with chain_Some[OF c, of "last_of as"] A(1) obtain e where "descs s (last_of as) = Some e" by auto
    with tk d l ne(4) ab A(2,3) show ?thesis by (simp add: defs fun_upd_idem)
  next
    assume ab: "as \<noteq> []" "bs \<noteq> []"
    with chain_Some[OF c, of "last_of as"] chain_Some[OF c, of "first_of bs"] A(1) B(1) obtain e e' where "descs s (last_of as) = Some e" "descs s (first_of bs) = Some e'" by auto
    with tk d l ne(4) ab A(2,3) B(2,3) AB show ?thesis by (simp add: defs fun_upd_idem)
  qed
qed

text \<open>The pending list of a task, and an end of a socket that is on it, or is not listed at all.\<close>

definition pending_ok :: "'v sched \<Rightarrow> addr \<Rightarrow> addr \<Rightarrow> addr list \<Rightarrow> bool" where
  "pending_ok s task x qs \<longleftrightarrow> pending_chain s task qs \<and> (x \<in> set qs \<or> not_listed s x)"

lemma off_list_chain:
  assumes c: "chain d_pendingNext d_pendingLast h (as @ x # bs)" and d: "h x = Some d"
  shows "chain d_pendingNext d_pendingLast (off_list x d h) (as @ bs)"
    and "\<exists>d'. off_list x d h x = Some d' \<and> d_pendingNext d' = NULL \<and> d_pendingLast d' = NULL"
proof -
  let ?h = "unlink set_pendingNext set_pendingLast (last_of as) (first_of bs) h"
  have off: "off_list x d h = upd x (\<lambda>d. set_pendingNext NULL (set_pendingLast NULL d)) ?h"
    unfolding off_list_def chain_at[OF c d] ..
  have nin: "x \<notin> set (as @ bs)" "x \<noteq> NULL" using chain_distinct[OF c] chain_nonnull[OF c] by auto
  have "chain d_pendingNext d_pendingLast ?h (as @ bs)" by (rule pend.unlink_chain[OF c])
  moreover have "off_list x d h p = ?h p" if "p \<in> set (as @ bs)" for p
    using that nin(1) unfolding off by (auto simp: upd_apply)
  ultimately show "chain d_pendingNext d_pendingLast (off_list x d h) (as @ bs)"
    using chain_frame[of "as @ bs" "off_list x d h" ?h d_pendingNext d_pendingLast] by simp
  have "x \<noteq> last_of as" using nin by (cases as rule: rev_cases) auto
  moreover have "x \<noteq> first_of bs" using nin by (cases bs) auto
  ultimately show "\<exists>d'. off_list x d h x = Some d' \<and> d_pendingNext d' = NULL \<and> d_pendingLast d' = NULL"
    unfolding off using d by (simp add: upd_apply pend.unlink_other)
qed

lemma not_pending_effect:
  assumes P: "pending_ok s task x qs" and tk: "tasks s task = Some tk" and x: "descs s x = Some d"
    and n: "x \<noteq> NULL" and l: "PendingLock task \<notin> set (held s)"
  shows "\<exists>p h. anscheduler_task_not_pending task x s = Ret ()
      (s\<lparr>tasks := (tasks s)(task \<mapsto> tk\<lparr>t_firstPending := p\<rparr>), descs := h\<rparr>) \<and>
    same_on table_links (descs s) h \<and> same_on desc_core (descs s) h \<and>
    pending_ok (s\<lparr>tasks := (tasks s)(task \<mapsto> tk\<lparr>t_firstPending := p\<rparr>), descs := h\<rparr>) task x (removeAll x qs)"
proof (cases "x \<in> set qs")
  case True
  then obtain as bs where qs: "qs = as @ x # bs" by (auto dest: split_list)
  have L: "pending_chain s task (as @ x # bs)" using P qs by (simp add: pending_ok_def)
  then have c: "chain d_pendingNext d_pendingLast (descs s) (as @ x # bs)" "t_firstPending tk = first_of (as @ x # bs)"
    using tk by (simp_all add: pending_chain_def)
  have rem: "removeAll x qs = as @ bs" using chain_distinct[OF c(1)] qs by simp
  let ?p = "if as = [] then first_of bs else t_firstPending tk" and ?h = "off_list x d (descs s)"
  have run: "anscheduler_task_not_pending task x s = Ret () (s\<lparr>tasks := (tasks s)(task \<mapsto> tk\<lparr>t_firstPending := ?p\<rparr>), descs := ?h\<rparr>)"
    using not_pending_runs[OF L tk x l] by simp
  have "?p = first_of (as @ bs)" using c(2) by (cases as) simp_all
  then have "pending_ok (s\<lparr>tasks := (tasks s)(task \<mapsto> tk\<lparr>t_firstPending := ?p\<rparr>), descs := ?h\<rparr>) task x (removeAll x qs)"
    using off_list_chain[OF c(1) x] unfolding rem by (simp add: pending_ok_def pending_chain_def not_listed_def)
  then show ?thesis using run off_list_same by blast
next
  case False
  then have "not_listed s x" using P by (simp add: pending_ok_def)
  moreover have "t_firstPending tk \<noteq> x" using P tk False n by (cases qs) (auto simp: pending_ok_def pending_chain_def)
  ultimately have "anscheduler_task_not_pending task x s = Ret () s" using not_pending_absent[OF tk _ _ l] by simp
  moreover have "s\<lparr>tasks := (tasks s)(task \<mapsto> tk\<lparr>t_firstPending := t_firstPending tk\<rparr>), descs := descs s\<rparr> = s"
    using tk by (simp add: fun_upd_idem)
  moreover have "removeAll x qs = qs" using False by (rule removeAll_id)
  ultimately show ?thesis
    using P by (intro exI[of _ "t_firstPending tk"] exI[of _ "descs s"]) (simp only: same_on_refl simp_thms)
qed

subsection \<open>The abstract life of an end\<close>

text \<open>How many references there are, the code with which the end was closed, and how often hanging up was started.\<close>

record end_life =
  el_refs :: nat
  el_code :: "u64 option"
  el_hangups :: nat

datatype end_op = Ref_end | Deref_end | Close_end u64

fun end_step :: "end_op \<Rightarrow> end_life \<Rightarrow> end_life" where
  "end_step Ref_end l = (if el_code l = None then l\<lparr>el_refs := el_refs l + 1\<rparr> else l)"
| "end_step Deref_end l =
     (if el_code l \<noteq> None \<and> el_refs l = 0 then l
      else if el_code l \<noteq> None \<and> el_refs l = 1 then l\<lparr>el_refs := 0, el_hangups := el_hangups l + 1\<rparr>
      else l\<lparr>el_refs := el_refs l - 1\<rparr>)"
| "end_step (Close_end code) l = (if el_code l = None then l\<lparr>el_code := Some code\<rparr> else l)"

text \<open>An open end is released or closed only by somebody who holds a reference.\<close>

fun end_allowed :: "end_op \<Rightarrow> end_life \<Rightarrow> bool" where
  "end_allowed Ref_end l = (el_refs l < 2 ^ 64 - 1)"
| "end_allowed Deref_end l = (0 < el_refs l \<or> el_code l \<noteq> None)"
| "end_allowed (Close_end code) l = (0 < el_refs l \<or> el_code l \<noteq> None)"

definition end_inv :: "end_life \<Rightarrow> bool" where
  "end_inv l \<longleftrightarrow> el_hangups l = (if el_code l \<noteq> None \<and> el_refs l = 0 then 1 else 0)"

lemma end_step_inv: "end_inv l \<Longrightarrow> end_allowed op l \<Longrightarrow> end_inv (end_step op l)"
  by (cases op) (auto simp: end_inv_def split: if_splits)

text \<open>The operations of the kernel, and the kernel threads that were started to hang up.\<close>

fun run_end :: "'v plat \<Rightarrow> addr \<Rightarrow> end_op \<Rightarrow> ('v, unit) kern" where
  "run_end P x Ref_end = bnd (anscheduler_socket_reference x) (\<lambda>_. skip)"
| "run_end P x Deref_end = anscheduler_socket_dereference P x"
| "run_end P x (Close_end code) = anscheduler_socket_close x code"

definition hangup_jobs :: "'v sched \<Rightarrow> addr \<Rightarrow> addr set" where
  "hangup_jobs s x = {p. \<exists>t st. threads s p = Some t \<and> th_state t = TsEntry Socket_hangup x st}"

definition end_state :: "'v sched \<Rightarrow> addr \<Rightarrow> addr \<Rightarrow> end_life \<Rightarrow> bool" where
  "end_state s task x l \<longleftrightarrow>
     (\<exists>d. descs s x = Some d \<and> d_task d = task \<and> d_refCount d = of_nat (el_refs l) \<and>
       (d_isClosed d \<noteq> 0) = (el_code l \<noteq> None) \<and> (\<forall>c. el_code l = Some c \<longrightarrow> d_closeCode d = c)) \<and>
     el_refs l < 2 ^ 64 \<and> finite (hangup_jobs s x) \<and> card (hangup_jobs s x) = el_hangups l"

text \<open>
  The setting: a critical section with the locks free, a run queue, and a task whose descriptor table has
  the end under the number \<open>k\<close> as long as it was not hung up, and not after that. The pending list of the task has
  its back links and is \<open>qs\<close>, with or without the end, until it is hung up; then it is \<open>qs\<close> without the end.
\<close>

definition end_locks :: "addr \<Rightarrow> addr \<Rightarrow> lockid set" where
  "end_locks task x = {CloseLock x, PendingLock task, SocketsLock task, DescriptorsLock task, LoopLock}"

definition end_env :: "'v sched \<Rightarrow> addr \<Rightarrow> addr \<Rightarrow> u64 \<Rightarrow> addr list \<Rightarrow> bool" where
  "end_env s task x k qs \<longleftrightarrow> x \<noteq> NULL \<and> cpu_locked s \<and> set (held s) \<inter> end_locks task x = {} \<and> (\<exists>xs. run_queue s xs) \<and>
     (\<exists>M. desc_rep s task M \<and> (if hangup_jobs s x = {} then M k = Some x else x \<notin> ran M)) \<and>
     pending_ok s task x (if hangup_jobs s x = {} then qs else removeAll x qs) \<and>
     (hangup_jobs s x = {} \<longrightarrow> (\<exists>tk ps. tasks s task = Some tk \<and> idxset (nodes s) (t_descriptors tk) ps))"

definition end_rel :: "addr \<Rightarrow> addr \<Rightarrow> u64 \<Rightarrow> addr list \<Rightarrow> 'v sched \<Rightarrow> end_life \<Rightarrow> bool" where
  "end_rel task x k qs s l \<longleftrightarrow> end_state s task x l \<and> end_env s task x k qs \<and> end_inv l"

text \<open>Updates of the count and the close state leave the setting alone.\<close>

lemma pending_ok_same:
  assumes "pending_ok s task x qs" and "map_option t_firstPending (tasks s' task) = map_option t_firstPending (tasks s task)"
    and "same_on pending_links (descs s) (descs s')"
  shows "pending_ok s' task x qs"
proof -
  have n: "fld d_pendingNext (descs s') = fld d_pendingNext (descs s)" "fld d_pendingLast (descs s') = fld d_pendingLast (descs s)"
    by (rule same_on_fld[OF assms(3)], simp add: pending_links_def)+
  have "pending_chain s' task qs"
    using n same_on_None[OF assms(3)] assms(1,2) by (cases "tasks s' task") (auto simp: pending_ok_def pending_chain_def chain_def)
  moreover have "not_listed s x \<Longrightarrow> not_listed s' x"
    using same_on_Some[OF assms(3), of x] by (auto simp: not_listed_def pending_links_def)
  ultimately show ?thesis using assms(1) by (auto simp: pending_ok_def)
qed

lemma end_env_update:
  assumes "end_env s task x k qs" and "descs s x = Some d" and "table_links d' = table_links d" and "pending_links d' = pending_links d"
  shows "end_env (s\<lparr>descs := (descs s)(x \<mapsto> d')\<rparr>) task x k qs"
proof -
  let ?s = "s\<lparr>descs := (descs s)(x \<mapsto> d')\<rparr>"
  have same: "same_on table_links (descs s) (descs ?s)" "same_on pending_links (descs s) (descs ?s)"
    using assms(2-4) by (simp_all add: same_on_upd)
  have j: "hangup_jobs ?s x = hangup_jobs s x" by (simp add: hangup_jobs_def)
  have "desc_rep ?s task M" if M: "desc_rep s task M" for M
  proof -
    obtain tk where "tasks s task = Some tk" using M by (auto simp: desc_rep_def)
    then show ?thesis using desc_rep_same[OF M _ same(1)] by simp
  qed
  moreover have "pending_ok ?s task x ps" if "pending_ok s task x ps" for ps by (rule pending_ok_same[OF that _ same(2)]) simp
  moreover have rq: "run_queue ?s xs = run_queue s xs" for xs by (simp add: run_queue_def)
  ultimately show ?thesis
    using assms(1) unfolding end_env_def j rq by (cases "hangup_jobs s x = {}") auto
qed

lemma end_state_update:
  assumes "descs s' x = Some d" and "d_task d = task" and "d_refCount d = of_nat (el_refs l)" and "el_refs l < 2 ^ 64"
    and "(d_isClosed d \<noteq> 0) = (el_code l \<noteq> None)" and "\<And>c. el_code l = Some c \<Longrightarrow> d_closeCode d = c"
    and "finite (hangup_jobs s' x)" and "card (hangup_jobs s' x) = el_hangups l"
  shows "end_state s' task x l"
  using assms by (auto simp: end_state_def)

lemma end_rel_desc:
  assumes "end_rel task x k qs s l"
  obtains d where "descs s x = Some d" "d_task d = task" "d_refCount d = of_nat (el_refs l)"
    "(d_isClosed d \<noteq> 0) = (el_code l \<noteq> None)" "\<And>c. el_code l = Some c \<Longrightarrow> d_closeCode d = c" "el_refs l < 2 ^ 64"
    "finite (hangup_jobs s x)" "card (hangup_jobs s x) = el_hangups l" "CloseLock x \<notin> set (held s)"
  using assms by (auto simp: end_rel_def end_state_def end_env_def end_locks_def)

lemma hangup_jobs_descs [simp]: "hangup_jobs (s\<lparr>descs := h\<rparr>) x = hangup_jobs s x"
  by (simp add: hangup_jobs_def)

lemma reference_end:
  assumes r: "end_rel task x k qs s l" and al: "end_allowed Ref_end l"
  shows "aborts_or (run_end P x Ref_end s) (\<lambda>s'. end_rel task x k qs s' (end_step Ref_end l))"
proof -
  obtain d where d: "descs s x = Some d" "d_task d = task" "d_refCount d = of_nat (el_refs l)"
    "(d_isClosed d \<noteq> 0) = (el_code l \<noteq> None)" "\<And>c. el_code l = Some c \<Longrightarrow> d_closeCode d = c" "el_refs l < 2 ^ 64"
    "finite (hangup_jobs s x)" "card (hangup_jobs s x) = el_hangups l" "CloseLock x \<notin> set (held s)"
    using r by (rule end_rel_desc) blast
  note run = socket_reference_runs[OF d(1,9)]
  show ?thesis
  proof (cases "el_code l")
    case Some
    then show ?thesis using run d(4) r by (intro aborts_orI) (simp_all add: kern)
  next
    case None
    let ?d = "d\<lparr>d_refCount := d_refCount d + 1\<rparr>"
    let ?s = "s\<lparr>descs := (descs s)(x \<mapsto> ?d)\<rparr>"
    have "end_state ?s task x (end_step Ref_end l)"
      by (rule end_state_update[of _ _ ?d]) (use d al None in simp_all)
    moreover have "end_env ?s task x k qs"
      using r by (intro end_env_update[OF _ d(1)]) (simp_all add: end_rel_def table_links_def pending_links_def)
    moreover have "end_inv (end_step Ref_end l)" using r end_step_inv[OF _ al] by (simp add: end_rel_def)
    ultimately show ?thesis using run d(4) None by (intro aborts_orI) (simp_all add: kern end_rel_def)
  qed
qed

lemma close_runs:
  assumes "descs s x = Some d" and "CloseLock x \<notin> set (held s)"
  shows "anscheduler_socket_close x code s = Ret ()
    (s\<lparr>descs := (descs s)(x \<mapsto> d\<lparr>d_closeCode := if d_isClosed d = 0 then code else d_closeCode d, d_isClosed := 1\<rparr>)\<rparr>)"
  using assms by (simp add: anscheduler_socket_close_def kern)

lemma close_end:
  assumes r: "end_rel task x k qs s l" and al: "end_allowed (Close_end code) l"
  shows "aborts_or (run_end P x (Close_end code) s) (\<lambda>s'. end_rel task x k qs s' (end_step (Close_end code) l))"
proof -
  obtain d where d: "descs s x = Some d" "d_task d = task" "d_refCount d = of_nat (el_refs l)"
    "(d_isClosed d \<noteq> 0) = (el_code l \<noteq> None)" "\<And>c. el_code l = Some c \<Longrightarrow> d_closeCode d = c" "el_refs l < 2 ^ 64"
    "finite (hangup_jobs s x)" "card (hangup_jobs s x) = el_hangups l" "CloseLock x \<notin> set (held s)"
    using r by (rule end_rel_desc) blast
  let ?d = "d\<lparr>d_closeCode := if d_isClosed d = 0 then code else d_closeCode d, d_isClosed := 1\<rparr>"
  let ?s = "s\<lparr>descs := (descs s)(x \<mapsto> ?d)\<rparr>"
  have "end_state ?s task x (end_step (Close_end code) l)"
    by (rule end_state_update[of _ _ ?d]) (use d in \<open>auto split: if_splits\<close>)
  moreover have "end_env ?s task x k qs"
    using r by (intro end_env_update[OF _ d(1)]) (simp_all add: end_rel_def table_links_def pending_links_def)
  moreover have "end_inv (end_step (Close_end code) l)" using r end_step_inv[OF _ al] by (simp add: end_rel_def)
  ultimately show ?thesis using close_runs[OF d(1,9)] by (intro aborts_orI) (simp_all add: end_rel_def)
qed

lemma dereference_runs:
  assumes "descs s x = Some d" and "CloseLock x \<notin> set (held s)"
  shows "anscheduler_socket_dereference P x s =
    (let s' = s\<lparr>descs := (descs s)(x \<mapsto> d\<lparr>d_refCount := d_refCount d - 1\<rparr>)\<rparr>
     in if d_isClosed d \<noteq> 0 \<and> d_refCount d = 0 then Ret () s
        else if d_isClosed d \<noteq> 0 \<and> d_refCount d = 1 then
          bnd (anscheduler_task_not_pending (d_task d) x) (\<lambda>_.
          bnd (rd_desc x) (\<lambda>d.
          bnd (anscheduler_descriptor_delete P (d_task d) x) (\<lambda>_.
          anscheduler_loop_push_kernel P x Socket_hangup))) s'
        else Ret () s')"
  using assms by (simp add: anscheduler_socket_dereference_def kern Let_def)

subsection \<open>Starting to hang up\<close>

lemma desc_rep_key: "desc_rep s task M \<Longrightarrow> M k = Some x \<Longrightarrow> map_option d_descriptor (descs s x) = Some k"
  by (auto simp: desc_rep_def table_rep_def)

lemma desc_rep_removed:
  assumes "desc_rep s task M" and "M k = Some x"
  shows "x \<notin> ran (M(k := None))"
proof
  assume "x \<in> ran (M(k := None))"
  then obtain k' where k': "k' \<noteq> k" "M k' = Some x" by (auto simp: ran_def split: if_split_asm)
  have "Some k' = Some k" using desc_rep_key[OF assms(1) k'(2)] desc_rep_key[OF assms] by simp
  with k'(1) show False by simp
qed

lemma desc_core_links [simp]: "desc_core (d\<lparr>d_next := p\<rparr>) = desc_core d" "desc_core (d\<lparr>d_last := p\<rparr>) = desc_core d"
  by (simp_all add: desc_core_def)

lemma unlinked_same: "same_on desc_core h (unlinked_descs x d h)"
proof -
  have "map_option desc_core (unlink set_d_next set_d_last a b h p) = map_option desc_core (h p)" for a b p
    by (rule dsc.unlink_map) simp_all
  then show ?thesis
    by (simp add: same_on_def unlinked_descs_def upd_apply option.map_comp comp_def)
qed

lemma unlinked_pending: "same_on pending_links h (unlinked_descs x d h)"
proof -
  have "map_option pending_links (unlink set_d_next set_d_last a b h p) = map_option pending_links (h p)" for a b p
    by (rule dsc.unlink_map) (simp_all add: pending_links_def)
  moreover have "pending_links (d\<lparr>d_next := p, d_last := q\<rparr>) = pending_links d" "pending_links (d\<lparr>d_next := p\<rparr>) = pending_links d"
    "pending_links (d\<lparr>d_last := p\<rparr>) = pending_links d" for d p q by (simp_all add: pending_links_def)
  ultimately show ?thesis
    by (simp add: same_on_def unlinked_descs_def upd_apply option.map_comp comp_def)
qed

lemma hangup_jobs_cores:
  assumes "cores (threads s') = cores ts"
  shows "hangup_jobs s' x = {p. \<exists>t st. ts p = Some t \<and> th_state t = TsEntry Socket_hangup x st}"
proof -
  have "(\<exists>t st. threads s' p = Some t \<and> th_state t = TsEntry Socket_hangup x st) =
    (\<exists>t st. ts p = Some t \<and> th_state t = TsEntry Socket_hangup x st)" for p
    using arg_cong[OF assms, of "\<lambda>g. g p"]
    by (cases "ts p"; cases "threads s' p") (auto simp: cores_def dest: thread_core_fields(7))
  then show ?thesis by (simp add: hangup_jobs_def)
qed

definition end_gone :: "'v sched \<Rightarrow> addr \<Rightarrow> addr \<Rightarrow> (u64 \<rightharpoonup> addr) \<Rightarrow> addr list \<Rightarrow> socket_desc_t \<Rightarrow> 'v sched \<Rightarrow> bool" where
  "end_gone s task x M qs d s' \<longleftrightarrow> (\<exists>d'. descs s' x = Some d' \<and> desc_core d' = desc_core d) \<and> desc_rep s' task M \<and>
     pending_ok s' task x qs \<and>
     (\<exists>p. p \<notin> hangup_jobs s x \<and> hangup_jobs s' x = insert p (hangup_jobs s x)) \<and> held s' = held s \<and> cpu_locked s' \<and>
     (\<exists>xs. run_queue s' xs)"

context allocator
begin

lemma hang_up_started:
  assumes env: "x \<noteq> NULL" "cpu_locked s" "set (held s) \<inter> end_locks task x = {}" "run_queue s xs" "pending_ok s task x qs"
    and M: "desc_rep s task M" "M k = Some x" and tk: "tasks s task = Some tk" "idxset (nodes s) (t_descriptors tk) ps"
    and d: "descs s x = Some d" "d_task d = task"
  shows "aborts_or (bnd (anscheduler_task_not_pending task x) (\<lambda>_.
          bnd (rd_desc x) (\<lambda>d.
          bnd (anscheduler_descriptor_delete P (d_task d) x) (\<lambda>_.
          anscheduler_loop_push_kernel P x Socket_hangup))) s) (end_gone s task x (M(k := None)) (removeAll x qs) d)"
proof -
  have l: "PendingLock task \<notin> set (held s)" "SocketsLock task \<notin> set (held s)" "DescriptorsLock task \<notin> set (held s)"
    "LoopLock \<notin> set (held s)" using env(3) by (auto simp: end_locks_def)
  obtain q h where np: "anscheduler_task_not_pending task x s = Ret ()
      (s\<lparr>tasks := (tasks s)(task \<mapsto> tk\<lparr>t_firstPending := q\<rparr>), descs := h\<rparr>)"
    and same: "same_on table_links (descs s) h" "same_on desc_core (descs s) h"
    and pend: "pending_ok (s\<lparr>tasks := (tasks s)(task \<mapsto> tk\<lparr>t_firstPending := q\<rparr>), descs := h\<rparr>) task x (removeAll x qs)"
    using not_pending_effect[OF env(5) tk(1) d(1) env(1) l(1)] by blast
  let ?s1 = "s\<lparr>tasks := (tasks s)(task \<mapsto> tk\<lparr>t_firstPending := q\<rparr>), descs := h\<rparr>"
  obtain d1 where d1: "h x = Some d1" "desc_core d1 = desc_core d" using same_on_Some[OF same(2) d(1)] by blast
  then have t1: "d_task d1 = task" using d(2) by (simp add: desc_core_def)
  have M1: "desc_rep ?s1 task M" by (rule desc_rep_same[OF M(1) tk(1), where tk' = "tk\<lparr>t_firstPending := q\<rparr>"]) (use same in simp_all)
  obtain s2 tk2 where s2: "anscheduler_descriptor_delete P task x ?s1 = Ret () s2" "desc_rep s2 task (M(k := None))"
    "descs s2 = unlinked_descs x d1 h"
    "s2 = ?s1\<lparr>tasks := tasks s2, descs := descs s2, nodes := nodes s2, allocs := allocs s2\<rparr>"
    and tk2: "tasks s2 task = Some tk2" "tk2 = tk\<lparr>t_firstPending := q, t_sockets := t_sockets tk2, t_descriptors := t_descriptors tk2\<rparr>"
    using descriptor_delete_refines[OF allocator_axioms M1 M(2), of "tk\<lparr>t_firstPending := q\<rparr>" ps] tk env(2) l d1 by auto
  have "t_firstPending tk2 = q" by (subst tk2(2)) simp
  then have pend2: "pending_ok s2 task x (removeAll x qs)"
    using tk2(1) s2(3) unlinked_pending by (intro pending_ok_same[OF pend]) simp_all
  obtain d2 where d2: "descs s2 x = Some d2" "desc_core d2 = desc_core d"
    using same_on_Some[OF unlinked_same, of h x d1 x d1] d1 s2(3) by auto
  have f: "threads s2 = threads s" "held s2 = held s" "cpu_locked s2 = cpu_locked s" "queueCount s2 = queueCount s"
    "firstThread s2 = firstThread s" "lastThread s2 = lastThread s"
    using arg_cong[OF s2(4), of threads] arg_cong[OF s2(4), of held] arg_cong[OF s2(4), of cpu_locked]
      arg_cong[OF s2(4), of queueCount] arg_cong[OF s2(4), of firstThread] arg_cong[OF s2(4), of lastThread] by simp_all
  have code: "bnd (anscheduler_task_not_pending task x) (\<lambda>_. bnd (rd_desc x) (\<lambda>d.
      bnd (anscheduler_descriptor_delete P (d_task d) x) (\<lambda>_. anscheduler_loop_push_kernel P x Socket_hangup))) s =
    anscheduler_loop_push_kernel P x Socket_hangup s2"
    using np d1(1) t1 s2(1) by (simp add: kern)
  have "run_queue s2 xs" "cpu_locked s2" "LoopLock \<notin> set (held s2)"
    using env(2,4) l(4) f by (simp_all add: run_queue_def)
  from push_kernel_spawns[OF this, of x Socket_hangup] show ?thesis
  proof (elim disjE exE conjE)
    fix e s' assume "anscheduler_loop_push_kernel P x Socket_hangup s2 = Stop (Aborted e) s'"
    then show ?thesis unfolding code by (auto simp: aborts_or_def)
  next
    fix p stack s'
    let ?s3 = "s2\<lparr>allocs := Suc (Suc (allocs s2)), raws := (raws s2)(stack \<mapsto> 0x1000),
      threads := (threads s2)(p \<mapsto> kernel_thread Socket_hangup x stack)\<rparr>"
    assume p: "\<not> live s2 p" and s': "anscheduler_loop_push_kernel P x Socket_hangup s2 = Ret () s'"
      "run_queue s' (xs @ [p])" "hide_queue s' = hide_queue ?s3"
    note g = hide_queue_fields[OF s'(3)]
    have none: "threads s p = None" using not_live(3)[OF p] f(1) by simp
    have "hangup_jobs s' x = insert p (hangup_jobs s x)"
      using f(1) none by (subst hangup_jobs_cores[OF g(25)]) (auto simp: hangup_jobs_def kernel_thread_def)
    moreover have "p \<notin> hangup_jobs s x" using none by (simp add: hangup_jobs_def)
    moreover have "desc_rep s' task (M(k := None))" using s2(2) g(2,4) by (simp add: desc_rep_def)
    moreover have "pending_ok s' task x (removeAll x qs)"
      by (rule pending_ok_same[OF pend2]) (use g(2,4) in simp_all)
    ultimately have "end_gone s task x (M(k := None)) (removeAll x qs) d s'"
      unfolding end_gone_def using d2 g f env(2) s'(2) by auto
    then show ?thesis unfolding code using s'(1) by (rule aborts_orI[rotated])
  qed
qed

lemma dereference_end:
  assumes r: "end_rel task x k qs s l" and al: "end_allowed Deref_end l"
  shows "aborts_or (run_end P x Deref_end s) (\<lambda>s'. end_rel task x k qs s' (end_step Deref_end l))"
proof -
  obtain d where d: "descs s x = Some d" "d_task d = task" "d_refCount d = of_nat (el_refs l)"
    "(d_isClosed d \<noteq> 0) = (el_code l \<noteq> None)" "\<And>c. el_code l = Some c \<Longrightarrow> d_closeCode d = c" "el_refs l < 2 ^ 64"
    "finite (hangup_jobs s x)" "card (hangup_jobs s x) = el_hangups l" "CloseLock x \<notin> set (held s)"
    using r by (rule end_rel_desc) blast
  let ?d = "d\<lparr>d_refCount := d_refCount d - 1\<rparr>"
  let ?s = "s\<lparr>descs := (descs s)(x \<mapsto> ?d)\<rparr>"
  note run = dereference_runs[OF d(1,9), of P, unfolded Let_def]
  have inv: "end_inv (end_step Deref_end l)" and inv0: "end_inv l" using r end_step_inv[OF _ al] by (simp_all add: end_rel_def)
  have num: "d_refCount d = 0 \<longleftrightarrow> el_refs l = 0" "d_refCount d = 1 \<longleftrightarrow> el_refs l = 1"
    using d(3,6) of_nat_eq_one[OF d(6)] word_of_nat_eq_0_iff[where ?'a = 64, of "el_refs l"] by (auto dest!: dvd_imp_le)
  have env: "end_env ?s task x k qs"
    using r by (intro end_env_update[OF _ d(1)]) (simp_all add: end_rel_def table_links_def pending_links_def)
  consider (over) "el_code l \<noteq> None" "el_refs l = 0" | (last) "el_code l \<noteq> None" "el_refs l = 1"
    | (other) "el_refs l \<noteq> 0" "el_code l = None \<or> el_refs l \<noteq> 1"
    using al by (cases "el_code l"; cases "el_refs l = 1"; cases "el_refs l = 0") auto
  then show ?thesis
  proof cases
    case over
    then show ?thesis using run num d(4) r by (intro aborts_orI) simp_all
  next
    case other
    have "d_refCount d - 1 = of_nat (el_refs l - 1)" using d(3) other(1) by (simp add: of_nat_diff)
    then have "end_state ?s task x (end_step Deref_end l)"
      by (intro end_state_update[of _ _ ?d]) (use d other in auto)
    then have "end_rel task x k qs ?s (end_step Deref_end l)" using env inv by (simp add: end_rel_def)
    then show ?thesis using run num d(4) other by (intro aborts_orI) auto
  next
    case last
    have j: "hangup_jobs s x = {}" using inv0 last d(7,8) by (simp add: end_inv_def)
    obtain M tk ps xs where e: "x \<noteq> NULL" "cpu_locked ?s" "set (held ?s) \<inter> end_locks task x = {}" "run_queue ?s xs"
      "pending_ok ?s task x qs" "desc_rep ?s task M" "M k = Some x" "tasks ?s task = Some tk" "idxset (nodes ?s) (t_descriptors tk) ps"
      using env j unfolding end_env_def by auto
    have "aborts_or (run_end P x Deref_end s) (end_gone ?s task x (M(k := None)) (removeAll x qs) ?d)"
      using hang_up_started[OF e, of ?d] run num d(2,4) last by simp
    then show ?thesis
    proof (cases rule: aborts_orE)
      case (1 e s')
      then show ?thesis by (auto simp: aborts_or_def)
    next
      case (2 u s')
      then obtain d' p where s': "descs s' x = Some d'" "desc_core d' = desc_core ?d" "desc_rep s' task (M(k := None))"
        "hangup_jobs s' x = {p}" "held s' = held s" "cpu_locked s'" "\<exists>xs. run_queue s' xs" "pending_ok s' task x (removeAll x qs)"
        using j by (auto simp: end_gone_def)
      have "end_state s' task x (end_step Deref_end l)"
        by (rule end_state_update[OF s'(1)]) (use s'(2,4) d last inv0 num in \<open>auto simp: desc_core_def end_inv_def\<close>)
      moreover have "end_env s' task x k qs"
        using s' e(1,3) desc_rep_removed[OF e(6,7)] by (auto simp: end_env_def)
      ultimately show ?thesis using 2(1) inv by (intro aborts_orI) (simp_all add: end_rel_def)
    qed
  qed
qed

end

sublocale allocator \<subseteq> ends: simulation "run_end P x" "end_rel task x k qs" end_step end_allowed
  for x task k qs
proof
  fix s :: "'v sched" and l op
  assume "end_rel task x k qs s l" "end_allowed op l"
  then show "aborts_or (run_end P x op s) (\<lambda>s'. end_rel task x k qs s' (end_step op l))"
    by (cases op) (simp_all only: reference_end dereference_end close_end)
qed

context allocator
begin

lemmas end_sequences = ends.simulates_seq

end

subsection \<open>Properties\<close>

definition new_end :: end_life where
  "new_end = \<lparr>el_refs = 1, el_code = None, el_hangups = 0\<rparr>"


text \<open>The descriptor 3 of a task, which is open, has one reference, and is on the pending list with another one.\<close>

definition end_ex :: "flatvm sched" where
  "end_ex = sl_ex\<lparr>descs := (descs sl_ex)(0x100 \<mapsto> zero_desc\<lparr>d_next := 0x200, d_pendingNext := 0x200, d_descriptor := 3,
     d_refCount := 1, d_task := 0xA0000\<rparr>)\<rparr>"

lemma end_ex_fields: "tasks end_ex = tasks sl_ex" "held end_ex = []" "cpu_locked end_ex" "nodes end_ex = nodes sl_ex"
  "threads end_ex = Map.empty" "firstThread end_ex = NULL" "lastThread end_ex = NULL" "queueCount end_ex = 0"
  "descs end_ex 0x100 = Some (zero_desc\<lparr>d_next := 0x200, d_pendingNext := 0x200, d_descriptor := 3, d_refCount := 1, d_task := 0xA0000\<rparr>)"
  "descs end_ex 0x200 = descs sl_ex 0x200"
  by (simp_all add: end_ex_def sl_ex_def flat_boot_def boot_def)

lemma end_ex_jobs: "hangup_jobs end_ex x = {}"
  by (simp add: hangup_jobs_def end_ex_fields)

lemma end_ex_state: "end_state end_ex 0xA0000 0x100 new_end"
  by (simp add: end_state_def end_ex_jobs end_ex_fields new_end_def zero_desc_def)

lemma end_ex_env: "end_env end_ex 0xA0000 0x100 3 [0x100, 0x200]"
proof -
  have "run_queue end_ex []" by (simp add: run_queue_def end_ex_fields)
  moreover have "desc_rep end_ex 0xA0000 [3 \<mapsto> 0x100, 0x13 \<mapsto> 0x200]"
    by (rule desc_rep_same[OF sl_ex_rep sl_ex_task(1) _ _ refl])
      (simp_all add: end_ex_def sl_ex_task same_on_def table_links_def)
  moreover have "pending_chain end_ex 0xA0000 [0x100, 0x200]"
    by (simp add: pending_chain_def chain_def dlist_def fld_def end_ex_fields sl_ex_task zero_desc_def)
  moreover have "idxset (nodes end_ex) small_root [0x1000]"
    using small_idxset by (simp add: end_ex_fields sl_ex_def small_state_def)
  ultimately show ?thesis
    unfolding end_env_def end_ex_jobs pending_ok_def using end_ex_fields sl_ex_task(1) by fastforce
qed


end
