(* ===== verification/Socket_Traffic.thy ===== *)
theory Socket_Traffic
  imports Socket_Life
begin

text \<open>
  Messages from one end of a socket to the other (\<open>src/socket.c\<close>): sending a message puts it into the inbox of the
  other end, marks that end as pending for its task, and runs a thread of the task if one polls. Hanging
  up sends the other end the close code in the same way, or frees the whole socket if there is no other end.
\<close>

subsection \<open>Marking an end as pending\<close>

lemma task_pending_frame:
  assumes "tasks s task = Some tk" and "descs s x = Some d" and "t_firstPending tk = first_of xs"
    and "\<forall>y \<in> set xs. descs s y \<noteq> None" and "PendingLock task \<notin> set (held s)"
  shows "\<exists>p h. anscheduler_task_pending task x s = Ret ()
      (s\<lparr>tasks := (tasks s)(task \<mapsto> tk\<lparr>t_firstPending := p\<rparr>), descs := h\<rparr>) \<and>
    same_on table_links (descs s) h \<and> same_on desc_core (descs s) h"
proof -
  let ?skip = "d_pendingLast d \<noteq> NULL \<or> d_pendingNext d \<noteq> NULL \<or> t_firstPending tk = x"
  consider (listed) ?skip | (alone) "\<not> ?skip" "first_of xs = NULL"
    | (front) e where "\<not> ?skip" "first_of xs \<noteq> NULL" "descs s (first_of xs) = Some e" "first_of xs \<noteq> x"
    using assms(3,4) first_of_in[of xs] by (cases "first_of xs = NULL") auto
  then show ?thesis
  proof cases
    case listed
    then have "anscheduler_task_pending task x s = Ret () s"
      using assms by (auto simp: anscheduler_task_pending_def kern)
    moreover have "s\<lparr>tasks := (tasks s)(task \<mapsto> tk\<lparr>t_firstPending := t_firstPending tk\<rparr>), descs := descs s\<rparr> = s"
      using assms(1) by (simp add: fun_upd_idem)
    ultimately show ?thesis by (intro exI[of _ "t_firstPending tk"] exI[of _ "descs s"]) simp
  next
    case alone
    let ?h = "(descs s)(x \<mapsto> d\<lparr>d_pendingNext := NULL\<rparr>)"
    have "anscheduler_task_pending task x s = Ret () (s\<lparr>tasks := (tasks s)(task \<mapsto> tk\<lparr>t_firstPending := x\<rparr>), descs := ?h\<rparr>)"
      using alone assms by (auto simp: anscheduler_task_pending_def kern sched_order)
    moreover have "same_on table_links (descs s) ?h" "same_on desc_core (descs s) ?h"
      using assms(2) by (simp_all add: same_on_upd table_links_def desc_core_def)
    ultimately show ?thesis by blast
  next
    case front
    let ?h = "(descs s)(first_of xs \<mapsto> e\<lparr>d_pendingLast := x\<rparr>, x \<mapsto> d\<lparr>d_pendingNext := first_of xs\<rparr>)"
    have "anscheduler_task_pending task x s = Ret () (s\<lparr>tasks := (tasks s)(task \<mapsto> tk\<lparr>t_firstPending := x\<rparr>), descs := ?h\<rparr>)"
      using front assms by (auto simp: anscheduler_task_pending_def kern sched_order)
    moreover have "same_on table_links (descs s) ?h" "same_on desc_core (descs s) ?h"
      using assms(2) front(3,4) by (simp_all add: same_on_def table_links_def desc_core_def)
    ultimately show ?thesis by blast
  qed
qed

lemma task_pending_effect:
  assumes L: "pending_list s task ps" "x \<in> set ps \<or> not_listed s x" "x \<noteq> NULL" and tk: "tasks s task = Some tk"
    and d: "descs s x = Some d" and l: "PendingLock task \<notin> set (held s)"
  shows "\<exists>p h. anscheduler_task_pending task x s = Ret ()
      (s\<lparr>tasks := (tasks s)(task \<mapsto> tk\<lparr>t_firstPending := p\<rparr>), descs := h\<rparr>) \<and>
    same_on table_links (descs s) h \<and> same_on desc_core (descs s) h \<and>
    pending_list (s\<lparr>tasks := (tasks s)(task \<mapsto> tk\<lparr>t_firstPending := p\<rparr>), descs := h\<rparr>) task (if x \<in> set ps then ps else x # ps)"
proof -
  obtain s' where s': "anscheduler_task_pending task x s = Ret () s'" "pending_list s' task (if x \<in> set ps then ps else x # ps)"
    using task_pending_listed[OF L(1) _ l, of x] task_pending_unlisted[OF L(1) _ _ L(3) l] L(1,2) by (cases "x \<in> set ps") auto
  have "t_firstPending tk = first_of ps" "\<forall>y \<in> set ps. descs s y \<noteq> None" using L(1) tk by (auto simp: pending_list_def)
  from task_pending_frame[OF tk d this l] obtain p h where
    r: "anscheduler_task_pending task x s = Ret () (s\<lparr>tasks := (tasks s)(task \<mapsto> tk\<lparr>t_firstPending := p\<rparr>), descs := h\<rparr>)"
    and same: "same_on table_links (descs s) h" "same_on desc_core (descs s) h" by blast
  have "s' = s\<lparr>tasks := (tasks s)(task \<mapsto> tk\<lparr>t_firstPending := p\<rparr>), descs := h\<rparr>" using s'(1) r by simp
  then show ?thesis using s' same by (intro exI[of _ p] exI[of _ h]) simp
qed

subsection \<open>The search for a polling thread\<close>

definition task_threads :: "'v sched \<Rightarrow> addr list \<Rightarrow> bool" where
  "task_threads s ths \<longleftrightarrow> slist (thread_next (threads s)) ths \<and> (\<forall>x \<in> set ths. threads s x \<noteq> None)"

definition polling :: "'v sched \<Rightarrow> addr \<Rightarrow> bool" where
  "polling s x \<longleftrightarrow> (\<exists>t. threads s x = Some t \<and> th_isPolling t)"

lemma task_threads_Cons:
  "task_threads s (x # ths) \<longleftrightarrow> x \<noteq> NULL \<and> x \<notin> set ths \<and> (\<exists>t. threads s x = Some t \<and> th_next t = first_of ths) \<and>
     task_threads s ths"
  by (auto simp: task_threads_def slist_Cons thread_next_def)

lemma search_none:
  assumes "task_threads s ths" and "\<forall>x \<in> set ths. \<not> polling s x" and "held s = ThreadsLock task # h" and "tasks s task \<noteq> None"
    and "length ths < n"
  shows "kloop n Diverges (find_polling_round task) (first_of ths) s = Ret NULL (s\<lparr>held := h\<rparr>)"
  using assms
proof (induction ths arbitrary: n)
  case Nil
  then obtain m where n: "n = Suc m" by (cases n) auto
  have "find_polling_round task NULL s = Ret (Inr NULL) (s\<lparr>held := h\<rparr>)"
    using Nil.prems(3,4) by (simp add: find_polling_round_def kern)
  then show ?case unfolding n by (simp add: kloop_done)
next
  case (Cons x ths)
  then obtain m where n: "n = Suc m" and m: "length ths < m" by (cases n) auto
  obtain t where t: "threads s x = Some t" "th_next t = first_of ths" "x \<noteq> NULL" "\<not> th_isPolling t"
    using Cons.prems(1,2) by (auto simp: task_threads_Cons polling_def)
  have "t\<lparr>th_isPolling := False\<rparr> = t" using t(4) by (cases t) simp
  then have "find_polling_round task x s = Ret (Inl (first_of ths)) s"
    using t by (simp add: find_polling_round_def kern fun_upd_idem)
  moreover have "kloop m Diverges (find_polling_round task) (first_of ths) s = Ret NULL (s\<lparr>held := h\<rparr>)"
    using Cons.prems m by (intro Cons.IH) (auto simp: task_threads_Cons)
  ultimately show ?case unfolding n by (simp add: kloop_next[of "find_polling_round task" x s])
qed

lemma search_finds:
  assumes "task_threads s (as @ y # bs)" and "\<forall>x \<in> set as. \<not> polling s x" and "held s = ThreadsLock task # h" and "tasks s task \<noteq> None"
    and "threads s y = Some t" and "th_isPolling t" and "length (as @ y # bs) < n"
  shows "kloop n Diverges (find_polling_round task) (first_of (as @ y # bs)) s =
    Ret y (s\<lparr>threads := (threads s)(y \<mapsto> t\<lparr>th_isPolling := False\<rparr>), held := h\<rparr>)"
  using assms
proof (induction as arbitrary: n)
  case Nil
  then obtain m where n: "n = Suc m" by (cases n) auto
  have "find_polling_round task y s = Ret (Inr y) (s\<lparr>threads := (threads s)(y \<mapsto> t\<lparr>th_isPolling := False\<rparr>), held := h\<rparr>)"
    using Nil.prems(1,3-6) by (auto simp: find_polling_round_def kern sched_order task_threads_Cons)
  then have "kloop (Suc m) Diverges (find_polling_round task) y s =
      Ret y (s\<lparr>threads := (threads s)(y \<mapsto> t\<lparr>th_isPolling := False\<rparr>), held := h\<rparr>)" by (rule kloop_done)
  then show ?case unfolding n append_Nil first_of_simps .
next
  case (Cons x as)
  then obtain m where n: "n = Suc m" and m: "length (as @ y # bs) < m" by (cases n) auto
  obtain u where u: "threads s x = Some u" "th_next u = first_of (as @ y # bs)" "x \<noteq> NULL" "\<not> th_isPolling u"
    using Cons.prems(1,2) by (auto simp: task_threads_Cons polling_def)
  have "u\<lparr>th_isPolling := False\<rparr> = u" using u(4) by (cases u) simp
  then have "find_polling_round task x s = Ret (Inl (first_of (as @ y # bs))) s"
    using u by (simp add: find_polling_round_def kern fun_upd_idem)
  moreover have "kloop m Diverges (find_polling_round task) (first_of (as @ y # bs)) s =
    Ret y (s\<lparr>threads := (threads s)(y \<mapsto> t\<lparr>th_isPolling := False\<rparr>), held := h\<rparr>)"
    using Cons.prems m by (intro Cons.IH) (auto simp: task_threads_Cons)
  ultimately show ?case unfolding n append_Cons first_of_simps
    using kloop_next[of "find_polling_round task" x s _ s m Diverges] by metis
qed

subsection \<open>Waking up an end\<close>

text \<open>
  An open end of a socket whose task is alive, with the threads \<open>ths\<close> of the task and its pending list \<open>ps\<close>, and the locks
  that are taken on the way free.
\<close>

definition listens :: "'v sched \<Rightarrow> addr \<Rightarrow> socket_desc_t \<Rightarrow> task_t \<Rightarrow> addr list \<Rightarrow> addr list \<Rightarrow> bool" where
  "listens s e d tk ths ps \<longleftrightarrow> descs s e = Some d \<and> e \<noteq> NULL \<and> d_isClosed d = 0 \<and>
     tasks s (d_task d) = Some tk \<and> t_isKilled tk = 0 \<and> t_firstThread tk = first_of ths \<and> task_threads s ths \<and>
     pending_list s (d_task d) ps \<and> (e \<in> set ps \<or> not_listed s e) \<and>
     set (held s) \<inter> {CloseLock e, KillLock (d_task d), PendingLock (d_task d), ThreadsLock (d_task d)} = {}"

lemma pending_list_cong:
  assumes "pending_list s task ps" and "tasks s' task = Some tk'" and "t_firstPending tk' = first_of ps"
    and "same_on pending_links (descs s) (descs s')"
  shows "pending_list s' task ps"
proof -
  have n: "fld d_pendingNext (descs s') = fld d_pendingNext (descs s)" "fld d_pendingLast (descs s') = fld d_pendingLast (descs s)"
    by (rule same_on_fld[OF assms(4)], simp add: pending_links_def)+
  show ?thesis using assms(1-3) n same_on_None[OF assms(4)] by (auto simp: pending_list_def)
qed

text \<open>The part up to the search: the task is referenced, the end is pending and its reference is given back.\<close>

lemma wakeup_prefix:
  assumes L: "listens s e d tk ths ps"
  shows "\<exists>p h d'. wakeup_endpoint P e s =
      bnd (kwhile (find_polling_round (d_task d)) (first_of ths)) (\<lambda>thread.
       if thread \<noteq> NULL then
         bnd anscheduler_cpu_get_thread (\<lambda>curThread.
         anscheduler_save_return_state curThread thread (switch_continuation P))
       else
         bnd (rd_desc e) (\<lambda>d.
         anscheduler_task_dereference P (d_task d)))
      (s\<lparr>tasks := (tasks s)(d_task d \<mapsto> tk\<lparr>t_refCount := t_refCount tk + 1, t_firstPending := p\<rparr>), descs := h,
         held := ThreadsLock (d_task d) # held s\<rparr>) \<and>
    h e = Some d' \<and> desc_core d' = desc_core (d\<lparr>d_refCount := d_refCount d - 1\<rparr>) \<and>
    same_on table_links (descs s) h \<and> same_on desc_core ((descs s)(e := None)) (h(e := None)) \<and>
    pending_list (s\<lparr>tasks := (tasks s)(d_task d \<mapsto> tk\<lparr>t_firstPending := p\<rparr>), descs := h\<rparr>) (d_task d)
      (if e \<in> set ps then ps else e # ps)"
proof -
  let ?t = "d_task d"
  have d: "descs s e = Some d" "e \<noteq> NULL" "d_isClosed d = 0" and tk: "tasks s ?t = Some tk" "t_isKilled tk = 0" "t_firstThread tk = first_of ths"
    and ps: "pending_list s ?t ps" "e \<in> set ps \<or> not_listed s e"
    and l: "CloseLock e \<notin> set (held s)" "KillLock ?t \<notin> set (held s)" "PendingLock ?t \<notin> set (held s)" "ThreadsLock ?t \<notin> set (held s)"
    using L by (auto simp: listens_def)
  let ?tk = "tk\<lparr>t_refCount := t_refCount tk + 1\<rparr>"
  let ?s1 = "s\<lparr>tasks := (tasks s)(?t \<mapsto> ?tk)\<rparr>"
  have ref: "anscheduler_task_reference ?t s = Ret True ?s1" using task_reference_runs[OF tk(1) l(2)] tk(2) by simp
  have "pending_list ?s1 ?t ps" using ps(1) tk(1) by (auto simp: pending_list_def)
  moreover have "e \<in> set ps \<or> not_listed ?s1 e" using ps(2) by (simp add: not_listed_def)
  ultimately obtain p h where pend: "anscheduler_task_pending ?t e ?s1 = Ret ()
      (?s1\<lparr>tasks := (tasks ?s1)(?t \<mapsto> ?tk\<lparr>t_firstPending := p\<rparr>), descs := h\<rparr>)"
    and same: "same_on table_links (descs s) h" "same_on desc_core (descs s) h"
    and pl: "pending_list (?s1\<lparr>tasks := (tasks ?s1)(?t \<mapsto> ?tk\<lparr>t_firstPending := p\<rparr>), descs := h\<rparr>) ?t (if e \<in> set ps then ps else e # ps)"
    using task_pending_effect[of ?s1 ?t ps e ?tk d] d(1,2) l(3) by auto
  let ?s2 = "s\<lparr>tasks := (tasks s)(?t \<mapsto> ?tk\<lparr>t_firstPending := p\<rparr>), descs := h\<rparr>"
  obtain de where de: "h e = Some de" "desc_core de = desc_core d" using same_on_Some[OF same(2) d(1)] by blast
  let ?de = "de\<lparr>d_refCount := d_refCount de - 1\<rparr>"
  let ?h = "h(e \<mapsto> ?de)"
  have deref: "anscheduler_socket_dereference P e ?s2 = Ret () (?s2\<lparr>descs := ?h\<rparr>)"
    using dereference_runs[of ?s2 e de P] de d(3) l(1) by (simp add: desc_core_def Let_def)
  have "wakeup_endpoint P e s = bnd (kwhile (find_polling_round ?t) (first_of ths)) (\<lambda>thread.
       if thread \<noteq> NULL then
         bnd anscheduler_cpu_get_thread (\<lambda>curThread.
         anscheduler_save_return_state curThread thread (switch_continuation P))
       else
         bnd (rd_desc e) (\<lambda>d.
         anscheduler_task_dereference P (d_task d)))
      (s\<lparr>tasks := (tasks s)(?t \<mapsto> ?tk\<lparr>t_firstPending := p\<rparr>), descs := ?h, held := ThreadsLock ?t # held s\<rparr>)"
    using d ref pend deref l(4) tk(3) by (simp add: wakeup_endpoint_def kern Let_def)
  moreover have "desc_core ?de = desc_core (d\<lparr>d_refCount := d_refCount d - 1\<rparr>)" using de(2) by (simp add: desc_core_def)
  moreover have "same_on table_links (descs s) ?h"
    by (rule same_on_trans[OF same(1)]) (use de(1) in \<open>simp add: same_on_upd table_links_def\<close>)
  moreover have "same_on desc_core ((descs s)(e := None)) (?h(e := None))" using same(2) by (simp add: same_on_def)
  moreover have "pending_list (s\<lparr>tasks := (tasks s)(?t \<mapsto> tk\<lparr>t_firstPending := p\<rparr>), descs := ?h\<rparr>) ?t (if e \<in> set ps then ps else e # ps)"
  proof (rule pending_list_cong[OF pl])
    show "t_firstPending (tk\<lparr>t_firstPending := p\<rparr>) = first_of (if e \<in> set ps then ps else e # ps)"
      using pl by (auto simp: pending_list_def)
    show "same_on pending_links (descs (?s1\<lparr>tasks := (tasks ?s1)(?t \<mapsto> ?tk\<lparr>t_firstPending := p\<rparr>), descs := h\<rparr>))
        (descs (s\<lparr>tasks := (tasks s)(?t \<mapsto> tk\<lparr>t_firstPending := p\<rparr>), descs := ?h\<rparr>))"
      using de(1) by (simp add: same_on_upd pending_links_def)
  qed simp
  ultimately show ?thesis by (intro exI[of _ p] exI[of _ ?h] exI[of _ ?de]) simp
qed

text \<open>What a wake-up does to the descriptors: the end \<open>e\<close> loses one reference and may have entered the pending list.\<close>

definition woken :: "'v sched \<Rightarrow> addr \<Rightarrow> socket_desc_t \<Rightarrow> task_t \<Rightarrow> addr list \<Rightarrow> 'v sched \<Rightarrow> bool" where
  "woken s e d tk ps s' \<longleftrightarrow>
     (\<exists>d'. descs s' e = Some d' \<and> desc_core d' = desc_core (d\<lparr>d_refCount := d_refCount d - 1\<rparr>)) \<and>
     same_on table_links (descs s) (descs s') \<and> same_on desc_core ((descs s)(e := None)) ((descs s')(e := None)) \<and>
     pending_list s' (d_task d) (if e \<in> set ps then ps else e # ps)"

lemma wakeup_quiet:
  assumes L: "listens s e d tk ths ps" and quiet: "\<forall>x \<in> set ths. \<not> polling s x"
  shows "\<exists>p h. wakeup_endpoint P e s = Ret () (s\<lparr>tasks := (tasks s)(d_task d \<mapsto> tk\<lparr>t_firstPending := p\<rparr>), descs := h\<rparr>) \<and>
    woken s e d tk ps (s\<lparr>tasks := (tasks s)(d_task d \<mapsto> tk\<lparr>t_firstPending := p\<rparr>), descs := h\<rparr>)"
proof -
  let ?t = "d_task d"
  obtain p h d' where pre: "wakeup_endpoint P e s =
      bnd (kwhile (find_polling_round ?t) (first_of ths)) (\<lambda>thread.
       if thread \<noteq> NULL then
         bnd anscheduler_cpu_get_thread (\<lambda>curThread.
         anscheduler_save_return_state curThread thread (switch_continuation P))
       else
         bnd (rd_desc e) (\<lambda>d.
         anscheduler_task_dereference P (d_task d)))
      (s\<lparr>tasks := (tasks s)(?t \<mapsto> tk\<lparr>t_refCount := t_refCount tk + 1, t_firstPending := p\<rparr>), descs := h,
         held := ThreadsLock ?t # held s\<rparr>)"
    and h: "h e = Some d'" "desc_core d' = desc_core (d\<lparr>d_refCount := d_refCount d - 1\<rparr>)"
    "same_on table_links (descs s) h" "same_on desc_core ((descs s)(e := None)) (h(e := None))"
    "pending_list (s\<lparr>tasks := (tasks s)(?t \<mapsto> tk\<lparr>t_firstPending := p\<rparr>), descs := h\<rparr>) ?t (if e \<in> set ps then ps else e # ps)"
    using wakeup_prefix[OF L, of P] by blast
  let ?tk = "tk\<lparr>t_refCount := t_refCount tk + 1, t_firstPending := p\<rparr>"
  let ?s2 = "s\<lparr>tasks := (tasks s)(?t \<mapsto> ?tk), descs := h, held := ThreadsLock ?t # held s\<rparr>"
  let ?s3 = "s\<lparr>tasks := (tasks s)(?t \<mapsto> ?tk), descs := h\<rparr>"
  have ths: "task_threads ?s2 ths" "\<forall>x \<in> set ths. \<not> polling ?s2 x"
    using L quiet by (simp_all add: listens_def task_threads_def polling_def)
  have len: "length ths < max_steps" using ths(1) by (auto simp: task_threads_def dest: slist_length)
  have loop: "kwhile (find_polling_round ?t) (first_of ths) ?s2 = Ret NULL ?s3"
    unfolding kwhile_def using search_none[OF ths, of ?t "held s" max_steps] len by simp
  have t': "d_task d' = ?t" using h(2) by (simp add: desc_core_def)
  have "tk\<lparr>t_refCount := t_refCount tk + 1, t_firstPending := p, t_refCount := t_refCount tk\<rparr> = tk\<lparr>t_firstPending := p\<rparr>"
    by (cases tk) simp
  then have deref: "anscheduler_task_dereference P ?t ?s3 = Ret () (s\<lparr>tasks := (tasks s)(?t \<mapsto> tk\<lparr>t_firstPending := p\<rparr>), descs := h\<rparr>)"
    using task_dereference_runs[of ?s3 ?t ?tk P] L by (simp add: listens_def Let_def sched_order)
  have "wakeup_endpoint P e s = Ret () (s\<lparr>tasks := (tasks s)(?t \<mapsto> tk\<lparr>t_firstPending := p\<rparr>), descs := h\<rparr>)"
    unfolding pre using loop deref h(1) t' by (simp add: kern)
  then show ?thesis using h by (intro exI[of _ p] exI[of _ h]) (simp add: woken_def)
qed

text \<open>A polling thread is run at once; the thread that sent the message is saved.\<close>

lemma wakeup_switches:
  assumes L: "listens s e d tk (as @ y # bs) ps" and quiet: "\<forall>x \<in> set as. \<not> polling s x"
    and y: "threads s y = Some t" "th_isPolling t" and cur: "threads s (cpu_thread s) = Some c" "cpu_thread s \<noteq> y"
  shows "\<exists>p h. wakeup_endpoint P e s = anscheduler_loop_switch P (th_task t) y
      (s\<lparr>tasks := (tasks s)(d_task d \<mapsto> tk\<lparr>t_refCount := t_refCount tk + 1, t_firstPending := p\<rparr>), descs := h,
         threads := (threads s)(y \<mapsto> t\<lparr>th_isPolling := False\<rparr>, cpu_thread s \<mapsto> c\<lparr>th_state := TsSaved (cpu_locked s)\<rparr>)\<rparr>) \<and>
    woken s e d tk ps (s\<lparr>tasks := (tasks s)(d_task d \<mapsto> tk\<lparr>t_firstPending := p\<rparr>), descs := h\<rparr>)"
proof -
  let ?t = "d_task d"
  obtain p h d' where pre: "wakeup_endpoint P e s =
      bnd (kwhile (find_polling_round ?t) (first_of (as @ y # bs))) (\<lambda>thread.
       if thread \<noteq> NULL then
         bnd anscheduler_cpu_get_thread (\<lambda>curThread.
         anscheduler_save_return_state curThread thread (switch_continuation P))
       else
         bnd (rd_desc e) (\<lambda>d.
         anscheduler_task_dereference P (d_task d)))
      (s\<lparr>tasks := (tasks s)(?t \<mapsto> tk\<lparr>t_refCount := t_refCount tk + 1, t_firstPending := p\<rparr>), descs := h,
         held := ThreadsLock ?t # held s\<rparr>)"
    and h: "h e = Some d'" "desc_core d' = desc_core (d\<lparr>d_refCount := d_refCount d - 1\<rparr>)"
    "same_on table_links (descs s) h" "same_on desc_core ((descs s)(e := None)) (h(e := None))"
    "pending_list (s\<lparr>tasks := (tasks s)(?t \<mapsto> tk\<lparr>t_firstPending := p\<rparr>), descs := h\<rparr>) ?t (if e \<in> set ps then ps else e # ps)"
    using wakeup_prefix[OF L, of P] by blast
  let ?tk = "tk\<lparr>t_refCount := t_refCount tk + 1, t_firstPending := p\<rparr>"
  let ?s2 = "s\<lparr>tasks := (tasks s)(?t \<mapsto> ?tk), descs := h, held := ThreadsLock ?t # held s\<rparr>"
  let ?th = "(threads s)(y \<mapsto> t\<lparr>th_isPolling := False\<rparr>)"
  let ?s3 = "s\<lparr>tasks := (tasks s)(?t \<mapsto> ?tk), descs := h, threads := ?th\<rparr>"
  have ths: "task_threads ?s2 (as @ y # bs)" "\<forall>x \<in> set as. \<not> polling ?s2 x"
    using L quiet by (simp_all add: listens_def task_threads_def polling_def)
  then have "slist (thread_next (threads ?s2)) (as @ y # bs)" by (simp add: task_threads_def)
  note len = slist_length[OF this] and nn = slist_nonnull[OF this]
  have "kloop max_steps Diverges (find_polling_round ?t) (first_of (as @ y # bs)) ?s2 =
    Ret y (?s2\<lparr>threads := (threads ?s2)(y \<mapsto> t\<lparr>th_isPolling := False\<rparr>), held := held s\<rparr>)"
    by (rule search_finds[OF ths _ _ _ y(2) len]) (use y(1) in simp_all)
  then have loop: "kwhile (find_polling_round ?t) (first_of (as @ y # bs)) ?s2 = Ret y ?s3"
    unfolding kwhile_def by (simp add: sched_order)
  have "wakeup_endpoint P e s = anscheduler_loop_switch P (th_task t) y
      (?s3\<lparr>threads := ?th(cpu_thread s \<mapsto> c\<lparr>th_state := TsSaved (cpu_locked s)\<rparr>)\<rparr>)"
    unfolding pre using loop nn cur by (simp add: kern switch_continuation_def)
  then show ?thesis using h by (intro exI[of _ p] exI[of _ h]) (simp add: woken_def sched_order)
qed

subsection \<open>Sending a message\<close>

text \<open>The two ends \<open>x\<close> and \<open>e\<close> of a socket, seen from \<open>x\<close>.\<close>

definition linked :: "'v sched \<Rightarrow> addr \<Rightarrow> socket_desc_t \<Rightarrow> addr \<Rightarrow> bool" where
  "linked s x dx e \<longleftrightarrow> descs s x = Some dx \<and> ConnRecLock (d_socket dx) \<notin> set (held s) \<and>
     (\<exists>sk. sockets s (d_socket dx) = Some sk \<and> e = (if d_isConnector dx \<noteq> 0 then sk_receiver sk else sk_connector sk))"

definition opposite :: "socket_desc_t \<Rightarrow> socket_desc_t \<Rightarrow> bool" where
  "opposite dx de \<longleftrightarrow> d_socket de = d_socket dx \<and> (d_isConnector de \<noteq> 0) = (d_isConnector dx = 0)"

lemma other_end_runs:
  assumes "linked s x dx e" and "e \<noteq> NULL \<Longrightarrow> descs s e = Some de \<and> CloseLock e \<notin> set (held s)"
  shows "bnd (anscheduler_lock (ConnRecLock (d_socket dx))) (\<lambda>_. bnd (reference_other_end x (d_socket dx)) (\<lambda>otherEnd.
      bnd (anscheduler_unlock (ConnRecLock (d_socket dx))) (\<lambda>_. f otherEnd))) s =
    (if e = NULL \<or> d_isClosed de \<noteq> 0 then f NULL s
     else f e (s\<lparr>descs := (descs s)(e \<mapsto> de\<lparr>d_refCount := d_refCount de + 1\<rparr>)\<rparr>))"
proof -
  let ?s = "s\<lparr>held := ConnRecLock (d_socket dx) # held s\<rparr>"
  obtain sk where sk: "descs s x = Some dx" "ConnRecLock (d_socket dx) \<notin> set (held s)" "sockets s (d_socket dx) = Some sk"
    "e = (if d_isConnector dx \<noteq> 0 then sk_receiver sk else sk_connector sk)"
    using assms(1) by (auto simp: linked_def)
  show ?thesis
  proof (cases "e = NULL")
    case True
    then have "reference_other_end x (d_socket dx) ?s = Ret NULL ?s"
      using sk by (simp add: reference_other_end_def kern Let_def)
    then show ?thesis using sk True by (simp add: kern)
  next
    case False
    then have "anscheduler_socket_reference e ?s = (if d_isClosed de = 0
        then Ret True (?s\<lparr>descs := (descs s)(e \<mapsto> de\<lparr>d_refCount := d_refCount de + 1\<rparr>)\<rparr>) else Ret False ?s)"
      using assms(2) socket_reference_runs[of ?s e de] by simp
    then have "reference_other_end x (d_socket dx) ?s = (if d_isClosed de = 0
        then Ret e (?s\<lparr>descs := (descs s)(e \<mapsto> de\<lparr>d_refCount := d_refCount de + 1\<rparr>)\<rparr>) else Ret NULL ?s)"
      using sk False by (simp add: reference_other_end_def kern Let_def)
    then show ?thesis using sk False by (simp add: kern sched_order)
  qed
qed

lemma inbox_descs:
  assumes "inbox e s ms" and "descs s e = Some d" and "descs s' e = Some d'" and "d_socket d' = d_socket d"
    and "d_isConnector d' = d_isConnector d" and "sockets s' = sockets s" and "msgs s' = msgs s" and "held s' = held s"
  shows "inbox e s' ms"
  using assms by (auto simp: inbox_def msg_queue_def)

lemma listens_descs:
  assumes L: "listens s e d tk ths ps" and s': "tasks s' = tasks s" "threads s' = threads s" "held s' = held s"
    and d': "descs s' e = Some d'" "d_isClosed d' = 0" "d_task d' = d_task d" and same: "same_on pending_links (descs s) (descs s')"
  shows "listens s' e d' tk ths ps"
proof -
  have "pending_list s' (d_task d) ps"
    using L s' by (intro pending_list_cong[OF _ _ _ same, of _ _ tk]) (auto simp: listens_def pending_list_def)
  moreover have "not_listed s e \<Longrightarrow> not_listed s' e" using same_on_Some[OF same, of e] by (auto simp: not_listed_def pending_links_def)
  ultimately show ?thesis using L s' d' by (auto simp: listens_def task_threads_def)
qed

text \<open>A message that fits into the queue, up to the wake-up.\<close>

lemma socket_msg_prefix:
  assumes x: "linked s x dx e" "CloseLock x \<notin> set (held s)" "d_isClosed dx = 0 \<or> 1 < d_refCount dx"
    and e: "listens s e de tk ths ps" "opposite dx de" "e \<noteq> x" and q: "inbox e s ms"
    and m: "msgs s msg = Some m" "msg \<notin> set ms" "msg \<noteq> NULL" "m_type m \<noteq> MSG_TYPE_DATA \<or> \<not> SOCKET_MSG_MAX \<le> of_nat (length ms)"
  shows "\<exists>sk' ms' s1. s1 = s\<lparr>sockets := (sockets s)(d_socket dx \<mapsto> sk'), descs := (descs s)(e \<mapsto> de\<lparr>d_refCount := d_refCount de + 1\<rparr>,
        x \<mapsto> dx\<lparr>d_refCount := d_refCount dx - 1\<rparr>), msgs := ms'\<rparr> \<and>
    anscheduler_socket_msg P x msg s = bnd (wakeup_endpoint P e) (\<lambda>_. ret True) s1 \<and>
    listens s1 e (de\<lparr>d_refCount := d_refCount de + 1\<rparr>) tk ths ps \<and> inbox e s1 (ms @ [msg]) \<and>
    (\<forall>p. map_option msg_core (ms' p) = map_option msg_core (msgs s p))"
proof -
  let ?de = "de\<lparr>d_refCount := d_refCount de + 1\<rparr>" and ?dx = "dx\<lparr>d_refCount := d_refCount dx - 1\<rparr>"
  have de: "descs s e = Some de" "d_isClosed de = 0" "e \<noteq> NULL" "CloseLock e \<notin> set (held s)" using e(1) by (auto simp: listens_def)
  have dx: "descs s x = Some dx" using x(1) by (simp add: linked_def)
  let ?s0 = "s\<lparr>descs := (descs s)(e \<mapsto> ?de)\<rparr>"
  have sock: "d_socket ?de = d_socket dx" using e(2) by (simp add: opposite_def)
  have "inbox e ?s0 ms" by (rule inbox_descs[OF q de(1), where d' = ?de]) simp_all
  then have q0: "msg_queue ?s0 (d_socket ?de) (d_isConnector ?de \<noteq> 0) ms" "q_lock (d_isConnector ?de \<noteq> 0) (d_socket ?de) \<notin> set (held ?s0)"
    by (auto simp: inbox_def)
  obtain sk' ms' where push: "push_message e msg ?s0 = Ret True (?s0\<lparr>sockets := (sockets ?s0)(d_socket ?de \<mapsto> sk'), msgs := ms'\<rparr>)"
    "msg_queue (?s0\<lparr>sockets := (sockets ?s0)(d_socket ?de \<mapsto> sk'), msgs := ms'\<rparr>) (d_socket ?de) (d_isConnector ?de \<noteq> 0) (ms @ [msg])"
    and core: "\<forall>p. map_option msg_core (ms' p) = map_option msg_core (msgs s p)"
    using push_message_appends[of ?s0 e ?de, OF _ q0 _ m(2-4)] m(1) by auto
  let ?s1 = "s\<lparr>sockets := (sockets s)(d_socket dx \<mapsto> sk'), descs := (descs s)(e \<mapsto> ?de, x \<mapsto> ?dx), msgs := ms'\<rparr>"
  let ?sp = "?s0\<lparr>sockets := (sockets ?s0)(d_socket ?de \<mapsto> sk'), msgs := ms'\<rparr>"
  have "anscheduler_socket_dereference P x ?sp = Ret () (?sp\<lparr>descs := (descs ?sp)(x \<mapsto> ?dx)\<rparr>)"
    using dereference_runs[of ?sp x dx P] dx e(3) x(2,3) by (auto simp: Let_def)
  also have "?sp\<lparr>descs := (descs ?sp)(x \<mapsto> ?dx)\<rparr> = ?s1" unfolding sock by (simp add: sched_order)
  finally have deref: "anscheduler_socket_dereference P x ?sp = Ret () ?s1" .
  have "anscheduler_socket_msg P x msg s = bnd (wakeup_endpoint P e) (\<lambda>_. ret True) ?s1"
    using dx de push(1) deref
    by (simp add: anscheduler_socket_msg_def Let_def kern other_end_runs[OF x(1) conjI[OF de(1,4)]])
  moreover have "listens ?s1 e ?de tk ths ps"
    by (rule listens_descs[OF e(1)]) (use de dx e(3) in \<open>simp_all add: same_on_def pending_links_def\<close>)
  moreover have "inbox e ?s1 (ms @ [msg])"
    using push(2) q0(2) e(3) sock by (auto simp: inbox_def msg_queue_def)
  ultimately show ?thesis using core by blast
qed

lemma data_room:
  assumes "inbox e s ms"
  shows "SOCKET_MSG_MAX \<le> of_nat (length ms) \<longleftrightarrow> 16 \<le> length ms"
proof -
  have "length ms < 2 ^ 64" using assms slist_length[of _ ms] by (auto simp: inbox_def msg_queue_def max_steps_def)
  then show ?thesis by (simp add: SOCKET_MSG_MAX_def word_le_nat_alt unsigned_of_nat take_bit_nat_eq_self)
qed

text \<open>What the receiver of a message finds: the message at the end of its inbox, and its end among the pending ones.\<close>

definition delivered :: "'v sched \<Rightarrow> addr \<Rightarrow> addr \<Rightarrow> addr list \<Rightarrow> addr \<Rightarrow> addr list \<Rightarrow> 'v sched \<Rightarrow> bool" where
  "delivered s e task ms msg ps s' \<longleftrightarrow> inbox e s' (ms @ [msg]) \<and>
     (\<forall>p. map_option msg_core (msgs s' p) = map_option msg_core (msgs s p)) \<and>
     pending_list s' task (if e \<in> set ps then ps else e # ps)"

lemma desc_core_Some: "desc_core d' = desc_core d \<Longrightarrow> d_socket d' = d_socket d \<and> d_isConnector d' = d_isConnector d \<and>
    d_refCount d' = d_refCount d \<and> d_isClosed d' = d_isClosed d \<and> d_task d' = d_task d \<and> d_closeCode d' = d_closeCode d"
  by (simp add: desc_core_def)

lemma woken_delivered:
  assumes w: "woken s1 e d tk ps s'" and q: "inbox e s1 (ms @ [msg])" and d: "descs s1 e = Some d"
    and s': "sockets s' = sockets s1" "msgs s' = msgs s1" "held s' = held s1"
    and core: "\<forall>p. map_option msg_core (msgs s1 p) = map_option msg_core (msgs s p)"
  shows "delivered s e (d_task d) ms msg ps s'"
proof -
  obtain d' where d': "descs s' e = Some d'" "desc_core d' = desc_core (d\<lparr>d_refCount := d_refCount d - 1\<rparr>)"
    using w by (auto simp: woken_def)
  have "inbox e s' (ms @ [msg])"
    by (rule inbox_descs[OF q d d'(1)]) (use desc_core_Some[OF d'(2)] s' in simp_all)
  then show ?thesis using w core s'(2) by (simp add: delivered_def woken_def)
qed

text \<open>What the two ends look like after the message was sent: the sender has given back its reference.\<close>

lemma woken_refs:
  assumes w: "woken s1 e (de\<lparr>d_refCount := d_refCount de + 1\<rparr>) tk ps s'" and "descs s1 x = Some dx" and "e \<noteq> x"
  shows "\<exists>de' dx'. descs s' e = Some de' \<and> desc_core de' = desc_core de \<and> descs s' x = Some dx' \<and> desc_core dx' = desc_core dx"
proof -
  have "same_on desc_core ((descs s1)(e := None)) ((descs s')(e := None))" using w by (simp add: woken_def)
  from same_on_Some[OF this, of x dx] assms(2,3) obtain dx' where "descs s' x = Some dx'" "desc_core dx' = desc_core dx" by auto
  moreover obtain de' where "descs s' e = Some de'" "desc_core de' = desc_core (de\<lparr>d_refCount := d_refCount de\<rparr>)"
    using w by (auto simp: woken_def)
  ultimately show ?thesis by simp
qed

text \<open>The state of a CPU depends on little of the threads and the tasks.\<close>

definition queue_view :: "thread_t \<Rightarrow> addr \<times> addr \<times> addr" where
  "queue_view t = (th_queueNext t, th_queueLast t, th_task t)"

lemma cpu_ok_cong:
  assumes c: "cpu_ok s xs" and th: "\<And>p. map_option queue_view (threads s' p) = map_option queue_view (threads s p)"
    and tk: "\<And>p. map_option t_isKilled (tasks s' p) = map_option t_isKilled (tasks s p)"
    and f: "held s' = held s" "queueCount s' = queueCount s" "firstThread s' = firstThread s" "lastThread s' = lastThread s"
      "cpu_task s' = cpu_task s" "cpu_thread s' = cpu_thread s"
  shows "cpu_ok s' xs" and "cur_list s' = cur_list s"
proof -
  have same: "threads s' p = None \<and> threads s p = None \<or> (\<exists>t' t. threads s' p = Some t' \<and> threads s p = Some t \<and> queue_view t' = queue_view t)"
    for p using th[of p] by (cases "threads s p"; cases "threads s' p") simp_all
  have tsame: "tasks s' p = None \<and> tasks s p = None \<or> (\<exists>t' t. tasks s' p = Some t' \<and> tasks s p = Some t \<and> t_isKilled t' = t_isKilled t)"
    for p using tk[of p] by (cases "tasks s p"; cases "tasks s' p") simp_all
  have "queue_next (threads s') p = queue_next (threads s) p" "queue_last (threads s') p = queue_last (threads s) p" for p
    using same[of p] by (auto simp: queue_next_def queue_last_def queue_view_def)
  then have q: "queue_next (threads s') = queue_next (threads s)" "queue_last (threads s') = queue_last (threads s)" by auto
  have "threads s' p \<noteq> None \<longleftrightarrow> threads s p \<noteq> None" for p using same[of p] by auto
  then have rq: "run_queue s' xs" using c q f by (simp add: cpu_ok_def run_queue_def)
  have k: "killable s' p = killable s p" for p using tsame[of p] f(1) by (auto simp: killable_def)
  have ok: "queue_ok s' ys = queue_ok s ys" for ys
  proof -
    have "(\<forall>t. threads s' p = Some t \<longrightarrow> killable s' (th_task t)) = (\<forall>t. threads s p = Some t \<longrightarrow> killable s (th_task t))" for p
      using same[of p] k by (auto simp: queue_view_def)
    then show ?thesis by (simp add: queue_ok_def)
  qed
  show cur: "cur_list s' = cur_list s" using f(6) by (simp add: cur_list_def)
  have live: "has_live_task s' p = has_live_task s p" for p
  proof (cases "threads s p")
    case None
    then show ?thesis using same[of p] by (simp add: has_live_task_def)
  next
    case (Some t)
    then obtain t' where t': "threads s' p = Some t'" "th_task t' = th_task t" using same[of p] by (auto simp: queue_view_def)
    show ?thesis using Some t' tsame[of "th_task t"] by (auto simp: has_live_task_def)
  qed
  show "cpu_ok s' xs"
    using c rq f same[of "cpu_thread s"] unfolding cpu_ok_def ok cur live by (auto simp: queue_view_def)
qed

subsection \<open>Properties\<close>

text \<open>C13: a message that is sent reaches the other end. If that end is open and its task alive with no thread polling, the
  call succeeds: the message is the last one in the inbox of the other end, the contents of all messages are
  untouched, the other end is on the pending list of its task exactly once, the sender has given back its own
  reference and only that, and the threads and the locks are as before.\<close>

theorem socket_msg_delivers:
  assumes "linked s x dx e" and "CloseLock x \<notin> set (held s)" and "d_isClosed dx = 0 \<or> 1 < d_refCount dx"
    and "listens s e de tk ths ps" and "opposite dx de" and "e \<noteq> x" and "inbox e s ms"
    and "msgs s msg = Some m" and "msg \<notin> set ms" and "msg \<noteq> NULL" and "m_type m \<noteq> MSG_TYPE_DATA \<or> length ms < 16"
    and "\<forall>y \<in> set ths. \<not> polling s y"
  shows "\<exists>s' de' dx'. anscheduler_socket_msg P x msg s = Ret True s' \<and> delivered s e (d_task de) ms msg ps s' \<and>
    descs s' e = Some de' \<and> desc_core de' = desc_core de \<and>
    descs s' x = Some dx' \<and> desc_core dx' = desc_core (dx\<lparr>d_refCount := d_refCount dx - 1\<rparr>) \<and>
    held s' = held s \<and> threads s' = threads s"
proof -
  let ?de = "de\<lparr>d_refCount := d_refCount de + 1\<rparr>" and ?dx = "dx\<lparr>d_refCount := d_refCount dx - 1\<rparr>"
  have room: "m_type m \<noteq> MSG_TYPE_DATA \<or> \<not> SOCKET_MSG_MAX \<le> of_nat (length ms)" using assms(11) data_room[OF assms(7)] by auto
  obtain sk' ms' s1 where s1: "s1 = s\<lparr>sockets := (sockets s)(d_socket dx \<mapsto> sk'), descs := (descs s)(e \<mapsto> ?de, x \<mapsto> ?dx), msgs := ms'\<rparr>"
    and run: "anscheduler_socket_msg P x msg s = bnd (wakeup_endpoint P e) (\<lambda>_. ret True) s1"
    and L: "listens s1 e ?de tk ths ps" and q: "inbox e s1 (ms @ [msg])"
    and core: "\<forall>p. map_option msg_core (ms' p) = map_option msg_core (msgs s p)"
    using socket_msg_prefix[OF assms(1-10) room, of P] by blast
  have "\<forall>y \<in> set ths. \<not> polling s1 y" using assms(12) by (simp add: s1 polling_def)
  from wakeup_quiet[OF L this, of P] obtain p h where
    w: "wakeup_endpoint P e s1 = Ret () (s1\<lparr>tasks := (tasks s1)(d_task ?de \<mapsto> tk\<lparr>t_firstPending := p\<rparr>), descs := h\<rparr>)"
    "woken s1 e ?de tk ps (s1\<lparr>tasks := (tasks s1)(d_task ?de \<mapsto> tk\<lparr>t_firstPending := p\<rparr>), descs := h\<rparr>)" by blast
  let ?s' = "s1\<lparr>tasks := (tasks s1)(d_task ?de \<mapsto> tk\<lparr>t_firstPending := p\<rparr>), descs := h\<rparr>"
  have "delivered s e (d_task ?de) ms msg ps ?s'"
    by (rule woken_delivered[OF w(2) q]) (use core assms(6) in \<open>simp_all add: s1\<close>)
  moreover have "descs s1 x = Some ?dx" using s1 by simp
  note woken_refs[OF w(2) this assms(6)]
  moreover have "anscheduler_socket_msg P x msg s = Ret True ?s'" using run w(1) by (simp add: kern)
  moreover have "held ?s' = held s" "threads ?s' = threads s" by (simp_all add: s1)
  ultimately show ?thesis by auto
qed

text \<open>
  The connector 0x100 of the task 0xA0000, whose thread 0x300 runs, and the receiver 0x200 of the task 0xB0000 with the
  thread 0x400, which may poll. One message waits, another one is to be sent.
\<close>

definition traffic_ex :: "bool \<Rightarrow> flatvm sched" where
  "traffic_ex b = sock_ex\<lparr>
     tasks := [0xA0000 \<mapsto> zero_task\<lparr>t_refCount := 2\<rparr>, 0xB0000 \<mapsto> zero_task\<lparr>t_refCount := 1, t_firstThread := 0x400\<rparr>],
     threads := [0x300 \<mapsto> zero_thread\<lparr>th_task := 0xA0000\<rparr>, 0x400 \<mapsto> zero_thread\<lparr>th_task := 0xB0000, th_isPolling := b\<rparr>],
     descs := [0x100 \<mapsto> zero_desc\<lparr>d_socket := 0x500, d_isConnector := 1, d_refCount := 2, d_task := 0xA0000\<rparr>,
       0x200 \<mapsto> zero_desc\<lparr>d_socket := 0x500, d_refCount := 1, d_task := 0xB0000\<rparr>],
     cpu_task := 0xA0000, cpu_thread := 0x300\<rparr>"

abbreviation traffic_sender :: socket_desc_t where
  "traffic_sender \<equiv> zero_desc\<lparr>d_socket := 0x500, d_isConnector := 1, d_refCount := 2, d_task := 0xA0000\<rparr>"

abbreviation traffic_receiver :: socket_desc_t where
  "traffic_receiver \<equiv> zero_desc\<lparr>d_socket := 0x500, d_refCount := 1, d_task := 0xB0000\<rparr>"

abbreviation traffic_task :: task_t where
  "traffic_task \<equiv> zero_task\<lparr>t_refCount := 1, t_firstThread := 0x400\<rparr>"

lemma traffic_ex_fields: "held (traffic_ex b) = []" "cpu_locked (traffic_ex b)"
  "msgs (traffic_ex b) 0x700 = Some \<lparr>m_next = 0xAAAA, m_type = 1, m_len = 1, m_message = (\<lambda>_. 8)\<rparr>"
  by (simp_all add: traffic_ex_def sock_ex_def flat_boot_def boot_def)

lemma traffic_ex_linked: "linked (traffic_ex b) 0x100 traffic_sender 0x200"
  by (simp add: linked_def traffic_ex_def sock_ex_def flat_boot_def boot_def zero_desc_def)

lemma traffic_ex_listens: "listens (traffic_ex b) 0x200 traffic_receiver traffic_task [0x400] []"
  by (simp add: listens_def task_threads_def pending_list_def not_listed_def slist_def thread_next_def traffic_ex_def
      sock_ex_def flat_boot_def boot_def zero_desc_def zero_task_def zero_thread_def)

lemma traffic_ex_inbox: "inbox 0x200 (traffic_ex b) [0x600]"
  by (simp add: inbox_def msg_queue_def traffic_ex_def sock_ex_def flat_boot_def boot_def zero_desc_def zero_socket_def
      q_first_def q_last_def q_count_def slist_Cons fld_def)

theorem socket_msg_delivers_witness:
  "\<exists>s'. anscheduler_socket_msg flat_plat 0x100 0x700 (traffic_ex False) = Ret True s' \<and>
    inbox 0x200 s' [0x600, 0x700] \<and> pending_list s' 0xB0000 [0x200]"
proof -
  have "\<exists>s' de' dx'. anscheduler_socket_msg flat_plat 0x100 0x700 (traffic_ex False) = Ret True s' \<and>
    delivered (traffic_ex False) 0x200 (d_task traffic_receiver) [0x600] 0x700 [] s' \<and>
    descs s' 0x200 = Some de' \<and> desc_core de' = desc_core traffic_receiver \<and>
    descs s' 0x100 = Some dx' \<and> desc_core dx' = desc_core (traffic_sender\<lparr>d_refCount := d_refCount traffic_sender - 1\<rparr>) \<and>
    held s' = held (traffic_ex False) \<and> threads s' = threads (traffic_ex False)"
    by (rule socket_msg_delivers[OF traffic_ex_linked _ _ traffic_ex_listens _ _ traffic_ex_inbox traffic_ex_fields(3)])
      (simp_all add: traffic_ex_fields(1) opposite_def zero_desc_def polling_def, simp add: traffic_ex_def zero_thread_def)
  then show ?thesis by (auto simp: delivered_def)
qed

text \<open>C14: a message for a task with a polling thread runs that thread at once. The message is in the inbox and the end is pending, the
  first polling thread of the task stops polling and gets the CPU with a reference to its task, and the
  sending thread goes to the end of the run queue, to continue after the call when it runs again.\<close>

theorem socket_msg_wakes_polling:
  assumes "linked s x dx e" and "CloseLock x \<notin> set (held s)" and "d_isClosed dx = 0 \<or> 1 < d_refCount dx"
    and "listens s e de tk (as @ y # bs) ps" and "opposite dx de" and "e \<noteq> x" and "inbox e s ms"
    and "msgs s msg = Some m" and "msg \<notin> set ms" and "msg \<noteq> NULL" and "m_type m \<noteq> MSG_TYPE_DATA \<or> length ms < 16"
    and "\<forall>z \<in> set as. \<not> polling s z" and "threads s y = Some t" and "th_isPolling t"
    and "cpu_ok s xs" and "cpu_thread s \<noteq> NULL" and "cpu_thread s \<noteq> y" and "d_task de \<noteq> cpu_task s"
  shows "\<exists>s' t' c'. anscheduler_socket_msg P x msg s = Stop (RunThread (th_task t) y) s' \<and>
    delivered s e (d_task de) ms msg ps s' \<and> run_queue s' (xs @ [cpu_thread s]) \<and> cpu_thread s' = y \<and> held s' = held s \<and>
    threads s' y = Some t' \<and> \<not> th_isPolling t' \<and>
    threads s' (cpu_thread s) = Some c' \<and> th_state c' = TsSaved (cpu_locked s) \<and>
    map_option t_refCount (tasks s' (d_task de)) = Some (t_refCount tk + 1)"
proof -
  let ?de = "de\<lparr>d_refCount := d_refCount de + 1\<rparr>" and ?dx = "dx\<lparr>d_refCount := d_refCount dx - 1\<rparr>"
  have room: "m_type m \<noteq> MSG_TYPE_DATA \<or> \<not> SOCKET_MSG_MAX \<le> of_nat (length ms)" using assms(11) data_room[OF assms(7)] by auto
  obtain sk' ms' s1 where s1: "s1 = s\<lparr>sockets := (sockets s)(d_socket dx \<mapsto> sk'), descs := (descs s)(e \<mapsto> ?de, x \<mapsto> ?dx), msgs := ms'\<rparr>"
    and run: "anscheduler_socket_msg P x msg s = bnd (wakeup_endpoint P e) (\<lambda>_. ret True) s1"
    and L: "listens s1 e ?de tk (as @ y # bs) ps" and q: "inbox e s1 (ms @ [msg])"
    and core: "\<forall>p. map_option msg_core (ms' p) = map_option msg_core (msgs s p)"
    using socket_msg_prefix[OF assms(1-10) room, of P] by blast
  have f1: "threads s1 = threads s" "cpu_thread s1 = cpu_thread s" "tasks s1 = tasks s" "cpu_locked s1 = cpu_locked s" by (simp_all add: s1)
  obtain c where c: "threads s (cpu_thread s) = Some c" using assms(15,16) by (auto simp: cpu_ok_def)
  have "\<forall>z \<in> set as. \<not> polling s1 z" "threads s1 y = Some t" "threads s1 (cpu_thread s1) = Some c" "cpu_thread s1 \<noteq> y"
    using assms(12,13,17) c by (simp_all add: f1 polling_def)
  from wakeup_switches[OF L this(1,2) assms(14) this(3,4), of P] obtain p h where
    w: "wakeup_endpoint P e s1 = anscheduler_loop_switch P (th_task t) y
      (s1\<lparr>tasks := (tasks s)(d_task de \<mapsto> tk\<lparr>t_refCount := t_refCount tk + 1, t_firstPending := p\<rparr>), descs := h,
         threads := (threads s)(y \<mapsto> t\<lparr>th_isPolling := False\<rparr>, cpu_thread s \<mapsto> c\<lparr>th_state := TsSaved (cpu_locked s)\<rparr>)\<rparr>)"
    "woken s1 e ?de tk ps (s1\<lparr>tasks := (tasks s)(d_task de \<mapsto> tk\<lparr>t_firstPending := p\<rparr>), descs := h\<rparr>)" by (auto simp: f1)
  let ?S = "s1\<lparr>tasks := (tasks s)(d_task de \<mapsto> tk\<lparr>t_refCount := t_refCount tk + 1, t_firstPending := p\<rparr>), descs := h,
         threads := (threads s)(y \<mapsto> t\<lparr>th_isPolling := False\<rparr>, cpu_thread s \<mapsto> c\<lparr>th_state := TsSaved (cpu_locked s)\<rparr>)\<rparr>"
  have tk: "tasks s (d_task de) = Some tk" using assms(4) by (simp add: listens_def)
  have ok: "cpu_ok ?S xs" "cur_list ?S = cur_list s"
    by (rule cpu_ok_cong[OF assms(15)]; use assms(13) c tk in \<open>simp add: s1 queue_view_def\<close>)+
  have "threads ?S y = Some (t\<lparr>th_isPolling := False\<rparr>)" using assms(17) by simp
  from loop_switch_runs[OF ok(1) this, of P "th_task t"] obtain s' where
    s': "anscheduler_loop_switch P (th_task t) y ?S = Stop (RunThread (th_task t) y) s'" "run_queue s' (xs @ cur_list s)"
    "hide_queue s' = hide_queue (?S\<lparr>tasks := drop_ref ?S (cpu_task ?S), cpu_task := th_task t, cpu_thread := y,
       cpu_locked := cpuLocked (th_state t)\<rparr>)" unfolding ok(2) by auto
  note f = hide_queue_fields[OF s'(3)]
  obtain t' where t': "threads s' y = Some t'" "\<not> th_isPolling t'"
    using cores_Some[OF f(25), of y] assms(17) by (auto dest: thread_core_fields)
  obtain c' where c': "threads s' (cpu_thread s) = Some c'" "th_state c' = TsSaved (cpu_locked s)"
    using cores_Some[OF f(25), of "cpu_thread s"] by (auto dest: thread_core_fields)
  have tm: "tasks s' (d_task de) = Some (tk\<lparr>t_refCount := t_refCount tk + 1, t_firstPending := p\<rparr>)"
    using f(2) assms(18) by (simp add: drop_ref_def s1)
  let ?W = "s1\<lparr>tasks := (tasks s)(d_task de \<mapsto> tk\<lparr>t_firstPending := p\<rparr>), descs := h\<rparr>"
  have "delivered s e (d_task ?de) ms msg ps ?W"
    by (rule woken_delivered[OF w(2) q]) (use core assms(6) in \<open>simp_all add: s1\<close>)
  then have d: "inbox e ?W (ms @ [msg])" "\<forall>p. map_option msg_core (msgs ?W p) = map_option msg_core (msgs s p)"
    "pending_list ?W (d_task de) (if e \<in> set ps then ps else e # ps)" by (simp_all add: delivered_def)
  have "inbox e s' (ms @ [msg])" using d(1) f(3,4,5,11) by (simp add: inbox_def msg_queue_def s1)
  moreover have "pending_list s' (d_task de) (if e \<in> set ps then ps else e # ps)"
    by (rule pending_list_cong[OF d(3) tm]) (use d(3) f(4) in \<open>auto simp: pending_list_def\<close>)
  ultimately have "delivered s e (d_task de) ms msg ps s'" using d(2) f(5) by (simp add: delivered_def s1)
  moreover have "anscheduler_socket_msg P x msg s = Stop (RunThread (th_task t) y) s'" using run w(1) s'(1) by (simp add: kern)
  moreover have "cpu_thread s' = y" "held s' = held s" using f(11,14) by (simp_all add: s1)
  moreover have "run_queue s' (xs @ [cpu_thread s])" using s'(2) assms(16) by (simp add: cur_list_def)
  ultimately show ?thesis using t' c' tm by auto
qed

lemma traffic_ex_cpu: "cpu_ok (traffic_ex b) []"
  by (simp add: cpu_ok_def run_queue_def dlist_def queue_ok_def cur_list_def killable_def has_live_task_def traffic_ex_def
      sock_ex_def flat_boot_def boot_def zero_task_def zero_thread_def)

theorem socket_msg_wakes_polling_witness:
  "\<exists>s'. anscheduler_socket_msg flat_plat 0x100 0x700 (traffic_ex True) = Stop (RunThread 0xB0000 0x400) s' \<and>
    inbox 0x200 s' [0x600, 0x700] \<and> pending_list s' 0xB0000 [0x200] \<and> run_queue s' [0x300] \<and>
    map_option t_refCount (tasks s' 0xB0000) = Some 2"
proof -
  let ?s = "traffic_ex True" and ?t = "zero_thread\<lparr>th_task := 0xB0000, th_isPolling := True\<rparr>"
  have L: "listens ?s 0x200 traffic_receiver traffic_task ([] @ 0x400 # []) []" using traffic_ex_listens by simp
  have c: "cpu_thread ?s = 0x300" "cpu_task ?s = 0xA0000" "threads ?s 0x400 = Some ?t" by (simp_all add: traffic_ex_def)
  have "\<exists>s' t' c'. anscheduler_socket_msg flat_plat 0x100 0x700 ?s = Stop (RunThread (th_task ?t) 0x400) s' \<and>
    delivered ?s 0x200 (d_task traffic_receiver) [0x600] 0x700 [] s' \<and> run_queue s' ([] @ [cpu_thread ?s]) \<and>
    cpu_thread s' = 0x400 \<and> held s' = held ?s \<and> threads s' 0x400 = Some t' \<and> \<not> th_isPolling t' \<and>
    threads s' (cpu_thread ?s) = Some c' \<and> th_state c' = TsSaved (cpu_locked ?s) \<and>
    map_option t_refCount (tasks s' (d_task traffic_receiver)) = Some (t_refCount traffic_task + 1)"
    by (rule socket_msg_wakes_polling[OF traffic_ex_linked _ _ L _ _ traffic_ex_inbox traffic_ex_fields(3) _ _ _ _ c(3) _ traffic_ex_cpu])
      (simp_all add: traffic_ex_fields(1) opposite_def zero_desc_def c)
  then show ?thesis by (auto simp: delivered_def c)
qed

text \<open>C17: a message that cannot be delivered changes nothing. If the other end is gone or closed, or the message carries data and
  16 messages already wait, the call reports the failure in the very state it was made in: the message
  still belongs to the sender, and every reference taken on the way is given back.\<close>

theorem socket_msg_refused:
  assumes "linked s x dx e" and "e = NULL \<or> descs s e = Some de \<and> CloseLock e \<notin> set (held s) \<and>
      (d_isClosed de \<noteq> 0 \<or> inbox e s ms \<and> msgs s msg = Some m \<and> m_type m = MSG_TYPE_DATA \<and> 16 \<le> length ms)"
  shows "anscheduler_socket_msg P x msg s = Ret False s"
proof -
  have dx: "descs s x = Some dx" using assms(1) by (simp add: linked_def)
  have e: "e \<noteq> NULL \<Longrightarrow> descs s e = Some de \<and> CloseLock e \<notin> set (held s)" using assms(2) by blast
  show ?thesis
  proof (cases "e = NULL \<or> d_isClosed de \<noteq> 0")
    case True
    then show ?thesis using dx by (simp add: anscheduler_socket_msg_def Let_def kern other_end_runs[OF assms(1) e])
  next
    case False
    then have de: "descs s e = Some de" "CloseLock e \<notin> set (held s)" and q: "inbox e s ms" and m: "msgs s msg = Some m" "m_type m = MSG_TYPE_DATA" "16 \<le> length ms"
      using assms(2) by auto
    let ?de = "de\<lparr>d_refCount := d_refCount de + 1\<rparr>"
    let ?s = "s\<lparr>descs := (descs s)(e \<mapsto> ?de)\<rparr>"
    have "inbox e ?s ms" by (rule inbox_descs[OF q de(1), where d' = ?de]) simp_all
    then have mq: "msg_queue ?s (d_socket ?de) (d_isConnector ?de \<noteq> 0) ms" "q_lock (d_isConnector ?de \<noteq> 0) (d_socket ?de) \<notin> set (held ?s)"
      by (simp_all add: inbox_def)
    have "SOCKET_MSG_MAX \<le> of_nat (length ms)" using m(3) data_room[OF q] by simp
    then have "push_message e msg ?s = Ret False ?s"
      by (intro push_message_full[OF _ mq _ m(2)]) (simp_all add: m(1))
    moreover have "(descs s)(e \<mapsto> de) = descs s" using de(1) by (rule fun_upd_idem)
    then have "anscheduler_socket_dereference P e ?s = Ret () s"
      using dereference_runs[of ?s e ?de P] de(2) False by (simp add: Let_def)
    ultimately show ?thesis
      using dx False by (simp add: anscheduler_socket_msg_def Let_def kern other_end_runs[OF assms(1) e])
  qed
qed

theorem socket_msg_refused_witness:
  "let s = traffic_ex False\<lparr>descs := (descs (traffic_ex False))(0x200 \<mapsto> traffic_receiver\<lparr>d_isClosed := 1\<rparr>)\<rparr>
   in anscheduler_socket_msg flat_plat 0x100 0x700 s = Ret False s"
proof -
  let ?s = "traffic_ex False\<lparr>descs := (descs (traffic_ex False))(0x200 \<mapsto> traffic_receiver\<lparr>d_isClosed := 1\<rparr>)\<rparr>"
  have "linked ?s 0x100 traffic_sender 0x200" using traffic_ex_linked[of False] by (simp add: linked_def)
  from socket_msg_refused[OF this, of "traffic_receiver\<lparr>d_isClosed := 1\<rparr>"] show ?thesis
    unfolding Let_def by (simp add: traffic_ex_fields(1))
qed

subsection \<open>Connecting\<close>

text \<open>
  A connection that fails because there is no memory for the descriptor of the receiver cannot be tried
  again: the socket counts as connected, and every later call fails.
\<close>

lemma connect_failure_is_final:
  assumes "cpu_locked s" and "descs s x = Some d" and "sockets s (d_socket d) = Some sk" and "sk_hasBeenConnected sk = 0"
    and "pf_alloc P (allocs s) sizeof_socket_desc_t (live s) = NULL"
  shows "anscheduler_socket_connect P x task s =
      Ret False (s\<lparr>sockets := (sockets s)(d_socket d \<mapsto> sk\<lparr>sk_hasBeenConnected := 1\<rparr>), allocs := Suc (allocs s)\<rparr>)"
    and "descs s' x = Some d \<Longrightarrow> sockets s' (d_socket d) = Some (sk'\<lparr>sk_hasBeenConnected := 1\<rparr>) \<Longrightarrow>
      anscheduler_socket_connect P x task' s' = Ret False s'"
proof -
  let ?s = "s\<lparr>sockets := (sockets s)(d_socket d \<mapsto> sk\<lparr>sk_hasBeenConnected := 1\<rparr>)\<rparr>"
  have "live ?s = live s" using assms(3) by (rule live_update(3))
  then have "create_descriptor P (d_socket d) task False ?s = Ret NULL (?s\<lparr>allocs := Suc (allocs s)\<rparr>)"
    using assms(1,5) by (simp add: create_descriptor_def anscheduler_alloc_def Let_def kern)
  then show "anscheduler_socket_connect P x task s =
      Ret False (s\<lparr>sockets := (sockets s)(d_socket d \<mapsto> sk\<lparr>sk_hasBeenConnected := 1\<rparr>), allocs := Suc (allocs s)\<rparr>)"
    using assms(2-4) by (simp add: anscheduler_socket_connect_def kern)
  assume "descs s' x = Some d" "sockets s' (d_socket d) = Some (sk'\<lparr>sk_hasBeenConnected := 1\<rparr>)"
  then show "anscheduler_socket_connect P x task' s' = Ret False s'"
    by (simp add: anscheduler_socket_connect_def kern fun_upd_idem)
qed

end
