(* ===== verification/Socket_Hangup.thy ===== *)
theory Socket_Hangup
  imports Socket_Traffic Step_Rules
begin

text \<open>
  The end of a socket (\<open>_socket_hangup\<close> in \<open>src/socket.c\<close>): an open other end is sent the close code, and whichever end
  hangs up last frees the socket with all messages that nobody has read.
\<close>

subsection \<open>Leaving the socket\<close>

text \<open>The socket after the end with the descriptor \<open>d\<close> has given up its place.\<close>

definition left :: "socket_desc_t \<Rightarrow> socket_t \<Rightarrow> socket_t" where
  "left d sk = (if d_isConnector d \<noteq> 0 then sk\<lparr>sk_connector := NULL\<rparr> else sk\<lparr>sk_receiver := NULL\<rparr>)"

definition other_end :: "socket_desc_t \<Rightarrow> socket_t \<Rightarrow> addr" where
  "other_end d sk = (if d_isConnector d \<noteq> 0 then sk_receiver sk else sk_connector sk)"

text \<open>The entry into the critical section is put behind the updates of the memory.\<close>

lemma critical_order:
  "s\<lparr>cpu_locked := b, sockets := a1\<rparr> = s\<lparr>sockets := a1, cpu_locked := b\<rparr>"
  "s\<lparr>cpu_locked := b, descs := a2\<rparr> = s\<lparr>descs := a2, cpu_locked := b\<rparr>"
  "s\<lparr>cpu_locked := b, msgs := a3\<rparr> = s\<lparr>msgs := a3, cpu_locked := b\<rparr>"
  "s\<lparr>cpu_locked := b, held := a4\<rparr> = s\<lparr>held := a4, cpu_locked := b\<rparr>"
  "s\<lparr>cpu_locked := b, allocs := a5\<rparr> = s\<lparr>allocs := a5, cpu_locked := b\<rparr>"
  "s\<lparr>cpu_locked := b, raws := a6\<rparr> = s\<lparr>raws := a6, cpu_locked := b\<rparr>"
  by simp_all

lemma left_queues [simp]: "q_first c (left d sk) = q_first c sk" "q_last c (left d sk) = q_last c sk" "q_count c (left d sk) = q_count c sk"
  by (simp_all add: left_def q_first_def q_last_def q_count_def)

lemma leave_socket_runs:
  assumes "descs s x = Some d" and "sockets s sock = Some sk"
  shows "leave_socket x sock s = Ret (other_end d sk = NULL) (s\<lparr>sockets := (sockets s)(sock \<mapsto> left d sk)\<rparr>)"
  using assms by (auto simp: leave_socket_def left_def other_end_def kern)

lemma release_end_keeps:
  assumes "descs s x = Some d" and "cpu_locked s"
  shows "release_end x sock False s = Ret () (s\<lparr>descs := (descs s)(x := None)\<rparr>)"
  using assms by (simp add: release_end_def kern)

lemma release_end_frees:
  assumes "descs s x = Some d" and "cpu_locked s" and "msg_queue s sock True ms1" and "msg_queue s sock False ms2"
    and "set ms1 \<inter> set ms2 = {}"
  shows "release_end x sock True s = Ret ()
    (s\<lparr>descs := (descs s)(x := None), sockets := (sockets s)(sock := None), msgs := (msgs s) |` (- (set ms1 \<union> set ms2))\<rparr>)"
proof -
  let ?s = "s\<lparr>descs := (descs s)(x := None), cpu_locked := False\<rparr>"
  have "msg_queue ?s sock True ms1" "msg_queue ?s sock False ms2" using assms(3,4) by (simp_all add: msg_queue_def)
  from socket_free_releases[OF this assms(5)] show ?thesis
    using assms(1,2) by (simp add: release_end_def kern sched_order)
qed

lemma hangup_finish_keeps:
  assumes "descs s x = Some d" and "sockets s sock = Some sk" and "other_end d sk \<noteq> NULL"
    and "ConnRecLock sock \<notin> set (held s)" and "cpu_locked s"
  shows "hangup_finish P x sock s = anscheduler_loop_delete_cur_kernel P
    (s\<lparr>sockets := (sockets s)(sock \<mapsto> left d sk), descs := (descs s)(x := None)\<rparr>)"
proof -
  let ?s = "s\<lparr>held := ConnRecLock sock # held s\<rparr>"
  have "leave_socket x sock ?s = Ret False (?s\<lparr>sockets := (sockets s)(sock \<mapsto> left d sk)\<rparr>)"
    using leave_socket_runs[of ?s x d sock sk] assms(1-3) by simp
  then show ?thesis
    using assms release_end_keeps[of "s\<lparr>sockets := (sockets s)(sock \<mapsto> left d sk)\<rparr>" x d sock]
    by (simp add: hangup_finish_def kern sched_order)
qed

text \<open>Hanging up when nobody is left to be told.\<close>

lemma hangup_alone:
  assumes L: "linked s x dx e" and sk: "sockets s (d_socket dx) = Some sk" and c: "\<not> cpu_locked s"
    and e: "e \<noteq> NULL \<Longrightarrow> descs s e = Some de \<and> CloseLock e \<notin> set (held s) \<and> d_isClosed de \<noteq> 0"
  shows "socket_hangup P x s = bnd (release_end x (d_socket dx) (e = NULL)) (\<lambda>_. anscheduler_loop_delete_cur_kernel P)
    (s\<lparr>sockets := (sockets s)(d_socket dx \<mapsto> left dx sk), cpu_locked := True\<rparr>)"
proof -
  let ?k = "d_socket dx" and ?s = "s\<lparr>cpu_locked := True, held := ConnRecLock (d_socket dx) # held s\<rparr>"
  have d: "descs s x = Some dx" and l: "ConnRecLock ?k \<notin> set (held s)" and oe: "e = other_end dx sk"
    using L sk by (auto simp: linked_def other_end_def)
  have "reference_other_end x ?k ?s = Ret NULL ?s"
  proof (cases "e = NULL")
    case False
    then have "anscheduler_socket_reference e ?s = Ret False ?s" using e socket_reference_runs[of ?s e de] by simp
    then show ?thesis using d sk oe False by (simp add: reference_other_end_def other_end_def kern Let_def)
  qed (use d sk oe in \<open>simp add: reference_other_end_def other_end_def kern Let_def\<close>)
  moreover have "leave_socket x ?k ?s = Ret (e = NULL) (?s\<lparr>sockets := (sockets s)(?k \<mapsto> left dx sk)\<rparr>)"
    using leave_socket_runs[of ?s x dx ?k sk] d sk oe by simp
  ultimately show ?thesis using d sk l c by (simp add: socket_hangup_def kern Let_def sched_order critical_order)
qed

lemma hangup_first:
  assumes L: "linked s x dx e" and sk: "sockets s (d_socket dx) = Some sk" and c: "\<not> cpu_locked s"
    and e: "e \<noteq> NULL" "descs s e = Some de" "CloseLock e \<notin> set (held s)" "d_isClosed de \<noteq> 0"
  shows "socket_hangup P x s = anscheduler_loop_delete_cur_kernel P
    (s\<lparr>descs := (descs s)(x := None), sockets := (sockets s)(d_socket dx \<mapsto> left dx sk), cpu_locked := True\<rparr>)"
proof -
  have "descs s x = Some dx" using L by (simp add: linked_def)
  then show ?thesis
    using hangup_alone[OF L sk c, of de P] e
      release_end_keeps[of "s\<lparr>sockets := (sockets s)(d_socket dx \<mapsto> left dx sk), cpu_locked := True\<rparr>" x dx "d_socket dx"]
    by (simp add: kern sched_order critical_order)
qed

lemma hangup_last:
  assumes L: "linked s x dx NULL" and q: "msg_queue s (d_socket dx) True ms1" "msg_queue s (d_socket dx) False ms2"
    and m: "set ms1 \<inter> set ms2 = {}" and c: "\<not> cpu_locked s"
  shows "socket_hangup P x s = anscheduler_loop_delete_cur_kernel P
    (s\<lparr>descs := (descs s)(x := None), sockets := (sockets s)(d_socket dx := None),
       msgs := (msgs s) |` (- (set ms1 \<union> set ms2)), cpu_locked := True\<rparr>)"
proof -
  obtain sk where sk: "sockets s (d_socket dx) = Some sk" and d: "descs s x = Some dx" using L by (auto simp: linked_def)
  let ?s = "s\<lparr>sockets := (sockets s)(d_socket dx \<mapsto> left dx sk), cpu_locked := True\<rparr>"
  have "msg_queue ?s (d_socket dx) True ms1" "msg_queue ?s (d_socket dx) False ms2" using q sk by (simp_all add: msg_queue_def)
  from release_end_frees[OF _ _ this m, of x dx] show ?thesis
    using hangup_alone[OF L sk c, of undefined P] d by (simp add: kern sched_order critical_order)
qed

subsection \<open>The close message\<close>

text \<open>The close code as its bytes in memory, least significant byte first, and read back.\<close>

fun le_word :: "(nat \<Rightarrow> u8) \<Rightarrow> nat \<Rightarrow> u64" where
  "le_word f 0 = 0"
| "le_word f (Suc n) = le_word f n OR push_bit (8 * n) (ucast (f n))"

lemma bit_le_word: "n \<le> 8 \<Longrightarrow> bit (le_word f n) i \<longleftrightarrow> i < 8 * n \<and> bit (f (i div 8)) (i mod 8)"
proof (induction n)
  case (Suc n)
  have d: "i div 8 = n \<and> i mod 8 = i - 8 * n" if "8 * n \<le> i" "i < 8 + 8 * n"
    using that by (auto simp: div_nat_eqI minus_mult_div_eq_mod[symmetric])
  have "bit (f n) j \<Longrightarrow> j < 8" for j using bit_imp_le_length[of "f n" j] by simp
  then show ?case using Suc d
    by (auto simp: bit_or_iff bit_push_bit_iff bit_ucast_iff not_le) (metis add.commute less_diff_conv2)+
qed simp

lemma le_word_bytes: "le_word (\<lambda>i. if i < 8 then ucast (drop_bit (8 * i) w) else g i) 8 = w"
proof (rule bit_word_eqI)
  fix i assume "i < LENGTH(64)"
  then have "i div 8 < 8" "i mod 8 < 8" by auto
  then show "bit (le_word (\<lambda>i. if i < 8 then ucast (drop_bit (8 * i) w) else g i) 8) i = bit w i"
    using \<open>i < LENGTH(64)\<close> by (simp add: bit_le_word bit_ucast_iff bit_drop_bit_eq)
qed

text \<open>The message that \<open>_socket_hangup\<close> fills in.\<close>

definition close_msg :: "'v plat \<Rightarrow> addr \<Rightarrow> u64 \<Rightarrow> socket_msg_t" where
  "close_msg P p code = fresh_msg P p\<lparr>m_type := MSG_TYPE_CLOSE, m_len := 8,
     m_message := (\<lambda>i. if i < 8 then ucast (drop_bit (8 * i) code) else m_message (fresh_msg P p) i)\<rparr>"

lemma close_msg_type: "m_type (close_msg P p code) \<noteq> MSG_TYPE_DATA"
  by (simp add: close_msg_def MSG_TYPE_CLOSE_def MSG_TYPE_DATA_def)

lemma close_msg_core:
  assumes "msg_core m = msg_core (close_msg P p code)"
  shows "m_type m = MSG_TYPE_CLOSE \<and> m_len m = 8 \<and> le_word (m_message m) 8 = code"
proof -
  have "m_message m = m_message (close_msg P p code)" "m_type m = m_type (close_msg P p code)" "m_len m = m_len (close_msg P p code)"
    using arg_cong[OF assms, of m_message] arg_cong[OF assms, of m_type] arg_cong[OF assms, of m_len] by (simp_all add: msg_core_def)
  then show ?thesis by (simp add: close_msg_def le_word_bytes)
qed

text \<open>The part of the hang-up that tells an open other end.\<close>

lemma hangup_tells:
  assumes A: "allocator P" and c: "\<not> cpu_locked s" and x: "linked s x dx e"
    and e: "descs s e = Some de" "d_isClosed de = 0" "e \<noteq> NULL" "e \<noteq> x" "CloseLock e \<notin> set (held s)"
    and p: "pf_alloc P (allocs s) sizeof_socket_msg_t (live s) = p"
  shows "if p = NULL then \<exists>s'. socket_hangup P x s = Stop (Aborted ''failed to allocate close message!'') s'
    else \<not> live s p \<and> socket_hangup P x s =
      bnd (push_message e p) (\<lambda>_. bnd (wakeup_endpoint P e) (\<lambda>_. hangup_finish P x (d_socket dx)))
      (s\<lparr>descs := (descs s)(e \<mapsto> de\<lparr>d_refCount := d_refCount de + 1\<rparr>), msgs := (msgs s)(p \<mapsto> close_msg P p (d_closeCode dx)),
         allocs := Suc (allocs s), cpu_locked := True\<rparr>)"
proof -
  let ?k = "d_socket dx" and ?de = "de\<lparr>d_refCount := d_refCount de + 1\<rparr>"
  let ?l = "s\<lparr>cpu_locked := True, held := ConnRecLock (d_socket dx) # held s\<rparr>"
  let ?s = "s\<lparr>cpu_locked := True, descs := (descs s)(e \<mapsto> ?de)\<rparr>"
  obtain sk where sk: "sockets s ?k = Some sk" "e = other_end dx sk" and d: "descs s x = Some dx" and l: "ConnRecLock ?k \<notin> set (held s)"
    using x by (auto simp: linked_def other_end_def)
  have "anscheduler_socket_reference e ?l = Ret True (?l\<lparr>descs := (descs s)(e \<mapsto> ?de)\<rparr>)"
    using socket_reference_runs[of ?l e de] e by simp
  then have ref: "reference_other_end x ?k ?l = Ret e (?l\<lparr>descs := (descs s)(e \<mapsto> ?de)\<rparr>)"
    using d sk e(3) by (simp add: reference_other_end_def other_end_def kern Let_def)
  let ?tell = "\<lambda>p. bnd (push_message e p) (\<lambda>_. bnd (wakeup_endpoint P e) (\<lambda>_. hangup_finish P x (d_socket dx)))"
  let ?rest = "\<lambda>e msg. if msg = NULL then anscheduler_abort ''failed to allocate close message!''
       else
         bnd (new_msg msg (fresh_msg P msg)) (\<lambda>_.
         bnd (wr_msg msg (\<lambda>m. m\<lparr>m_type := MSG_TYPE_CLOSE\<rparr>)) (\<lambda>_.
         bnd (wr_msg msg (\<lambda>m. m\<lparr>m_len := 8\<rparr>)) (\<lambda>_.
         bnd (rd_desc x) (\<lambda>d.
         bnd (wr_msg msg (\<lambda>m. m\<lparr>m_message := (\<lambda>i. if i < 8 then ucast (drop_bit (8 * i) (d_closeCode d))
                                                   else m_message m i)\<rparr>)) (\<lambda>_. ?tell msg)))))"
  have lv: "live ?s = live s" using e(1) unfolding critical_order live_simps by (rule live_update(4))
  then have "cpu_locked ?s" "pf_alloc P (allocs ?s) sizeof_socket_msg_t (live ?s) = p" using p by simp_all
  note al = allocator.alloc_value[OF A this]
  show ?thesis
  proof (cases "p = NULL")
    case True
    then show ?thesis using al(1) c d sk(1) l ref e(3) by (simp add: socket_hangup_def kern Let_def sched_order critical_order)
  next
    case False
    then have new: "\<not> live s p" using al(2) lv by simp
    moreover have "(raws s)(p := None) = raws s" using not_live(1)[OF new] by (simp add: fun_upd_idem)
    moreover have "socket_hangup P x s = bnd (anscheduler_alloc P sizeof_socket_msg_t) (?rest e) ?s"
      using c d sk(1) l ref e(3) by (simp add: socket_hangup_def kern Let_def sched_order critical_order)
    moreover have "?rest e p (?s\<lparr>allocs := Suc (allocs ?s), raws := (raws ?s)(p \<mapsto> sizeof_socket_msg_t)\<rparr>) =
      ?tell p (?s\<lparr>allocs := Suc (allocs ?s), raws := (raws s)(p := None), msgs := (msgs s)(p \<mapsto> close_msg P p (d_closeCode dx))\<rparr>)"
      using False d e(4) by (simp add: kern close_msg_def cong: if_cong)
    ultimately show ?thesis using False al(1)
      by (simp add: bnd_def sched_order critical_order)
  qed
qed

text \<open>What the removal of the end \<open>x\<close> leaves alone.\<close>

lemma pending_list_free:
  assumes "pending_list s task ps" and "x \<notin> set ps" and "tasks s' = tasks s" and "descs s' = (descs s)(x := None)"
  shows "pending_list s' task ps"
proof -
  have "fld g (descs s') y = fld g (descs s) y" if "y \<in> set ps" for g :: "socket_desc_t \<Rightarrow> addr" and y
    using that assms(2,4) by (auto simp: fld_def)
  moreover from this have "slist (fld d_pendingNext (descs s')) ps = slist (fld d_pendingNext (descs s)) ps" by (intro slist_cong)
  moreover have "y \<in> set (tl ps) \<Longrightarrow> y \<in> set ps" for y by (cases ps) auto
  ultimately show ?thesis using assms by (auto simp: pending_list_def)
qed

lemma inbox_left:
  assumes "inbox e s ms" and "e \<noteq> x" and "sockets s k = Some sk"
  shows "inbox e (s\<lparr>sockets := (sockets s)(k \<mapsto> left d sk), descs := (descs s)(x := None)\<rparr>) ms"
  using assms by (auto simp: inbox_def msg_queue_def)

lemma inbox_fresh:
  assumes "inbox e s ms" and "descs s e = Some de" and "p \<notin> set ms" and "d_socket d = d_socket de" and "d_isConnector d = d_isConnector de"
  shows "inbox e (s\<lparr>descs := (descs s)(e \<mapsto> d), msgs := (msgs s)(p \<mapsto> m), allocs := n, cpu_locked := b\<rparr>) ms"
proof -
  have "slist (fld m_next ((msgs s)(p \<mapsto> m))) ms = slist (fld m_next (msgs s)) ms"
    using assms(3) by (intro slist_cong) (auto simp: fld_def)
  then show ?thesis using assms by (auto simp: inbox_def msg_queue_def)
qed

text \<open>A message changes neither end of a socket.\<close>

definition ends :: "socket_t \<Rightarrow> addr \<times> addr" where
  "ends sk = (sk_connector sk, sk_receiver sk)"

lemma ends_simps [simp]: "ends (set_q_count c n sk) = ends sk" "ends (set_q_first c p sk) = ends sk" "ends (set_q_last c p sk) = ends sk"
  by (simp_all add: ends_def set_q_count_def set_q_first_def set_q_last_def)

definition same_ends :: "'v sched \<Rightarrow> 'v sched \<Rightarrow> bool" where
  "same_ends s s' \<longleftrightarrow> (\<forall>k. map_option ends (sockets s' k) = map_option ends (sockets s k))"

interpretation place: step_logic same_ends
  by unfold_locales (simp_all add: same_ends_def)

lemma same_ends_writes:
  "steps same_ends (anscheduler_lock l)" "steps same_ends (anscheduler_unlock l)" "steps same_ends (wr_msg p g)"
  "(\<And>sk. ends (f sk) = ends sk) \<Longrightarrow> steps same_ends (wr_socket p f)"
  by (auto simp: steps_def same_ends_def anscheduler_lock_def anscheduler_unlock_def wr_msg_def wr_socket_def split: option.split)

lemma push_message_ends: "steps same_ends (push_message dest msg)"
  unfolding push_message_def Let_def
  by (rule place.seq place.basic place.branch place.reads same_ends_writes | simp)+

text \<open>The other end is told, and then the own end is given up.\<close>

lemma tell_and_leave:
  assumes L: "listens s e (de\<lparr>d_refCount := d_refCount de + 1\<rparr>) tk ths ps" and quiet: "\<forall>y \<in> set ths. \<not> polling s y"
    and q: "inbox e s ms" and m: "msgs s p = Some m" "p \<notin> set ms" "p \<noteq> NULL" "m_type m \<noteq> MSG_TYPE_DATA"
    and x: "descs s x = Some dx" "e \<noteq> x" "x \<notin> set ps" "opposite dx de"
    and sk: "sockets s (d_socket dx) = Some sk" "other_end dx sk = e" and l: "ConnRecLock (d_socket dx) \<notin> set (held s)" "cpu_locked s"
  shows "\<exists>s' de' sk'. bnd (push_message e p) (\<lambda>_. bnd (wakeup_endpoint P e) (\<lambda>_. hangup_finish P x (d_socket dx))) s =
      anscheduler_loop_delete_cur_kernel P s' \<and>
    inbox e s' (ms @ [p]) \<and> pending_list s' (d_task de) (if e \<in> set ps then ps else e # ps) \<and>
    (\<forall>q. map_option msg_core (msgs s' q) = map_option msg_core (msgs s q)) \<and>
    descs s' x = None \<and> descs s' e = Some de' \<and> desc_core de' = desc_core de \<and>
    sockets s' (d_socket dx) = Some sk' \<and> ends sk' = ends (left dx sk) \<and>
    s' = s\<lparr>tasks := tasks s', sockets := sockets s', descs := descs s', msgs := msgs s'\<rparr> \<and>
    (\<forall>q. (tasks s' q = None) = (tasks s q = None))"
proof -
  let ?k = "d_socket dx" and ?de = "de\<lparr>d_refCount := d_refCount de + 1\<rparr>"
  have de: "descs s e = Some ?de" "e \<noteq> NULL" "d_isClosed de = 0" using L by (auto simp: listens_def)
  have k: "d_socket ?de = ?k" using x(4) by (simp add: opposite_def)
  have mq: "msg_queue s (d_socket ?de) (d_isConnector ?de \<noteq> 0) ms" "q_lock (d_isConnector ?de \<noteq> 0) (d_socket ?de) \<notin> set (held s)"
    using q de(1) by (auto simp: inbox_def)
  from push_message_appends[OF de(1) mq m(1-3) disjI1[OF m(4)]] obtain sk' ms' where
    push: "push_message e p s = Ret True (s\<lparr>sockets := (sockets s)(?k \<mapsto> sk'), msgs := ms'\<rparr>)"
      "msg_queue (s\<lparr>sockets := (sockets s)(?k \<mapsto> sk'), msgs := ms'\<rparr>) ?k (d_isConnector ?de \<noteq> 0) (ms @ [p])"
      "\<forall>q. map_option msg_core (ms' q) = map_option msg_core (msgs s q)" unfolding k by blast
  define s1 where "s1 = s\<lparr>sockets := (sockets s)(?k \<mapsto> sk'), msgs := ms'\<rparr>"
  have q1: "inbox e s1 (ms @ [p])" using push(2) mq(2) de(1) k by (simp add: inbox_def s1_def)
  have same: "ends sk' = ends sk" using stepsD(1)[OF push_message_ends push(1)] sk(1)
    unfolding same_ends_def by (elim allE[of _ ?k]) simp
  have L1: "listens s1 e ?de tk ths ps" by (rule listens_descs[OF L]) (simp_all add: s1_def de)
  have "\<forall>y \<in> set ths. \<not> polling s1 y" using quiet by (simp add: s1_def polling_def)
  from wakeup_quiet[OF L1 this, of P] obtain f h where
    w: "wakeup_endpoint P e s1 = Ret () (s1\<lparr>tasks := (tasks s1)(d_task ?de \<mapsto> tk\<lparr>t_firstPending := f\<rparr>), descs := h\<rparr>)"
    "woken s1 e ?de tk ps (s1\<lparr>tasks := (tasks s1)(d_task ?de \<mapsto> tk\<lparr>t_firstPending := f\<rparr>), descs := h\<rparr>)" by blast
  define s2 where "s2 = s1\<lparr>tasks := (tasks s1)(d_task ?de \<mapsto> tk\<lparr>t_firstPending := f\<rparr>), descs := h\<rparr>"
  have w': "wakeup_endpoint P e s1 = Ret () s2" "woken s1 e ?de tk ps s2" using w by (simp_all only: s2_def)
  have f2: "sockets s2 = (sockets s)(?k \<mapsto> sk')" "msgs s2 = ms'" "held s2 = held s" "cpu_locked s2"
    using l(2) by (simp_all add: s2_def s1_def)
  have "descs s1 x = Some dx" using x(1) by (simp add: s1_def)
  from woken_refs[OF w'(2) this x(2)] obtain de' dx' where
    d': "descs s2 e = Some de'" "desc_core de' = desc_core de" "descs s2 x = Some dx'" "desc_core dx' = desc_core dx" by blast
  have del: "delivered s1 e (d_task ?de) ms p ps s2"
    by (rule woken_delivered[OF w'(2) q1]) (use de(1) in \<open>simp_all add: s1_def s2_def\<close>)
  have c: "d_isConnector dx' = d_isConnector dx" using desc_core_Some[OF d'(4)] by simp
  have lf: "left dx' sk' = left dx sk'" "other_end dx' sk' = e"
    using c same sk(2) by (auto simp: left_def other_end_def ends_def)
  let ?s' = "s2\<lparr>sockets := (sockets s2)(?k \<mapsto> left dx sk'), descs := (descs s2)(x := None)\<rparr>"
  have "hangup_finish P x ?k s2 = anscheduler_loop_delete_cur_kernel P ?s'"
    using hangup_finish_keeps[OF d'(3), of ?k sk' P] lf de(2) l(1) f2 by simp
  then have "bnd (push_message e p) (\<lambda>_. bnd (wakeup_endpoint P e) (\<lambda>_. hangup_finish P x ?k)) s =
      anscheduler_loop_delete_cur_kernel P ?s'" using push(1) w'(1) by (simp add: kern s1_def)
  moreover have "inbox e ?s' (ms @ [p])" using del x(2) f2(1) by (intro inbox_left) (simp_all add: delivered_def)
  moreover have "pending_list ?s' (d_task de) (if e \<in> set ps then ps else e # ps)"
    by (rule pending_list_free[where s = s2 and x = x]) (use del x(2,3) in \<open>auto simp: delivered_def\<close>)
  moreover have "ends (left dx sk') = ends (left dx sk)" using same by (simp add: ends_def left_def)
  moreover have "?s' = s\<lparr>tasks := tasks ?s', sockets := sockets ?s', descs := descs ?s', msgs := msgs ?s'\<rparr>"
    by (rule sched.equality) (simp_all add: s2_def s1_def)
  moreover have "\<forall>q. (tasks ?s' q = None) = (tasks s q = None)" using L by (simp add: s2_def s1_def listens_def)
  ultimately show ?thesis
    using d'(1,2) x(2) f2(2) push(3) by (intro exI[of _ ?s'] exI[of _ de'] exI[of _ "left dx sk'"]) simp
qed

text \<open>
  The kernel thread that hangs up runs on a CPU with a sound run queue: it belongs to no task, is not queued,
  and its stack is allocated.
\<close>

definition job_runs :: "'v sched \<Rightarrow> addr list \<Rightarrow> thread_t \<Rightarrow> bool" where
  "job_runs s xs t \<longleftrightarrow> run_queue s xs \<and> queue_ok s xs \<and> LoopLock \<notin> set (held s) \<and> cpu_task s = NULL \<and>
     threads s (cpu_thread s) = Some t \<and> cpu_thread s \<notin> set xs \<and> raws s (th_stack t) \<noteq> None"

lemma job_ends:
  assumes J: "job_runs s xs t" and s1: "s1 = s\<lparr>descs := a, msgs := b, allocs := n, cpu_locked := True\<rparr>"
    and s2: "s2 = s1\<lparr>tasks := tasks s2, sockets := sockets s2, descs := descs s2, msgs := msgs s2\<rparr>"
    and dom: "\<forall>q. (tasks s2 q = None) = (tasks s q = None)"
  shows "\<exists>c s'. anscheduler_loop_delete_cur_kernel P s2 = Stop c s' \<and> (c = Idle \<or> (\<exists>tk. \<exists>y \<in> set xs. c = RunThread tk y)) \<and>
    loop_frame (s2\<lparr>raws := (raws s)(th_stack t := None), threads := (threads s)(cpu_thread s := None)\<rparr>) s' \<and> held s2 = held s"
proof -
  have f: "raws s2 = raws s" "threads s2 = threads s" "held s2 = held s" "cpu_task s2 = cpu_task s" "cpu_thread s2 = cpu_thread s"
    "cpu_locked s2" "firstThread s2 = firstThread s" "lastThread s2 = lastThread s" "queueCount s2 = queueCount s"
    by (subst s2, simp add: s1)+
  have k: "killable s2 q = killable s q" for q using dom f(3) by (auto simp: killable_def)
  have "run_queue s2 xs" "queue_ok s2 xs" using J run_queue_cong[OF f(2,7-9)] by (simp_all add: job_runs_def queue_ok_def f(2) k)
  from delete_cur_kernel_ends[OF this, of t P] show ?thesis using J f by (simp add: job_runs_def)
qed

subsection \<open>Properties\<close>

text \<open>C15: an end that hangs up tells the other one. If the other end is open and no thread of its task polls, it finds
  a close message of eight bytes at the end of its inbox, which decode to the close code of the end that
  hung up, and is on the pending list of its task; the other messages are as they were. The end
  that hung up has left the socket and is freed, the socket stays for the other end, with its reference count as it was.
  The kernel thread that hung up ends: it and its stack are freed, and the CPU goes to a queued thread or idles,
  with the same locks held. The kernel aborts exactly when the platform has no memory for the message.\<close>

theorem socket_hangup_sends_close:
  assumes "allocator P" and "\<not> cpu_locked s" and "linked s x dx e" and "listens s e de tk ths ps" and "opposite dx de"
    and "e \<noteq> x" and "x \<notin> set ps" and "inbox e s ms" and "\<forall>y \<in> set ths. \<not> polling s y" and "job_runs s xs t"
    and "pf_alloc P (allocs s) sizeof_socket_msg_t (live s) = p"
  shows "if p = NULL then \<exists>s'. socket_hangup P x s = Stop (Aborted ''failed to allocate close message!'') s'
    else \<not> live s p \<and> (\<exists>c m de' sk s'. socket_hangup P x s = Stop c s' \<and>
      (c = Idle \<or> (\<exists>tk. \<exists>y \<in> set xs. c = RunThread tk y)) \<and>
      inbox e s' (ms @ [p]) \<and> pending_list s' (d_task de) (if e \<in> set ps then ps else e # ps) \<and>
      msgs s' p = Some m \<and> m_type m = MSG_TYPE_CLOSE \<and> m_len m = 8 \<and> le_word (m_message m) 8 = d_closeCode dx \<and>
      (\<forall>q. q \<noteq> p \<longrightarrow> map_option msg_core (msgs s' q) = map_option msg_core (msgs s q)) \<and>
      descs s' x = None \<and> descs s' e = Some de' \<and> desc_core de' = desc_core de \<and>
      sockets s' (d_socket dx) = Some sk \<and> ends sk = (if d_isConnector dx \<noteq> 0 then (NULL, e) else (e, NULL)) \<and>
      threads s' (cpu_thread s) = None \<and> raws s' = (raws s)(th_stack t := None) \<and> held s' = held s)"
proof (cases "p = NULL")
  case True
  have "descs s e = Some de" "d_isClosed de = 0" "e \<noteq> NULL" "CloseLock e \<notin> set (held s)"
    using assms(4) by (auto simp: listens_def)
  from hangup_tells[OF assms(1-3) this(1-3) assms(6) this(4) assms(11)] show ?thesis using True by simp
next
  case p: False
  let ?k = "d_socket dx" and ?de = "de\<lparr>d_refCount := d_refCount de + 1\<rparr>" and ?m = "close_msg P p (d_closeCode dx)"
  have e: "descs s e = Some de" "d_isClosed de = 0" "e \<noteq> NULL" "e \<noteq> x" "CloseLock e \<notin> set (held s)"
    using assms(4,6) by (auto simp: listens_def)
  obtain sk where sk: "sockets s ?k = Some sk" "e = other_end dx sk" and d: "descs s x = Some dx" and l: "ConnRecLock ?k \<notin> set (held s)"
    using assms(3) by (auto simp: linked_def other_end_def)
  define s1 where "s1 = s\<lparr>descs := (descs s)(e \<mapsto> ?de), msgs := (msgs s)(p \<mapsto> ?m), allocs := Suc (allocs s), cpu_locked := True\<rparr>"
  have new: "\<not> live s p" and run: "socket_hangup P x s =
      bnd (push_message e p) (\<lambda>_. bnd (wakeup_endpoint P e) (\<lambda>_. hangup_finish P x ?k)) s1"
    using hangup_tells[OF assms(1-3) e assms(11)] p by (simp_all add: s1_def)
  have f: "descs s1 e = Some ?de" "descs s1 x = Some dx" "msgs s1 p = Some ?m" "sockets s1 = sockets s" "held s1 = held s" "cpu_locked s1"
    using d e(4) by (simp_all add: s1_def)
  have ms: "p \<notin> set ms" using assms(8) not_live(6)[OF new] by (auto simp: inbox_def msg_queue_def)
  have "listens s1 e ?de tk ths ps"
    by (rule listens_descs[OF assms(4)]) (use e(1,2) in \<open>simp_all add: s1_def same_on_upd pending_links_def\<close>)
  moreover have "\<forall>y \<in> set ths. \<not> polling s1 y" using assms(9) by (simp add: polling_def s1_def)
  moreover have "inbox e s1 ms" using inbox_fresh[OF assms(8) e(1) ms] by (simp add: s1_def)
  ultimately obtain s2 de' sk' where r: "bnd (push_message e p) (\<lambda>_. bnd (wakeup_endpoint P e) (\<lambda>_. hangup_finish P x ?k)) s1 =
      anscheduler_loop_delete_cur_kernel P s2"
    "inbox e s2 (ms @ [p])" "pending_list s2 (d_task de) (if e \<in> set ps then ps else e # ps)"
    "\<forall>q. map_option msg_core (msgs s2 q) = map_option msg_core (msgs s1 q)"
    "descs s2 x = None" "descs s2 e = Some de'" "desc_core de' = desc_core de"
    "sockets s2 ?k = Some sk'" "ends sk' = ends (left dx sk)"
    "s2 = s1\<lparr>tasks := tasks s2, sockets := sockets s2, descs := descs s2, msgs := msgs s2\<rparr>"
    "\<forall>q. (tasks s2 q = None) = (tasks s1 q = None)"
    using tell_and_leave[of s1 e de tk ths ps ms p ?m x dx sk P, OF _ _ _ f(3) ms p close_msg_type f(2) e(4) assms(7,5)]
      f(4-6) sk l by (elim meta_impE) (simp_all, blast)
  have "\<forall>q. (tasks s2 q = None) = (tasks s q = None)" using r(11) by (simp add: s1_def)
  from job_ends[OF assms(10) s1_def r(10) this, of P] obtain c s' where
    s': "anscheduler_loop_delete_cur_kernel P s2 = Stop c s'" "c = Idle \<or> (\<exists>tk. \<exists>y \<in> set xs. c = RunThread tk y)"
      "loop_frame (s2\<lparr>raws := (raws s)(th_stack t := None), threads := (threads s)(cpu_thread s := None)\<rparr>) s'" "held s2 = held s"
    by blast
  then have g: "sockets s' = sockets s2" "descs s' = descs s2" "msgs s' = msgs s2" "held s' = held s" "threads s' (cpu_thread s) = None"
    "raws s' = (raws s)(th_stack t := None)" "\<And>q. map_option t_firstPending (tasks s' q) = map_option t_firstPending (tasks s2 q)"
    by (simp_all add: loop_frame_def)
  obtain m where m: "msgs s2 p = Some m" "msg_core m = msg_core ?m" using r(4)[rule_format, of p] f(3) by auto
  have "m_type m = MSG_TYPE_CLOSE \<and> m_len m = 8 \<and> le_word (m_message m) 8 = d_closeCode dx" using close_msg_core[OF m(2)] .
  moreover have "\<forall>q. q \<noteq> p \<longrightarrow> map_option msg_core (msgs s' q) = map_option msg_core (msgs s q)"
    using r(4) g(3) by (simp add: s1_def)
  moreover have "ends sk' = (if d_isConnector dx \<noteq> 0 then (NULL, e) else (e, NULL))"
    using r(9) sk(2) by (simp add: ends_def left_def other_end_def)
  moreover have "inbox e s' (ms @ [p])" using r(2) g s'(4) by (simp add: inbox_def msg_queue_def)
  moreover have "pending_list s' (d_task de) (if e \<in> set ps then ps else e # ps)"
    using r(3) g(2) g(7)[of "d_task de"] by (cases "tasks s' (d_task de)") (auto simp: pending_list_def)
  moreover have "socket_hangup P x s = Stop c s'" using run r(1) s'(1) by simp
  ultimately show ?thesis
    unfolding if_not_P[OF p] using new s'(2) r(5-8) g(1-6) m(1)
    by (intro conjI exI[of _ c] exI[of _ m] exI[of _ de'] exI[of _ sk'] exI[of _ s']) simp_all
qed

text \<open>
  Both ends of the socket of \<open>traffic_ex\<close>, seen by the kernel thread that hangs up the sender with the code 77. The thread
  has the CPU, with the stack at 0x3000.
\<close>

definition hangup_ex :: "flatvm sched" where
  "hangup_ex = traffic_ex False\<lparr>descs := (descs (traffic_ex False))(0x100 \<mapsto> traffic_sender\<lparr>d_closeCode := 77, d_isClosed := 1\<rparr>),
     threads := (threads (traffic_ex False))(0x300 \<mapsto> kernel_thread Socket_hangup 0x100 0x3000), raws := [0x3000 \<mapsto> 0x1000],
     cpu_task := NULL, cpu_locked := False\<rparr>"

theorem socket_hangup_sends_close_witness:
  "\<exists>m s'. socket_hangup flat_plat 0x100 hangup_ex = Stop Idle s' \<and> inbox 0x200 s' [0x600, 0x1000] \<and>
      msgs s' 0x1000 = Some m \<and> le_word (m_message m) 8 = 77 \<and> descs s' 0x100 = None \<and> threads s' 0x300 = None \<and> raws s' 0x3000 = None"
proof -
  let ?d = "traffic_sender\<lparr>d_closeCode := 77, d_isClosed := 1\<rparr>" and ?t = "kernel_thread Socket_hangup 0x100 0x3000"
  note ex = hangup_ex_def traffic_ex_def sock_ex_def flat_boot_def boot_def
  have x: "linked hangup_ex 0x100 ?d 0x200" using traffic_ex_linked[of False] by (simp add: linked_def hangup_ex_def)
  have e: "listens hangup_ex 0x200 traffic_receiver traffic_task [0x400] []"
    by (simp add: listens_def task_threads_def pending_list_def not_listed_def slist_def thread_next_def ex
        zero_desc_def zero_task_def zero_thread_def)
  have d: "descs (traffic_ex False) 0x200 = Some traffic_receiver" using traffic_ex_listens[of False] by (simp add: listens_def)
  have q: "inbox 0x200 hangup_ex [0x600]"
    by (rule inbox_descs[OF traffic_ex_inbox[of False] d, where d' = traffic_receiver]) (use d in \<open>simp_all add: hangup_ex_def\<close>)
  have quiet: "\<forall>y \<in> set [0x400]. \<not> polling hangup_ex y" and u: "\<not> cpu_locked hangup_ex"
    by (simp_all add: polling_def hangup_ex_def traffic_ex_def zero_thread_def)
  have c: "cpu_thread hangup_ex = 0x300" "th_stack ?t = 0x3000" by (simp_all add: ex kernel_thread_def)
  have j: "job_runs hangup_ex [] ?t" by (simp add: job_runs_def run_queue_def queue_ok_def c) (simp add: ex)
  have p: "pf_alloc flat_plat (allocs hangup_ex) sizeof_socket_msg_t (live hangup_ex) = 0x1000"
    by (simp add: flat_plat_def flat_alloc_def live_def sizeof_socket_msg_t_def ex)
  have o: "opposite ?d traffic_receiver" "(0x200::addr) \<noteq> 0x100" "(0x100::addr) \<notin> set []" "d_closeCode ?d = 77"
    "[0x600] @ [0x1000] = [0x600, 0x1000 :: addr]" "(0x1000 :: addr) \<noteq> NULL" by (simp_all add: opposite_def zero_desc_def)
  have "\<exists>c m s'. socket_hangup flat_plat 0x100 hangup_ex = Stop c s' \<and> (c = Idle \<or> (\<exists>tk. \<exists>y \<in> set []. c = RunThread tk y)) \<and>
      inbox 0x200 s' [0x600, 0x1000] \<and> msgs s' 0x1000 = Some m \<and> le_word (m_message m) 8 = 77 \<and>
      descs s' 0x100 = None \<and> threads s' 0x300 = None \<and> raws s' = (raws hangup_ex)(0x3000 := None)"
    using socket_hangup_sends_close[OF flat.allocator_axioms u x e o(1-3) q quiet j p] unfolding o(4,5) c if_not_P[OF o(6)]
    by (elim conjE exE) (intro exI conjI, assumption+)
  then show ?thesis by auto
qed

text \<open>C16: the end that hangs up last frees the socket. When one end hangs up while the other is closed, it leaves the socket
  and only its own descriptor is freed; when the other end then hangs up, in any later state with the same
  sockets, ends and messages, the other descriptor, the socket and all messages that still wait in either
  queue are freed, and nothing else. So nothing is lost and nothing is freed twice.\<close>

theorem hangup_last_frees_socket:
  assumes "linked s x dx e" and "linked s e de x" and "opposite dx de" and "e \<noteq> NULL" and "x \<noteq> NULL" and "e \<noteq> x"
    and "d_isClosed de \<noteq> 0" and "CloseLock e \<notin> set (held s)" and "\<not> cpu_locked s"
    and "msg_queue s (d_socket dx) True ms1" and "msg_queue s (d_socket dx) False ms2" and "set ms1 \<inter> set ms2 = {}"
  shows "\<exists>s1. socket_hangup P x s = anscheduler_loop_delete_cur_kernel P s1 \<and> msgs s1 = msgs s \<and>
    descs s1 = (descs s)(x := None) \<and> sockets s1 (d_socket dx) \<noteq> None \<and> held s1 = held s \<and>
    (\<forall>s2. sockets s2 = sockets s1 \<and> descs s2 = descs s1 \<and> msgs s2 = msgs s1 \<and> \<not> cpu_locked s2 \<and>
        ConnRecLock (d_socket dx) \<notin> set (held s2) \<longrightarrow>
      socket_hangup P e s2 = anscheduler_loop_delete_cur_kernel P
        (s2\<lparr>descs := (descs s)(x := None, e := None), sockets := (sockets s)(d_socket dx := None),
            msgs := (msgs s) |` (- (set ms1 \<union> set ms2)), cpu_locked := True\<rparr>))"
proof -
  let ?k = "d_socket dx"
  obtain sk where sk: "sockets s ?k = Some sk" and de: "descs s e = Some de" using assms(1,2) by (auto simp: linked_def)
  let ?s1 = "s\<lparr>descs := (descs s)(x := None), sockets := (sockets s)(?k \<mapsto> left dx sk), cpu_locked := True\<rparr>"
  have first: "socket_hangup P x s = anscheduler_loop_delete_cur_kernel P ?s1"
    by (rule hangup_first[OF assms(1) sk assms(9,4) de assms(8,7)])
  have last: "socket_hangup P e s2 = anscheduler_loop_delete_cur_kernel P
        (s2\<lparr>descs := (descs s)(x := None, e := None), sockets := (sockets s)(?k := None),
            msgs := (msgs s) |` (- (set ms1 \<union> set ms2)), cpu_locked := True\<rparr>)"
    if s2: "sockets s2 = sockets ?s1" "descs s2 = descs ?s1" "msgs s2 = msgs ?s1" "\<not> cpu_locked s2" "ConnRecLock ?k \<notin> set (held s2)" for s2
  proof -
    have k: "d_socket de = ?k" using assms(3) by (simp add: opposite_def)
    have L: "linked s2 e de NULL" using s2 de sk k assms(3,6) by (auto simp: linked_def opposite_def left_def)
    have q: "msg_queue s2 (d_socket de) True ms1" "msg_queue s2 (d_socket de) False ms2"
      using assms(10,11) s2(1,3) sk k by (simp_all add: msg_queue_def)
    show ?thesis using hangup_last[OF L q assms(12) s2(4), of P] s2(1-3) k by simp
  qed
  show ?thesis by (intro exI[of _ ?s1]) (simp add: first last)
qed

definition closed_ex :: "flatvm sched" where
  "closed_ex = sock_ex\<lparr>descs := (descs sock_ex)(0x200 \<mapsto> zero_desc\<lparr>d_socket := 0x500, d_isClosed := 1\<rparr>), cpu_locked := False\<rparr>"

theorem hangup_last_frees_socket_witness:
  "\<exists>s1. socket_hangup flat_plat 0x100 closed_ex = anscheduler_loop_delete_cur_kernel flat_plat s1 \<and> msgs s1 0x600 \<noteq> None \<and>
    socket_hangup flat_plat 0x200 (s1\<lparr>cpu_locked := False\<rparr>) = anscheduler_loop_delete_cur_kernel flat_plat
      (s1\<lparr>descs := (descs closed_ex)(0x100 := None, 0x200 := None), sockets := (sockets closed_ex)(0x500 := None),
         msgs := (msgs closed_ex) |` (- {0x600}), cpu_locked := True\<rparr>)"
proof -
  let ?x = "zero_desc\<lparr>d_socket := 0x500, d_isConnector := 1, d_refCount := 1\<rparr>" and ?e = "zero_desc\<lparr>d_socket := 0x500, d_isClosed := 1\<rparr>"
  have h: "held closed_ex = []" by (simp add: closed_ex_def sock_ex_def flat_boot_def boot_def)
  have L: "linked closed_ex 0x100 ?x 0x200" "linked closed_ex 0x200 ?e 0x100"
    by (simp_all add: linked_def closed_ex_def sock_ex_def flat_boot_def boot_def zero_desc_def)
  have q: "msg_queue closed_ex (d_socket ?x) True []" "msg_queue closed_ex (d_socket ?x) False [0x600]"
    using sock_ex_queue by (simp_all add: closed_ex_def msg_queue_def)
  have m: "\<not> cpu_locked closed_ex" "msgs closed_ex 0x600 \<noteq> None" by (simp_all add: closed_ex_def sock_ex_def)
  obtain s1 where s1: "socket_hangup flat_plat 0x100 closed_ex = anscheduler_loop_delete_cur_kernel flat_plat s1"
    "msgs s1 = msgs closed_ex" "held s1 = held closed_ex"
    and s2: "sockets s2 = sockets s1 \<and> descs s2 = descs s1 \<and> msgs s2 = msgs s1 \<and> \<not> cpu_locked s2 \<and>
        ConnRecLock (d_socket ?x) \<notin> set (held s2) \<Longrightarrow>
      socket_hangup flat_plat 0x200 s2 = anscheduler_loop_delete_cur_kernel flat_plat
        (s2\<lparr>descs := (descs closed_ex)(0x100 := None, 0x200 := None), sockets := (sockets closed_ex)(d_socket ?x := None),
            msgs := (msgs closed_ex) |` (- (set [] \<union> set [0x600])), cpu_locked := True\<rparr>)" for s2
    using hangup_last_frees_socket[OF L _ _ _ _ _ _ m(1) q, of flat_plat] h by (auto simp: opposite_def zero_desc_def)
  show ?thesis using s1 m(2) h s2[of "s1\<lparr>cpu_locked := False\<rparr>"] by (intro exI[of _ s1]) (simp add: critical_order)
qed

end
