(* ===== verification/Vm_Env.thy ===== *)
theory Vm_Env
  imports Platform
begin

unbundle bit_operations_syntax

text \<open>
  The virtual memory of the reference port (\<open>test/env/vm.c\<close>): address spaces as trees of page tables
  with four levels, as the MMU of an x86-64 machine reads them.

  The tables are a part of memory of their own, like every struct of the scheduler. A walk
  through a table that does not exist, and a failed allocation, whose result the C code clears
  without looking at it, are \<open>None\<close>. The theory shows that the trees implement the contract
  \<open>vm_platform\<close> which the proofs about threads and tasks rest on.
\<close>

subsection \<open>Tables\<close>

type_synonym pt_alloc = "nat \<Rightarrow> (addr \<Rightarrow> bool) \<Rightarrow> addr" \<comment> \<open>call number, tables in use\<close>

record ptmem =
  pt_tables :: "addr \<rightharpoonup> (nat \<Rightarrow> u64)" \<comment> \<open>entries 0 to 0x1ff\<close>
  pt_allocs :: nat

text \<open>The table that an entry points to.\<close>

definition page_base :: "u64 \<Rightarrow> addr" where
  "page_base e = push_bit 12 (drop_bit 12 e)"

definition table_alloc :: "pt_alloc \<Rightarrow> ptmem \<Rightarrow> (addr \<times> ptmem) option" where
  "table_alloc A m =
     (let p = A (pt_allocs m) (\<lambda>q. pt_tables m q \<noteq> None)
      in if p = NULL then None
         else Some (p, m\<lparr>pt_tables := (pt_tables m)(p \<mapsto> (\<lambda>_. 0)), pt_allocs := Suc (pt_allocs m)\<rparr>))"

definition pt_write :: "addr \<Rightarrow> nat \<Rightarrow> u64 \<Rightarrow> ptmem \<Rightarrow> ptmem" where
  "pt_write table idx e m =
     m\<lparr>pt_tables := (pt_tables m)(table := map_option (\<lambda>t. t(idx := e)) (pt_tables m table))\<rparr>"

text \<open>The indices of a page: those of the three upper tables, and that of its entry.\<close>

definition upper_indices :: "u64 \<Rightarrow> nat list" where
  "upper_indices vpage = [unat (drop_bit 27 vpage AND 0x1ff), unat (drop_bit 18 vpage AND 0x1ff),
     unat (drop_bit 9 vpage AND 0x1ff)]"

definition pt_index :: "u64 \<Rightarrow> nat" where
  "pt_index vpage = unat (vpage AND 0x1ff)"

subsection \<open>Operations\<close>

text \<open>One round of the loop of \<open>anscheduler_vm_map\<close>.\<close>

definition map_level :: "pt_alloc \<Rightarrow> u16 \<Rightarrow> nat \<Rightarrow> addr \<Rightarrow> ptmem \<Rightarrow> (addr \<times> ptmem) option" where
  "map_level A flags idx table m =
     (case pt_tables m table of
        None \<Rightarrow> None
      | Some t \<Rightarrow>
          if t idx AND 1 \<noteq> 0 then
            let e = (if flags AND 4 \<noteq> 0 then t idx OR 4 else t idx)
            in Some (page_base e, pt_write table idx e m)
          else
            (case table_alloc A m of
               None \<Rightarrow> None
             | Some (nextTable, m1) \<Rightarrow>
                 let e = 3 OR nextTable; e' = (if flags AND 4 \<noteq> 0 then e OR 4 else e)
                 in Some (nextTable, pt_write table idx e' m1)))"

fun map_levels :: "pt_alloc \<Rightarrow> u16 \<Rightarrow> nat list \<Rightarrow> addr \<Rightarrow> ptmem \<Rightarrow> (addr \<times> ptmem) option" where
  "map_levels A flags [] table m = Some (table, m)"
| "map_levels A flags (i # is) table m =
     (case map_level A flags i table m of
        None \<Rightarrow> None
      | Some (table', m') \<Rightarrow> map_levels A flags is table' m')"

definition vm_map :: "pt_alloc \<Rightarrow> ptmem \<Rightarrow> addr \<Rightarrow> u64 \<Rightarrow> u64 \<Rightarrow> u16 \<Rightarrow> ptmem option" where
  "vm_map A m root vpage dpage flags =
     (case map_levels A flags (upper_indices vpage) root m of
        None \<Rightarrow> None
      | Some (table, m1) \<Rightarrow>
          (case pt_tables m1 table of
             None \<Rightarrow> None
           | Some t \<Rightarrow> Some (pt_write table (pt_index vpage) (push_bit 12 dpage OR ucast flags) m1)))"

definition vm_unmap :: "pt_alloc \<Rightarrow> ptmem \<Rightarrow> addr \<Rightarrow> u64 \<Rightarrow> ptmem option" where
  "vm_unmap A m root vpage = vm_map A m root vpage 0 0"

fun vm_walk :: "ptmem \<Rightarrow> nat list \<Rightarrow> addr \<Rightarrow> nat \<Rightarrow> (u64 \<times> u16) option" where
  "vm_walk m [] table j = map_option (\<lambda>t. (drop_bit 12 (t j), ucast (t j AND 0xfff))) (pt_tables m table)"
| "vm_walk m (i # is) table j =
     (case pt_tables m table of
        None \<Rightarrow> None
      | Some t \<Rightarrow> if t i AND 1 \<noteq> 0 then vm_walk m is (page_base (t i)) j else Some (0, 0))"

definition vm_lookup :: "ptmem \<Rightarrow> addr \<Rightarrow> u64 \<Rightarrow> (u64 \<times> u16) option" where
  "vm_lookup m root vpage = vm_walk m (upper_indices vpage) root (pt_index vpage)"

definition vm_root_alloc :: "pt_alloc \<Rightarrow> ptmem \<Rightarrow> (addr \<times> ptmem) option" where
  "vm_root_alloc A m = table_alloc A m"

text \<open>Freeing a table that does not exist is \<open>None\<close>; the first argument is \<open>3 - depth\<close>.\<close>

definition pt_free :: "addr \<Rightarrow> ptmem \<Rightarrow> ptmem option" where
  "pt_free table m =
     (if pt_tables m table = None then None else Some (m\<lparr>pt_tables := (pt_tables m)(table := None)\<rparr>))"

primrec table_free :: "nat \<Rightarrow> addr \<Rightarrow> ptmem \<Rightarrow> ptmem option" where
  "table_free 0 table m = pt_free table m"
| "table_free (Suc k) table m =
     Option.bind
       (foldl (\<lambda>r i. Option.bind r (\<lambda>m.
          case pt_tables m table of
            None \<Rightarrow> None
          | Some t \<Rightarrow> if t i AND 1 \<noteq> 0 then table_free k (page_base (t i)) m else Some m)) (Some m) [0..<0x200])
       (pt_free table)"

definition vm_root_free :: "ptmem \<Rightarrow> addr \<Rightarrow> ptmem option" where
  "vm_root_free m root = table_free 3 root m"

text \<open>
  Outside of critical sections every table is freed in a short one of its own. The second part of the
  state is whether the CPU is in a critical section; entering one twice, leaving none and freeing
  outside of one are \<open>None\<close>.
\<close>

definition pt_cpu_lock :: "ptmem \<times> bool \<Rightarrow> (ptmem \<times> bool) option" where
  "pt_cpu_lock = (\<lambda>(m, c). if c then None else Some (m, True))"

definition pt_cpu_unlock :: "ptmem \<times> bool \<Rightarrow> (ptmem \<times> bool) option" where
  "pt_cpu_unlock = (\<lambda>(m, c). if c then Some (m, False) else None)"

definition pt_free_critical :: "addr \<Rightarrow> ptmem \<times> bool \<Rightarrow> (ptmem \<times> bool) option" where
  "pt_free_critical table = (\<lambda>(m, c). if c then map_option (\<lambda>m. (m, c)) (pt_free table m) else None)"

primrec table_free_async :: "nat \<Rightarrow> addr \<Rightarrow> ptmem \<times> bool \<Rightarrow> (ptmem \<times> bool) option" where
  "table_free_async 0 table mc =
     Option.bind (pt_cpu_lock mc) (\<lambda>mc. Option.bind (pt_free_critical table mc) pt_cpu_unlock)"
| "table_free_async (Suc k) table mc =
     Option.bind
       (foldl (\<lambda>r i. Option.bind r (\<lambda>mc.
          case pt_tables (fst mc) table of
            None \<Rightarrow> None
          | Some t \<Rightarrow> if t i AND 1 \<noteq> 0 then table_free_async k (page_base (t i)) mc else Some mc)) (Some mc) [0..<0x200])
       (\<lambda>mc. Option.bind (pt_cpu_lock mc) (\<lambda>mc. Option.bind (pt_free_critical table mc) pt_cpu_unlock))"

definition vm_root_free_async :: "ptmem \<times> bool \<Rightarrow> addr \<Rightarrow> (ptmem \<times> bool) option" where
  "vm_root_free_async mc root = table_free_async 3 root mc"

subsection \<open>Entries\<close>

lemma page_base_or: "page_base (a OR b) = page_base a OR page_base b"
  by (simp add: page_base_def drop_bit_or push_bit_or)

lemma page_base_flags [simp]: "page_base 3 = 0" "page_base 4 = 0"
  by (simp_all add: page_base_def drop_bit_eq_div)

lemma page_base_aligned: "take_bit 12 p = 0 \<Longrightarrow> page_base p = p"
  using bits_ident[of 12 p] by (simp add: page_base_def)

lemma present_or: "a AND 1 \<noteq> 0 \<Longrightarrow> (a OR b) AND 1 \<noteq> (0 :: u64)"
  by (simp add: bit.conj_disj_distrib2 or_eq_0_iff)

lemma entry_user: "e AND 1 \<noteq> 0 \<Longrightarrow> page_base (e OR 4) = page_base e \<and> (e OR 4) AND 1 \<noteq> 0"
  by (simp add: page_base_or present_or)

lemma entry_new:
  assumes "take_bit 12 p = 0"
  shows "page_base (3 OR p) = p" "(3 OR p) AND 1 \<noteq> 0"
  using assms by (simp_all add: page_base_or page_base_aligned present_or)

lemma bit_below:
  fixes w :: "'a::len word"
  assumes "unat w < 2 ^ k" and "bit w n"
  shows "n < k"
proof -
  have "take_bit k (unat w) = unat w" using assms(1) by (rule take_bit_nat_eq_self)
  moreover have "bit (unat w) n" using assms(2) by (simp add: bit_unsigned_iff)
  ultimately have "bit (take_bit k (unat w)) n" by simp
  then show ?thesis by (simp add: bit_take_bit_iff)
qed

lemma leaf_page:
  assumes "d < 2 ^ 52" and "f < 0x1000"
  shows "drop_bit 12 (push_bit 12 d OR ucast (f :: u16)) = (d :: u64)"
    and "ucast ((push_bit 12 d OR ucast f) AND 0xfff) = f"
proof -
  have d: "bit d n \<Longrightarrow> n < 52" for n
    using assms(1) by (intro bit_below[of d 52]) (simp_all add: word_less_nat_alt)
  have f: "bit f n \<Longrightarrow> n < 12" for n
    using assms(2) by (intro bit_below[of f 12]) (simp_all add: word_less_nat_alt)
  have m: "(0xfff :: u64) = mask 12" by (simp add: mask_eq_exp_minus_1)
  show "drop_bit 12 (push_bit 12 d OR ucast f) = d"
    by (rule bit_word_eqI) (auto simp: bit_simps dest: d f)
  show "ucast ((push_bit 12 d OR ucast f) AND 0xfff) = f"
    unfolding m by (rule bit_word_eqI) (auto simp: bit_simps dest: f)
qed

lemma unmapped_page: "drop_bit 12 (0 :: u64) = 0" "ucast (0 AND 0xfff :: u64) = (0 :: u16)"
  by simp_all

lemma upper_length [simp]: "length (upper_indices p) = 3" "upper_indices p \<noteq> []"
  by (simp_all add: upper_indices_def)

text \<open>The indices of a page determine it.\<close>

lemma indices_inj:
  assumes "p < 2 ^ 36" and "q < 2 ^ 36"
  shows "upper_indices p = upper_indices q \<and> pt_index p = pt_index q \<longleftrightarrow> p = q"
proof
  assume eq: "upper_indices p = upper_indices q \<and> pt_index p = pt_index q"
  have m: "(0x1ff :: u64) = mask 9" by (simp add: mask_eq_exp_minus_1)
  have field: "bit p (k + n) = bit q (k + n)" if "drop_bit k p AND 0x1ff = drop_bit k q AND 0x1ff" "n < 9" for k n
  proof -
    have "bit (drop_bit k p AND 0x1ff) n = bit (drop_bit k q AND 0x1ff) n" using that(1) by simp
    then show ?thesis using that(2) unfolding m by (simp add: bit_simps add.commute)
  qed
  have e: "drop_bit 27 p AND 0x1ff = drop_bit 27 q AND 0x1ff" "drop_bit 18 p AND 0x1ff = drop_bit 18 q AND 0x1ff"
    "drop_bit 9 p AND 0x1ff = drop_bit 9 q AND 0x1ff" "drop_bit 0 p AND 0x1ff = drop_bit 0 q AND 0x1ff"
    using eq by (simp_all add: upper_indices_def pt_index_def word_unat_eq_iff)
  have hi: "n < 36" if "bit p n \<or> bit q n" for n
    using that assms by (auto intro: bit_below[of _ 36] simp: word_less_nat_alt)
  have "bit p n = bit q n" for n
  proof (cases "n < 36")
    case True
    then consider "n < 9" | "9 \<le> n" "n < 18" | "18 \<le> n" "n < 27" | "27 \<le> n" "n < 36" by linarith
    then show ?thesis
      using field[OF e(4), of n] field[OF e(3), of "n - 9"] field[OF e(2), of "n - 18"] field[OF e(1), of "n - 27"]
      by cases simp_all
  qed (use hi in blast)
  then show "p = q" by (intro bit_word_eqI)
qed simp

subsection \<open>Paths\<close>

text \<open>The table that a path of indices leads to, and the entry at the end of a path.\<close>

definition child :: "ptmem \<Rightarrow> addr \<Rightarrow> nat \<Rightarrow> addr option" where
  "child m p i = (case pt_tables m p of
      Some t \<Rightarrow> if t i AND 1 \<noteq> 0 then Some (page_base (t i)) else None | None \<Rightarrow> None)"

fun path :: "ptmem \<Rightarrow> addr \<Rightarrow> nat list \<Rightarrow> addr option" where
  "path m p [] = Some p"
| "path m p (i # is) = (case child m p i of None \<Rightarrow> None | Some q \<Rightarrow> path m q is)"

definition leaf :: "ptmem \<Rightarrow> addr \<Rightarrow> nat list \<Rightarrow> nat \<Rightarrow> u64" where
  "leaf m r is j = (case path m r is of
      None \<Rightarrow> 0 | Some p \<Rightarrow> (case pt_tables m p of None \<Rightarrow> 0 | Some t \<Rightarrow> t j))"

text \<open>The roots \<open>R\<close> are those of disjoint trees of tables.\<close>

definition forest :: "ptmem \<Rightarrow> addr set \<Rightarrow> bool" where
  "forest m R \<longleftrightarrow>
     (\<forall>r \<in> R. \<forall>is p. length is \<le> 3 \<longrightarrow> path m r is = Some p \<longrightarrow> pt_tables m p \<noteq> None) \<and>
     (\<forall>r \<in> R. \<forall>r' \<in> R. \<forall>is js p. length is \<le> 3 \<longrightarrow> length js \<le> 3 \<longrightarrow>
        path m r is = Some p \<longrightarrow> path m r' js = Some p \<longrightarrow> r = r' \<and> is = js)"

lemma path_snoc: "path m r (is @ [i]) = (case path m r is of None \<Rightarrow> None | Some p \<Rightarrow> child m p i)"
  by (induction "is" arbitrary: r) (simp_all split: option.split)

lemma path_append: "path m r (is @ js) = (case path m r is of None \<Rightarrow> None | Some p \<Rightarrow> path m p js)"
  by (induction "is" arbitrary: r) (simp_all split: option.split)

lemma forest_table:
  assumes "forest m R" and "r \<in> R" and "length is \<le> 3" and "path m r is = Some p"
  obtains t where "pt_tables m p = Some t"
  using assms unfolding forest_def by blast

lemma forest_inj:
  assumes "forest m R" and "r \<in> R" and "r' \<in> R" and "length is \<le> 3" and "length js \<le> 3"
    and "path m r is = Some p" and "path m r' js = Some p"
  shows "r = r' \<and> is = js"
  using assms unfolding forest_def by blast

subsection \<open>Changing tables\<close>

text \<open>An entry is rewritten that keeps its table, so every path leads where it led.\<close>

lemma child_rewrite:
  assumes "pt_tables m p = Some t" and "page_base e = page_base (t i)" and "e AND 1 \<noteq> 0" and "t i AND 1 \<noteq> 0"
  shows "child (pt_write p i e m) = child m"
  using assms by (auto simp: child_def pt_write_def fun_eq_iff)

lemma path_cong: "child m' = child m \<Longrightarrow> path m' = path m"
proof (rule ext, rule ext)
  fix r "is" assume "child m' = child m"
  then show "path m' r is = path m r is" by (induction "is" arbitrary: r) (simp_all split: option.split)
qed

lemma rewrite_forest:
  assumes F: "forest m R" and r: "r0 \<in> R" "length js < 3" "path m r0 js = Some p" and t: "pt_tables m p = Some t"
    and e: "page_base e = page_base (t i)" "e AND 1 \<noteq> 0" "t i AND 1 \<noteq> 0"
  shows "path (pt_write p i e m) = path m" and "forest (pt_write p i e m) R"
    and "r \<in> R \<Longrightarrow> length is = 3 \<Longrightarrow> leaf (pt_write p i e m) r is j = leaf m r is j"
proof -
  show P: "path (pt_write p i e m) = path m" by (rule path_cong[OF child_rewrite[OF t e]])
  have dom: "(pt_tables (pt_write p i e m) q = None) = (pt_tables m q = None)" for q
    by (simp add: pt_write_def)
  show "forest (pt_write p i e m) R" using F unfolding forest_def P dom .
  assume "r \<in> R" "length is = 3"
  then have "path m r is \<noteq> Some p" using forest_inj[OF F r(1) \<open>r \<in> R\<close> _ _ r(3)] r(2) by force
  then show "leaf (pt_write p i e m) r is j = leaf m r is j"
    unfolding leaf_def P by (simp add: pt_write_def split: option.split)
qed

text \<open>A new table is linked in at an entry that was not in use.\<close>

definition link_table :: "addr \<Rightarrow> nat \<Rightarrow> addr \<Rightarrow> u64 \<Rightarrow> ptmem \<Rightarrow> ptmem" where
  "link_table p i q e m = pt_write p i e (m\<lparr>pt_tables := (pt_tables m)(q \<mapsto> (\<lambda>_. 0)), pt_allocs := Suc (pt_allocs m)\<rparr>)"

lemma link_tables:
  assumes "pt_tables m p = Some t" and "pt_tables m q = None"
  shows "pt_tables (link_table p i q e m) = (pt_tables m)(q \<mapsto> (\<lambda>_. 0), p \<mapsto> t(i := e))"
proof -
  have "p \<noteq> q" using assms by auto
  with assms(1) show ?thesis by (simp add: link_table_def pt_write_def)
qed

lemma child_link:
  assumes "pt_tables m p = Some t" and "pt_tables m q = None" and "page_base e = q" and "e AND 1 \<noteq> 0"
  shows "child (link_table p i q e m) x j = (if x = p \<and> j = i then Some q else if x = q then None else child m x j)"
  using assms(1,2) assms(3,4) by (auto simp: child_def link_tables[OF assms(1,2)])

lemma path_link:
  assumes F: "forest m R" and r0: "r0 \<in> R" "length is < 3" "path m r0 is = Some p" and t: "pt_tables m p = Some t"
    and q: "pt_tables m q = None" and e: "page_base e = q" "e AND 1 \<noteq> 0" and abs: "child m p i = None"
    and r: "r \<in> R" and n: "length js \<le> 3"
  shows "path (link_table p i q e m) r js = (if r = r0 \<and> js = is @ [i] then Some q else path m r js)"
  using n
proof (induction js rule: rev_induct)
  case Nil
  then show ?case by simp
next
  case (snoc j js)
  then have IH: "path (link_table p i q e m) r js = (if r = r0 \<and> js = is @ [i] then Some q else path m r js)"
    and n: "length js \<le> 3" by simp_all
  note child = child_link[OF t q e]
  show ?case
  proof (cases "r = r0 \<and> js = is @ [i]")
    case True
    then have "path m r js = None" using r0(3) abs by (simp add: path_snoc)
    moreover have "p \<noteq> q" using t q by auto
    ultimately have "path (link_table p i q e m) r (js @ [j]) = None" "path m r (js @ [j]) = None"
      using True IH by (simp_all only: path_snoc) (simp_all add: child)
    moreover have "js @ [j] \<noteq> is @ [i]" using True by simp
    ultimately show ?thesis by simp
  next
    case False
    then have IH: "path (link_table p i q e m) r js = path m r js" using IH by (simp only: if_False)
    show ?thesis
    proof (cases "path m r js")
      case None
      then have "\<not> (r = r0 \<and> js = is)" using r0(3) by auto
      then show ?thesis using None IH by (auto simp: path_snoc)
    next
      case (Some x)
      obtain t' where "pt_tables m x = Some t'" by (rule forest_table[OF F r n Some])
      then have xq: "x \<noteq> q" using q by auto
      have "x = p \<longleftrightarrow> r = r0 \<and> js = is"
        using forest_inj[OF F r r0(1) n _ Some, of "is"] r0 Some by auto
      then show ?thesis using Some IH xq by (auto simp: path_snoc child)
    qed
  qed
qed

lemma link_forest:
  assumes F: "forest m R" and r0: "r0 \<in> R" "length is < 3" "path m r0 is = Some p" and t: "pt_tables m p = Some t"
    and q: "pt_tables m q = None" and e: "page_base e = q" "e AND 1 \<noteq> 0" and abs: "child m p i = None"
  shows "forest (link_table p i q e m) R"
    and "r \<in> R \<Longrightarrow> length js = 3 \<Longrightarrow> leaf (link_table p i q e m) r js j = leaf m r js j"
proof -
  note path = path_link[OF assms]
  have old: "x \<noteq> q" if "r \<in> R" "length js \<le> 3" "path m r js = Some x" for r js x
  proof -
    note h = that
    obtain t' where "pt_tables m x = Some t'" by (rule forest_table[OF F h])
    then show ?thesis using q by auto
  qed
  show "forest (link_table p i q e m) R"
    unfolding forest_def
  proof (intro conjI ballI allI impI)
    fix r js x assume r: "r \<in> R" "length js \<le> 3" and x: "path (link_table p i q e m) r js = Some x"
    have "x = q \<or> path m r js = Some x" using x unfolding path[OF r] by (simp split: if_split_asm)
    then show "pt_tables (link_table p i q e m) x \<noteq> None"
    proof
      assume "path m r js = Some x"
      from forest_table[OF F r this] obtain t' where "pt_tables m x = Some t'" .
      then show ?thesis unfolding link_tables[OF t q] by simp
    qed (simp add: link_tables[OF t q])
  next
    fix r r' js js' x
    assume r: "r \<in> R" "r' \<in> R" "length js \<le> 3" "length js' \<le> 3"
      and x: "path (link_table p i q e m) r js = Some x" "path (link_table p i q e m) r' js' = Some x"
    have c: "r = r0 \<and> js = is @ [i] \<and> x = q \<or> path m r js = Some x"
      "r' = r0 \<and> js' = is @ [i] \<and> x = q \<or> path m r' js' = Some x"
      using x unfolding path[OF r(1,3)] path[OF r(2,4)] by (simp_all split: if_split_asm)
    have "r = r' \<and> js = js'"
      using c old[OF r(1,3), of q] old[OF r(2,4), of q] forest_inj[OF F r, of x] by blast
    then show "r = r'" "js = js'" by simp_all
  qed
  assume r: "r \<in> R" "length js = 3"
  have "path m r js \<noteq> Some p" using forest_inj[OF F r(1) r0(1), of js "is" p] r0 r(2) by auto
  moreover have "r = r0 \<and> js = is @ [i] \<Longrightarrow> path m r js = None" using r0(3) abs by (simp add: path_snoc)
  moreover have "p \<noteq> q" using t q by auto
  moreover have "path m r js \<noteq> Some q" using old[OF r(1), of js q] r(2) by auto
  ultimately show "leaf (link_table p i q e m) r js j = leaf m r js j"
    using r unfolding leaf_def by (simp add: path link_tables[OF t q] split: option.split)
qed

text \<open>The entry of a page is written.\<close>

lemma leaf_write:
  assumes F: "forest m R" and r0: "r0 \<in> R" "length is = 3" "path m r0 is = Some p" and t: "pt_tables m p = Some t"
  shows "forest (pt_write p i e m) R"
    and "r \<in> R \<Longrightarrow> length js = 3 \<Longrightarrow>
      leaf (pt_write p i e m) r js j = (if r = r0 \<and> js = is \<and> j = i then e else leaf m r js j)"
proof -
  have tabs: "pt_tables (pt_write p i e m) = (pt_tables m)(p \<mapsto> t(i := e))" using t by (simp add: pt_write_def)
  have path: "path (pt_write p i e m) r js = path m r js" if r: "r \<in> R" and n: "length js \<le> 3" for r js
    using n
  proof (induction js rule: rev_induct)
    case (snoc j js)
    have "path m r js \<noteq> Some p" using forest_inj[OF F r r0(1), of js "is" p] r0(2,3) snoc.prems by auto
    then have "child (pt_write p i e m) x j = child m x j" if "path m r js = Some x" for x
      using that by (auto simp: child_def tabs)
    then show ?case using snoc by (simp add: path_snoc split: option.split)
  qed simp
  have dom: "(pt_tables (pt_write p i e m) q = None) = (pt_tables m q = None)" for q using t by (simp add: tabs)
  show "forest (pt_write p i e m) R"
    unfolding forest_def dom
  proof (intro conjI ballI allI impI)
    fix r js x assume r: "r \<in> R" "length js \<le> 3" and x: "path (pt_write p i e m) r js = Some x"
    show "pt_tables m x \<noteq> None" using x forest_table[OF F r, of x] unfolding path[OF r] by auto
  next
    fix r r' js js' x
    assume r: "r \<in> R" "r' \<in> R" "length js \<le> 3" "length js' \<le> 3"
      and x: "path (pt_write p i e m) r js = Some x" "path (pt_write p i e m) r' js' = Some x"
    show "r = r'" "js = js'" using forest_inj[OF F r, of x] x unfolding path[OF r(1,3)] path[OF r(2,4)] by simp_all
  qed
  assume r: "r \<in> R" "length js = 3"
  have "path m r js = Some p \<longleftrightarrow> r = r0 \<and> js = is"
    using forest_inj[OF F r(1) r0(1), of js "is" p] r0(2,3) r(2) by auto
  then show "leaf (pt_write p i e m) r js j = (if r = r0 \<and> js = is \<and> j = i then e else leaf m r js j)"
    using r t unfolding leaf_def by (auto simp: path tabs split: option.split)
qed

subsection \<open>Looking a page up\<close>

lemma vm_walk_leaf:
  assumes "\<And>js q. length js \<le> length is \<Longrightarrow> path m p js = Some q \<Longrightarrow> pt_tables m q \<noteq> None"
  shows "vm_walk m is p j = Some (drop_bit 12 (leaf m p is j), ucast (leaf m p is j AND 0xfff))"
  using assms
proof (induction "is" arbitrary: p)
  case Nil
  from Nil[of "[]" p] show ?case by (auto simp: leaf_def)
next
  case (Cons i "is")
  from Cons.prems[of "[]" p] obtain t where t: "pt_tables m p = Some t" by auto
  show ?case
  proof (cases "t i AND 1 = 0")
    case True
    then have "leaf m p (i # is) j = 0" using t by (simp add: leaf_def child_def)
    then show ?thesis using True t by simp
  next
    case False
    then have c: "child m p i = Some (page_base (t i))" using t by (simp add: child_def)
    have "vm_walk m is (page_base (t i)) j =
        Some (drop_bit 12 (leaf m (page_base (t i)) is j), ucast (leaf m (page_base (t i)) is j AND 0xfff))"
      by (rule Cons.IH) (use Cons.prems[of "i # js" q for js q] c in auto)
    then show ?thesis using False t c by (simp add: leaf_def)
  qed
qed

lemma vm_lookup_leaf:
  assumes "forest m R" and "r \<in> R"
  shows "vm_lookup m r vpage = Some (drop_bit 12 (leaf m r (upper_indices vpage) (pt_index vpage)),
    ucast (leaf m r (upper_indices vpage) (pt_index vpage) AND 0xfff))"
  unfolding vm_lookup_def
proof (rule vm_walk_leaf)
  fix js q assume "length js \<le> length (upper_indices vpage)" "path m r js = Some q"
  then show "pt_tables m q \<noteq> None" using forest_table[OF assms, of js q] by auto
qed

subsection \<open>Mapping a page\<close>

text \<open>What the port relies on: tables come from \<open>posix_memalign\<close>, on page boundaries.\<close>

locale table_allocator =
  fixes A :: pt_alloc
  assumes table_fresh: "A n used \<noteq> NULL \<Longrightarrow> \<not> used (A n used)"
    and table_aligned: "take_bit 12 (A n used) = 0"
begin

lemma map_level_ok:
  assumes F: "forest m R" and r0: "r0 \<in> R" "length is < 3" "path m r0 is = Some p"
    and ml: "map_level A flags i p m = Some (q, m')"
  shows "forest m' R" and "path m' r0 (is @ [i]) = Some q"
    and "r \<in> R \<Longrightarrow> length js = 3 \<Longrightarrow> leaf m' r js j = leaf m r js j"
proof -
  have n: "length is \<le> 3" using r0(2) by simp
  obtain t where t: "pt_tables m p = Some t" by (rule forest_table[OF F r0(1) n r0(3)])
  have "forest m' R \<and> path m' r0 (is @ [i]) = Some q \<and>
    (\<forall>r \<in> R. \<forall>js. length js = 3 \<longrightarrow> (\<forall>j. leaf m' r js j = leaf m r js j))"
  proof (cases "t i AND 1 = 0")
    case False
    let ?e = "if flags AND 4 \<noteq> 0 then t i OR 4 else t i"
    have e: "page_base ?e = page_base (t i)" "?e AND 1 \<noteq> 0" using False entry_user[of "t i"] by auto
    have q: "q = page_base (t i)" "m' = pt_write p i ?e m"
      using ml False t e(1) by (auto simp: map_level_def Let_def)
    have "path m r0 (is @ [i]) = Some q" using t False r0(3) q(1) by (simp add: path_snoc child_def)
    then show ?thesis using rewrite_forest[OF F r0 t e False] unfolding q(2) by auto
  next
    case True
    let ?q = "A (pt_allocs m) (\<lambda>q. pt_tables m q \<noteq> None)"
    let ?e = "if flags AND 4 \<noteq> 0 then (3 OR ?q) OR 4 else 3 OR ?q"
    have ne: "?q \<noteq> NULL" and q: "q = ?q" and m': "m' = link_table p i ?q ?e m"
      using ml True t by (auto simp: map_level_def table_alloc_def link_table_def Let_def split: if_split_asm)
    have fresh: "pt_tables m ?q = None" using table_fresh[OF ne] by simp
    have e: "page_base ?e = ?q" "?e AND 1 \<noteq> 0"
      using entry_new[OF table_aligned, of "pt_allocs m" "\<lambda>q. pt_tables m q \<noteq> None"] entry_user[of "3 OR ?q"] by auto
    have c: "child m p i = None" using True t by (simp add: child_def)
    have "path m' r0 (is @ [i]) = Some q"
      using path_link[OF F r0 t fresh e c r0(1), of "is @ [i]"] r0(2) unfolding m' q by simp
    then show ?thesis using link_forest[OF F r0 t fresh e c] unfolding m' by simp
  qed
  then show "forest m' R" "path m' r0 (is @ [i]) = Some q"
    "r \<in> R \<Longrightarrow> length js = 3 \<Longrightarrow> leaf m' r js j = leaf m r js j" by simp_all
qed

lemma map_levels_ok:
  assumes "forest m R" and "r0 \<in> R" and "length (ks @ is) \<le> 3" and "path m r0 ks = Some p"
    and "map_levels A flags is p m = Some (q, m')"
  shows "forest m' R \<and> path m' r0 (ks @ is) = Some q \<and>
    (\<forall>r \<in> R. \<forall>js. length js = 3 \<longrightarrow> (\<forall>j. leaf m' r js j = leaf m r js j))"
  using assms
proof (induction "is" arbitrary: ks p m)
  case (Cons i "is")
  from Cons.prems(5) obtain p1 m1 where m1: "map_level A flags i p m = Some (p1, m1)"
    and ml: "map_levels A flags is p1 m1 = Some (q, m')" by (auto split: option.split_asm)
  have n: "length ks < 3" using Cons.prems(3) by simp
  note step = map_level_ok[OF Cons.prems(1,2) n Cons.prems(4) m1]
  have "forest m' R \<and> path m' r0 ((ks @ [i]) @ is) = Some q \<and>
    (\<forall>r \<in> R. \<forall>js. length js = 3 \<longrightarrow> (\<forall>j. leaf m' r js j = leaf m1 r js j))"
    using Cons.prems(3) by (intro Cons.IH[OF step(1) Cons.prems(2) _ step(2) ml]) simp
  then show ?case using step(3) by simp
qed simp

lemma vm_map_ok:
  assumes F: "forest m R" and r0: "r0 \<in> R" and mp: "vm_map A m r0 vpage d f = Some m'"
  shows "forest m' R"
    and "r \<in> R \<Longrightarrow> length js = 3 \<Longrightarrow> leaf m' r js j =
      (if r = r0 \<and> js = upper_indices vpage \<and> j = pt_index vpage then push_bit 12 d OR ucast f else leaf m r js j)"
proof -
  obtain q m1 t where ml: "map_levels A f (upper_indices vpage) r0 m = Some (q, m1)" and t: "pt_tables m1 q = Some t"
    and m': "m' = pt_write q (pt_index vpage) (push_bit 12 d OR ucast f) m1"
    using mp by (auto simp: vm_map_def split: option.split_asm)
  note n = upper_length(1)[of vpage]
  have step: "forest m1 R \<and> path m1 r0 (upper_indices vpage) = Some q \<and>
    (\<forall>r \<in> R. \<forall>js. length js = 3 \<longrightarrow> (\<forall>j. leaf m1 r js j = leaf m r js j))"
    using map_levels_ok[OF F r0 _ _ ml, of "[]"] n by simp
  then have F1: "forest m1 R" and p1: "path m1 r0 (upper_indices vpage) = Some q" by simp_all
  note w = leaf_write[OF F1 r0 n p1 t]
  show "forest m' R" unfolding m' by (rule w(1))
  show "r \<in> R \<Longrightarrow> length js = 3 \<Longrightarrow> leaf m' r js j =
      (if r = r0 \<and> js = upper_indices vpage \<and> j = pt_index vpage then push_bit 12 d OR ucast f else leaf m r js j)"
    unfolding m' using w(2)[of r js] step by simp
qed

lemma vm_lookup_map:
  assumes F: "forest m R" and R: "r0 \<in> R" "r \<in> R" and pq: "p < 2 ^ 36" "q < 2 ^ 36" and df: "d < 2 ^ 52" "f < 0x1000"
    and mp: "vm_map A m r0 p d f = Some m'"
  shows "vm_lookup m' r q = (if r = r0 \<and> q = p then Some (d, f) else vm_lookup m r q)"
proof -
  have "leaf m' r (upper_indices q) (pt_index q) =
      (if r = r0 \<and> q = p then push_bit 12 d OR ucast f else leaf m r (upper_indices q) (pt_index q))"
    using vm_map_ok(2)[OF F R(1) mp R(2) upper_length(1)] indices_inj[OF pq(2,1)] by auto
  then show ?thesis
    using leaf_page[OF df] unfolding vm_lookup_leaf[OF vm_map_ok(1)[OF F R(1) mp] R(2)] vm_lookup_leaf[OF F R(2)] by simp
qed

text \<open>A page that is mapped has all its tables, so that mapping it again needs no memory.\<close>

lemma map_levels_present:
  assumes "forest m R" and "r0 \<in> R" and "length (ks @ is) \<le> 3" and "path m r0 ks = Some p"
    and "path m r0 (ks @ is) \<noteq> None"
  shows "map_levels A flags is p m \<noteq> None"
  using assms
proof (induction "is" arbitrary: ks p m)
  case (Cons i "is")
  have n: "length ks < 3" "length ks \<le> 3" using Cons.prems(3) by simp_all
  obtain t where t: "pt_tables m p = Some t" by (rule forest_table[OF Cons.prems(1,2) n(2) Cons.prems(4)])
  have "path m r0 (ks @ [i]) \<noteq> None"
    using Cons.prems(5) path_append[of m r0 "ks @ [i]" "is"] by (auto split: option.split_asm)
  then have c: "t i AND 1 \<noteq> 0" using Cons.prems(4) t by (auto simp: path_snoc child_def split: if_split_asm)
  let ?e = "if flags AND 4 \<noteq> 0 then t i OR 4 else t i"
  have e: "page_base ?e = page_base (t i)" "?e AND 1 \<noteq> 0" using c entry_user[of "t i"] by auto
  let ?m = "pt_write p i ?e m"
  have ml: "map_level A flags i p m = Some (page_base ?e, ?m)" using t c by (simp add: map_level_def Let_def)
  note step = map_level_ok[OF Cons.prems(1,2) n(1) Cons.prems(4) ml]
  have "path ?m r0 ((ks @ [i]) @ is) \<noteq> None"
    using Cons.prems(5) rewrite_forest(1)[OF Cons.prems(1,2) n(1) Cons.prems(4) t e c] by simp
  then have "map_levels A flags is (page_base ?e) ?m \<noteq> None"
    using Cons.prems(3) by (intro Cons.IH[OF step(1) Cons.prems(2) _ step(2)]) simp_all
  then show ?case by (simp only: map_levels.simps ml option.case prod.case not_False_eq_True)
qed simp

lemma vm_map_present:
  assumes F: "forest m R" and r0: "r0 \<in> R" and l: "vm_lookup m r0 p \<noteq> Some (0, 0)"
  shows "vm_map A m r0 p d f \<noteq> None"
proof -
  have n: "length ([] @ upper_indices p) \<le> 3" by simp
  have "path m r0 (upper_indices p) \<noteq> None"
    using l unfolding vm_lookup_leaf[OF F r0] by (cases "path m r0 (upper_indices p)") (simp_all add: leaf_def)
  then obtain q m1 where ml: "map_levels A f (upper_indices p) r0 m = Some (q, m1)"
    using map_levels_present[OF F r0 n] by fastforce
  have "forest m1 R" "path m1 r0 (upper_indices p) = Some q"
    using map_levels_ok[OF F r0 n _ ml] by simp_all
  then obtain t where "pt_tables m1 q = Some t" using forest_table[of m1 R r0 "upper_indices p" q] r0 n by auto
  then show ?thesis using ml by (simp add: vm_map_def)
qed

text \<open>A new address space is empty and apart from all others.\<close>

lemma vm_root_alloc_ok:
  assumes F: "forest m R" and ra: "vm_root_alloc A m = Some (r, m')"
  shows "r \<notin> R" and "forest m' (insert r R)" and "vm_lookup m' r q = Some (0, 0)"
    and "r' \<in> R \<Longrightarrow> vm_lookup m' r' q = vm_lookup m r' q"
proof -
  have r: "r \<noteq> NULL" "r = A (pt_allocs m) (\<lambda>q. pt_tables m q \<noteq> None)"
    and tabs: "pt_tables m' = (pt_tables m)(r \<mapsto> (\<lambda>_. 0))"
    using ra by (auto simp: vm_root_alloc_def table_alloc_def Let_def split: if_split_asm)
  have fresh: "pt_tables m r = None" using table_fresh[of "pt_allocs m" "\<lambda>q. pt_tables m q \<noteq> None"] r by simp
  have old: "x \<noteq> r" if "r' \<in> R" "length js \<le> 3" "path m r' js = Some x" for r' js x
    using that F fresh unfolding forest_def by blast
  show R: "r \<notin> R" using old[of r "[]" r] by auto
  have new: "path m' r js = (if js = [] then Some r else None)" for js
    by (cases js) (simp_all add: child_def tabs)
  have path: "path m' r' js = path m r' js" if "r' \<in> R" "length js \<le> 3" for r' js
    using that(2)
  proof (induction js rule: rev_induct)
    case (snoc j js)
    have "child m' x j = child m x j" if "path m r' js = Some x" for x
      using old[OF \<open>r' \<in> R\<close> _ that] snoc.prems by (simp add: child_def tabs)
    then show ?case using snoc by (simp add: path_snoc split: option.split)
  qed simp
  have tab: "pt_tables m' x = pt_tables m x" if "r' \<in> R" "length js \<le> 3" "path m r' js = Some x" for r' js x
    using old[OF that] by (simp add: tabs)
  show F': "forest m' (insert r R)"
    unfolding forest_def
  proof (intro conjI ballI allI impI)
    fix r1 js x assume h: "r1 \<in> insert r R" "length js \<le> 3" "path m' r1 js = Some x"
    show "pt_tables m' x \<noteq> None"
    proof (cases "r1 = r")
      case True
      then show ?thesis using h(3) new[of js] by (simp add: tabs split: if_split_asm)
    next
      case False
      then have r1: "r1 \<in> R" "path m r1 js = Some x" using h path[of r1 js] by simp_all
      show ?thesis unfolding tab[OF r1(1) h(2) r1(2)] using forest_table[OF F r1(1) h(2) r1(2)] by auto
    qed
  next
    fix r1 r2 js ks x
    assume h: "r1 \<in> insert r R" "r2 \<in> insert r R" "length js \<le> 3" "length ks \<le> 3"
      "path m' r1 js = Some x" "path m' r2 ks = Some x"
    have c: "r1 = r \<and> js = [] \<and> x = r \<or> r1 \<in> R \<and> path m r1 js = Some x"
      "r2 = r \<and> ks = [] \<and> x = r \<or> r2 \<in> R \<and> path m r2 ks = Some x"
      using h path[of r1 js] path[of r2 ks] new[of js] new[of ks] by (auto split: if_split_asm)
    have "r1 = r2 \<and> js = ks"
      using c old[of r1 js r] old[of r2 ks r] forest_inj[OF F, of r1 r2 js ks x] h(3,4) by blast
    then show "r1 = r2" "js = ks" by simp_all
  qed
  have "leaf m' r (upper_indices q) (pt_index q) = 0"
    using new[of "upper_indices q"] by (simp add: leaf_def)
  then show "vm_lookup m' r q = Some (0, 0)" unfolding vm_lookup_leaf[OF F' insertI1] by simp
  assume r': "r' \<in> R"
  have "leaf m' r' (upper_indices q) (pt_index q) = leaf m r' (upper_indices q) (pt_index q)"
    using path[OF r', of "upper_indices q"] tab[OF r', of "upper_indices q"] by (simp add: leaf_def split: option.split)
  then show "vm_lookup m' r' q = vm_lookup m r' q"
    unfolding vm_lookup_leaf[OF F' insertI2[OF r']] vm_lookup_leaf[OF F r'] by simp
qed

end

subsection \<open>Freeing an address space\<close>

text \<open>\<open>shrunk m' m D\<close>: from \<open>m\<close> to \<open>m'\<close> no table outside \<open>D\<close> was freed, and none was changed.\<close>

definition shrunk :: "ptmem \<Rightarrow> ptmem \<Rightarrow> addr set \<Rightarrow> bool" where
  "shrunk m' m D \<longleftrightarrow> (\<forall>x. pt_tables m' x = pt_tables m x \<or> x \<in> D \<and> pt_tables m' x = None)"

lemma shrunk_at: "shrunk m' m D \<Longrightarrow> pt_tables m' x = pt_tables m x \<or> x \<in> D \<and> pt_tables m' x = None"
  unfolding shrunk_def by (elim allE)

lemma shrunk_trans:
  assumes "shrunk m2 m1 D1" and "shrunk m1 m D"
  shows "shrunk m2 m (D \<union> D1)"
  unfolding shrunk_def
proof
  fix x show "pt_tables m2 x = pt_tables m x \<or> x \<in> D \<union> D1 \<and> pt_tables m2 x = None"
    using shrunk_at[OF assms(1), of x] shrunk_at[OF assms(2), of x] by auto
qed

lemma shrunk_mono: "shrunk m' m D \<Longrightarrow> D \<subseteq> D' \<Longrightarrow> shrunk m' m D'"
  unfolding shrunk_def by auto

lemma shrunk_path:
  assumes "shrunk m' m D" and "path m' p is = Some q"
  shows "path m p is = Some q"
  using assms(2)
proof (induction "is" arbitrary: p)
  case (Cons i "is")
  have "child m' p i = Some x \<Longrightarrow> child m p i = Some x" for x
    using shrunk_at[OF assms(1), of p] by (auto simp: child_def)
  then show ?case using Cons by (auto split: option.split_asm)
qed simp

text \<open>The tables below \<open>p\<close> that lie within \<open>k\<close> levels.\<close>

definition below :: "ptmem \<Rightarrow> nat \<Rightarrow> addr \<Rightarrow> addr set" where
  "below m k p = {x. \<exists>is. length is \<le> k \<and> path m p is = Some x}"

lemma below_shrunk: "shrunk m' m D \<Longrightarrow> below m' k p \<subseteq> below m k p"
  unfolding below_def using shrunk_path by blast

lemma below_child:
  assumes "child m p i = Some q"
  shows "below m k q \<subseteq> below m (Suc k) p"
proof
  fix x assume "x \<in> below m k q"
  then obtain js where "length js \<le> k" "path m q js = Some x" by (auto simp: below_def)
  then show "x \<in> below m (Suc k) p" using assms by (auto simp: below_def intro!: exI[of _ "i # js"])
qed

lemma below_self: "p \<in> below m k p"
  unfolding below_def by (auto intro: exI[of _ "[]"])

definition free_entry :: "nat \<Rightarrow> addr \<Rightarrow> nat \<Rightarrow> ptmem \<Rightarrow> ptmem option" where
  "free_entry k table i m = (case pt_tables m table of
      None \<Rightarrow> None
    | Some t \<Rightarrow> if t i AND 1 \<noteq> 0 then table_free k (page_base (t i)) m else Some m)"

lemma table_free_Suc:
  "table_free (Suc k) table m =
     Option.bind (foldl (\<lambda>r i. Option.bind r (free_entry k table i)) (Some m) [0..<0x200]) (pt_free table)"
  unfolding table_free.simps free_entry_def by (rule refl)

text \<open>Freeing in many short critical sections has the effect of freeing in one.\<close>

lemma free_one_async:
  "Option.bind (pt_cpu_lock (m, False)) (\<lambda>mc. Option.bind (pt_free_critical table mc) pt_cpu_unlock) =
    map_option (\<lambda>m. (m, False)) (pt_free table m)"
  by (simp add: pt_cpu_lock_def pt_cpu_unlock_def pt_free_critical_def option.map_comp split: bind_splits option.split)

lemma bind_lift:
  assumes "\<And>m. g (m, False) = map_option (\<lambda>m. (m, False)) (f m)"
  shows "Option.bind (map_option (\<lambda>m. (m, False)) r) g = map_option (\<lambda>m. (m, False)) (Option.bind r f)"
  using assms by (cases r) simp_all

lemma foldl_lift:
  assumes "\<And>i m. g i (m, False) = map_option (\<lambda>m. (m, False)) (f i m)"
  shows "foldl (\<lambda>r i. Option.bind r (g i)) (map_option (\<lambda>m. (m, False)) r) is =
    map_option (\<lambda>m. (m, False)) (foldl (\<lambda>r i. Option.bind r (f i)) r is)"
proof (induction "is" arbitrary: r)
  case (Cons i "is")
  have "Option.bind (map_option (\<lambda>m. (m, False)) r) (g i) = map_option (\<lambda>m. (m, False)) (Option.bind r (f i))"
    by (rule bind_lift) (rule assms)
  then show ?case using Cons.IH by simp
qed simp

lemma table_free_async_same: "table_free_async k table (m, False) = map_option (\<lambda>m. (m, False)) (table_free k table m)"
proof (induction k arbitrary: table m)
  case 0
  show ?case by (simp add: free_one_async)
next
  case (Suc k)
  let ?g = "\<lambda>i mc. case pt_tables (fst mc) table of None \<Rightarrow> None
          | Some t \<Rightarrow> if t i AND 1 \<noteq> 0 then table_free_async k (page_base (t i)) mc else Some mc"
  have "?g i (m, False) = map_option (\<lambda>m. (m, False)) (free_entry k table i m)" for i m
    using Suc.IH by (simp add: free_entry_def split: option.split)
  note lift = foldl_lift[of ?g, OF this, of "Some m", unfolded option.map(2)]
  show ?case
    unfolding table_free_Suc table_free_async.simps lift by (rule bind_lift) (rule free_one_async)
qed

lemma vm_root_free_async_same: "vm_root_free_async (m, False) root = map_option (\<lambda>m. (m, False)) (vm_root_free m root)"
  by (simp add: vm_root_free_async_def vm_root_free_def table_free_async_same)

lemma free_entries_shrunk:
  assumes IH: "\<And>p m m'. table_free k p m = Some m' \<Longrightarrow> shrunk m' m (below m k p)"
    and "foldl (\<lambda>r i. Option.bind r (free_entry k p i)) (Some m) is = Some m'"
  shows "shrunk m' m (below m (Suc k) p)"
  using assms(2)
proof (induction "is" arbitrary: m' rule: rev_induct)
  case Nil
  then show ?case by (simp add: shrunk_def)
next
  case (snoc i "is")
  from snoc.prems obtain m1 where m1: "foldl (\<lambda>r i. Option.bind r (free_entry k p i)) (Some m) is = Some m1"
    and fe: "free_entry k p i m1 = Some m'" by (auto simp: bind_eq_Some_conv)
  note s1 = snoc.IH[OF m1]
  have "shrunk m' m1 (below m1 (Suc k) p)"
  proof (cases "child m1 p i")
    case None
    then have "m' = m1" using fe by (auto simp: free_entry_def child_def split: option.split_asm if_split_asm)
    then show ?thesis by (simp add: shrunk_def)
  next
    case (Some q)
    then have "table_free k q m1 = Some m'" using fe by (auto simp: free_entry_def child_def split: option.split_asm if_split_asm)
    from shrunk_mono[OF IH[OF this] below_child[OF Some]] show ?thesis .
  qed
  from shrunk_trans[OF this s1] below_shrunk[OF s1, of "Suc k" p] show ?case by (elim shrunk_mono) simp
qed

lemma table_free_shrunk: "table_free k p m = Some m' \<Longrightarrow> shrunk m' m (below m k p)"
proof (induction k arbitrary: p m m')
  case 0
  then show ?case by (auto simp: pt_free_def shrunk_def below_self split: if_split_asm)
next
  case (Suc k)
  from iffD1[OF bind_eq_Some_conv Suc.prems[unfolded table_free_Suc]] obtain m1 where
    m1: "foldl (\<lambda>r i. Option.bind r (free_entry k p i)) (Some m) [0..<0x200] = Some m1" and f: "pt_free p m1 = Some m'"
    by blast
  have "shrunk m' m1 {p}" using f by (auto simp: pt_free_def shrunk_def split: if_split_asm)
  moreover have "shrunk m1 m (below m (Suc k) p)" by (rule free_entries_shrunk[OF _ m1]) (rule Suc.IH)
  ultimately have "shrunk m' m (below m (Suc k) p \<union> {p})" by (rule shrunk_trans)
  then show ?case using below_self[of p m "Suc k"] by (elim shrunk_mono) simp
qed

lemma vm_root_free_ok:
  assumes F: "forest m (insert r R)" and r: "r \<notin> R" and fr: "vm_root_free m r = Some m'"
  shows "forest m' R" and "r' \<in> R \<Longrightarrow> vm_lookup m' r' q = vm_lookup m r' q"
proof -
  have sh: "shrunk m' m (below m 3 r)" using table_free_shrunk fr unfolding vm_root_free_def by blast
  have apart: "x \<notin> below m 3 r" if "r' \<in> R" "length js \<le> 3" "path m r' js = Some x" for r' js x
  proof
    assume "x \<in> below m 3 r"
    then obtain ks where "length ks \<le> 3" "path m r ks = Some x" by (auto simp: below_def)
    with that forest_inj[OF F, of r' r js ks x] r show False by auto
  qed
  have tab: "pt_tables m' x = pt_tables m x" if "r' \<in> R" "length js \<le> 3" "path m r' js = Some x" for r' js x
    using shrunk_at[OF sh, of x] apart[OF that] by simp
  have path: "path m' r' js = path m r' js" if "r' \<in> R" "length js \<le> 3" for r' js
    using that(2)
  proof (induction js rule: rev_induct)
    case (snoc j js)
    have "child m' x j = child m x j" if "path m r' js = Some x" for x
      using tab[OF \<open>r' \<in> R\<close> _ that] snoc.prems by (simp add: child_def)
    then show ?case using snoc by (simp add: path_snoc split: option.split)
  qed simp
  have FR: "forest m R" using F unfolding forest_def by blast
  show F': "forest m' R"
    unfolding forest_def
  proof (intro conjI ballI allI impI)
    fix r1 js x assume h: "r1 \<in> R" "length js \<le> 3" "path m' r1 js = Some x"
    then have p: "path m r1 js = Some x" using path by simp
    show "pt_tables m' x \<noteq> None" unfolding tab[OF h(1,2) p] using forest_table[OF FR h(1,2) p] by auto
  next
    fix r1 r2 js ks x
    assume h: "r1 \<in> R" "r2 \<in> R" "length js \<le> 3" "length ks \<le> 3" "path m' r1 js = Some x" "path m' r2 ks = Some x"
    show "r1 = r2" "js = ks" using forest_inj[OF FR h(1-4), of x] h path by simp_all
  qed
  assume r': "r' \<in> R"
  have "leaf m' r' (upper_indices q) (pt_index q) = leaf m r' (upper_indices q) (pt_index q)"
    using path[OF r', of "upper_indices q"] tab[OF r', of "upper_indices q"] by (simp add: leaf_def split: option.split)
  then show "vm_lookup m' r' q = vm_lookup m r' q"
    unfolding vm_lookup_leaf[OF F' r'] vm_lookup_leaf[OF FR r'] by simp
qed

subsection \<open>The contract of the virtual memory\<close>

text \<open>
  The reference port as a platform. Where its code runs into a failed allocation, the platform
  reports the failure and changes nothing.
\<close>

definition env_tables :: pt_alloc where
  "env_tables n used = flat_alloc n 0x1000 used"

interpretation env_tables: table_allocator env_tables
proof
  show "env_tables n used \<noteq> NULL \<Longrightarrow> \<not> used (env_tables n used)" for n used
    using flat.alloc_fresh[of n "0x1000" used] by (simp add: env_tables_def flat_plat_def)
  show "take_bit 12 (env_tables n used) = 0" for n used
    using flat_pages.alloc_aligned[of n "0x1000" used] by (simp add: env_tables_def flat_plat_def)
qed

definition try_vm :: "ptmem option \<Rightarrow> ptmem \<Rightarrow> ptmem" where
  "try_vm r m = (case r of None \<Rightarrow> m | Some m' \<Rightarrow> m')"

definition env_plat :: "ptmem plat" where
  "env_plat = \<lparr>pf_alloc = flat_alloc, pf_junk = (\<lambda>_. 0xAAAA), pf_sizeof_state = 0x98,
     pf_sizeof_ui = 8, pf_second_length = 1000000,
     pf_vm_physical = (\<lambda>x. x), pf_vm_virtual = (\<lambda>x. x),
     pf_vm_root_alloc = (\<lambda>m. case vm_root_alloc env_tables m of None \<Rightarrow> (NULL, m) | Some rm \<Rightarrow> rm),
     pf_vm_map = (\<lambda>m root p d f. (vm_map env_tables m root p d f \<noteq> None, try_vm (vm_map env_tables m root p d f) m)),
     pf_vm_unmap = (\<lambda>m root p. try_vm (vm_unmap env_tables m root p) m),
     pf_vm_lookup = (\<lambda>m root p. case vm_lookup m root p of None \<Rightarrow> (0, 0) | Some e \<Rightarrow> e),
     pf_vm_root_free = (\<lambda>m root. try_vm (vm_root_free m root) m),
     pf_vm_root_free_async = (\<lambda>m root. try_vm (map_option fst (vm_root_free_async (m, False) root)) m),
     pf_task_cleanup = (\<lambda>m task. m)\<rparr>"

interpretation env_vm: vm_platform env_plat forest "\<lambda>p. p < 2 ^ 36"
proof
  fix m :: ptmem and R r and p d :: u64 and f :: u16
  assume h: "forest m R" "r \<in> R"
  show "forest (snd (pf_vm_map env_plat m r p d f)) R"
    using h env_tables.vm_map_ok(1)[OF h] by (auto simp: env_plat_def try_vm_def split: option.split)
  show "forest (pf_vm_unmap env_plat m r p) R"
    using h env_tables.vm_map_ok(1)[OF h] by (auto simp: env_plat_def try_vm_def vm_unmap_def split: option.split)
  show "pf_vm_lookup env_plat m r p \<noteq> (0, 0) \<Longrightarrow> fst (pf_vm_map env_plat m r p d f)"
    using env_tables.vm_map_present[OF h, of p d f] by (auto simp: env_plat_def split: option.split_asm)
  fix r' and q :: u64 assume r': "r' \<in> R" and pq: "p < 2 ^ 36" "q < 2 ^ 36"
  show "pf_vm_lookup env_plat (snd (pf_vm_map env_plat m r p d f)) r' q =
      (if r' = r \<and> q = p \<and> fst (pf_vm_map env_plat m r p d f) then (d, f) else pf_vm_lookup env_plat m r' q)"
    if "d < 2 ^ 52" "f < 0x1000"
    using env_tables.vm_lookup_map[OF h r' pq that] by (auto simp: env_plat_def try_vm_def split: option.split)
  have un: "pf_vm_lookup env_plat m r p = (0, 0)" if "vm_map env_tables m r p 0 0 = None"
  proof -
    have "vm_lookup m r p = Some (0, 0)" using env_tables.vm_map_present[OF h, of p 0 0] that by blast
    then show ?thesis by (simp add: env_plat_def)
  qed
  show "pf_vm_lookup env_plat (pf_vm_unmap env_plat m r p) r' q =
      (if r' = r \<and> q = p then (0, 0) else pf_vm_lookup env_plat m r' q)"
    using env_tables.vm_lookup_map[OF h r' pq, of 0 0] un
    by (cases "vm_map env_tables m r p 0 0") (auto simp: env_plat_def try_vm_def vm_unmap_def)
next
  fix m R r m'
  assume F: "forest m R" and ra: "pf_vm_root_alloc env_plat m = (r, m')"
  show "(r \<noteq> NULL \<longrightarrow> r \<notin> R \<and> forest m' (insert r R) \<and>
      (\<forall>q. q < 2 ^ 36 \<longrightarrow> pf_vm_lookup env_plat m' r q = (0, 0))) \<and> forest m' R \<and>
      (\<forall>root \<in> R. \<forall>q. q < 2 ^ 36 \<longrightarrow> pf_vm_lookup env_plat m' root q = pf_vm_lookup env_plat m root q)"
  proof (cases "vm_root_alloc env_tables m")
    case None
    then show ?thesis using ra F by (simp add: env_plat_def)
  next
    case (Some x)
    then have "vm_root_alloc env_tables m = Some (r, m')" using ra by (simp add: env_plat_def)
    note ok = env_tables.vm_root_alloc_ok[OF F this]
    have "forest m' R" using ok(2) unfolding forest_def by blast
    then show ?thesis using ok by (simp add: env_plat_def)
  qed
qed (simp_all add: env_plat_def)

interpretation env_alloc: page_allocator env_plat
proof
  show "pf_alloc env_plat n sz lv \<noteq> NULL \<Longrightarrow> \<not> lv (pf_alloc env_plat n sz lv)" for n sz lv
    using flat.alloc_fresh[of n sz lv] by (simp add: env_plat_def flat_plat_def)
  show "take_bit 12 (pf_alloc env_plat n sz lv) = 0" for n sz lv
    using flat_pages.alloc_aligned[of n sz lv] by (simp add: env_plat_def flat_plat_def)
qed

interpretation env_spaces: task_spaces env_plat forest "\<lambda>p. p < 2 ^ 36"
  by unfold_locales (erule order.strict_trans, simp)

subsection \<open>Equivalence with a flat map\<close>

datatype vm_op = Map_page u64 u64 u16 | Unmap_page u64

fun vm_run :: "pt_alloc \<Rightarrow> addr \<Rightarrow> vm_op list \<Rightarrow> ptmem \<Rightarrow> ptmem option" where
  "vm_run A root [] m = Some m"
| "vm_run A root (Map_page p d f # ops) m = Option.bind (vm_map A m root p d f) (vm_run A root ops)"
| "vm_run A root (Unmap_page p # ops) m = Option.bind (vm_unmap A m root p) (vm_run A root ops)"

fun flat_run :: "vm_op list \<Rightarrow> (u64 \<Rightarrow> u64 \<times> u16) \<Rightarrow> u64 \<Rightarrow> u64 \<times> u16" where
  "flat_run [] g = g"
| "flat_run (Map_page p d f # ops) g = flat_run ops (g(p := (d, f)))"
| "flat_run (Unmap_page p # ops) g = flat_run ops (g(p := (0, 0)))"

text \<open>Pages of 36 bits, page numbers of 52 bits and flags of 12 bits.\<close>

fun vm_op_ok :: "vm_op \<Rightarrow> bool" where
  "vm_op_ok (Map_page p d f) = (p < 2 ^ 36 \<and> d < 2 ^ 52 \<and> f < 0x1000)"
| "vm_op_ok (Unmap_page p) = (p < 2 ^ 36)"

lemma vm_run_flat:
  assumes "table_allocator A" and "forest m R" and "root \<in> R" and "list_all vm_op_ok ops"
    and "vm_run A root ops m = Some m'" and "\<And>q. q < 2 ^ 36 \<Longrightarrow> vm_lookup m root q = Some (g q)"
  shows "forest m' R \<and> (\<forall>q < 2 ^ 36. vm_lookup m' root q = Some (flat_run ops g q) \<and>
    (\<forall>r \<in> R - {root}. vm_lookup m' r q = vm_lookup m r q))"
  using assms(2-)
proof (induction ops arbitrary: m g)
  case (Cons op ops)
  obtain p d f m1 where op: "vm_map A m root p d f = Some m1" "vm_run A root ops m1 = Some m'"
    "flat_run (op # ops) g = flat_run ops (g(p := (d, f)))" and b: "p < 2 ^ 36" "d < 2 ^ 52" "f < 0x1000"
    using Cons.prems(3,4) by (cases op) (auto simp: vm_unmap_def bind_eq_Some_conv)
  note A = table_allocator.vm_lookup_map[OF assms(1) Cons.prems(1,2) _ b(1) _ b(2,3) op(1)]
  have F: "forest m1 R" by (rule table_allocator.vm_map_ok(1)[OF assms(1) Cons.prems(1,2) op(1)])
  have "forest m' R \<and> (\<forall>q < 2 ^ 36. vm_lookup m' root q = Some (flat_run ops (g(p := (d, f))) q) \<and>
    (\<forall>r \<in> R - {root}. vm_lookup m' r q = vm_lookup m1 r q))"
    by (rule Cons.IH[OF F Cons.prems(2)]) (use Cons.prems A[OF Cons.prems(2)] op(2) in auto)
  then show ?case using A op(3) by auto
qed simp

text \<open>C23: the page tables of the reference port are equivalent to flat maps. After any sequence of
  mappings and unmappings in a new address space, looking up any page gives what was mapped there last, or entry 0 and no
  flags, and every other address space reads as before.\<close>

theorem page_tables_flat:
  assumes "table_allocator A" and "forest m R" and "vm_root_alloc A m = Some (root, m0)"
    and "list_all vm_op_ok ops" and "vm_run A root ops m0 = Some m'" and "q < 2 ^ 36"
  shows "vm_lookup m' root q = Some (flat_run ops (\<lambda>_. (0, 0)) q) \<and>
    (\<forall>r \<in> R. vm_lookup m' r q = vm_lookup m r q)"
proof -
  note new = table_allocator.vm_root_alloc_ok[OF assms(1,2,3)]
  from vm_run_flat[OF assms(1) new(2) insertI1 assms(4,5) new(3)] new(1,4) assms(6)
  show ?thesis by auto
qed

definition empty_vm :: ptmem where
  "empty_vm = \<lparr>pt_tables = Map.empty, pt_allocs = 0\<rparr>"

theorem page_tables_flat_witness:
  "\<exists>root m0 m'. vm_root_alloc env_tables empty_vm = Some (root, m0) \<and>
     vm_run env_tables root [Map_page 5 7 3, Map_page 6 8 7, Unmap_page 5] m0 = Some m' \<and>
     vm_lookup m' root 6 = Some (8, 7) \<and> vm_lookup m' root 5 = Some (0, 0)"
proof -
  let ?ops = "[Map_page 5 7 3, Map_page 6 8 7, Unmap_page 5]"
  have F: "forest empty_vm {}" by (simp add: forest_def)
  obtain m0 where r: "vm_root_alloc env_tables empty_vm = Some (0x1000, m0)"
    and m0: "m0 = \<lparr>pt_tables = [0x1000 \<mapsto> (\<lambda>_. 0)], pt_allocs = 1\<rparr>"
    by (simp add: vm_root_alloc_def table_alloc_def empty_vm_def env_tables_def flat_alloc_def)
  obtain m' where run: "vm_run env_tables 0x1000 ?ops m0 = Some m'"
    by (simp add: m0 vm_map_def vm_unmap_def upper_indices_def pt_index_def map_level_def table_alloc_def env_tables_def
        flat_alloc_def pt_write_def page_base_def drop_bit_eq_div Let_def)
  have "vm_lookup m' 0x1000 6 = Some (8, 7)" "vm_lookup m' 0x1000 5 = Some (0, 0)"
    using page_tables_flat[OF env_tables.table_allocator_axioms F r _ run, of 6]
      page_tables_flat[OF env_tables.table_allocator_axioms F r _ run, of 5] by simp_all
  with r run show ?thesis by blast
qed

end
