(* ===== verification/Thread_Stacks.thy ===== *)
theory Thread_Stacks
  imports Thread Vm_Env
begin

unbundle bit_operations_syntax

text \<open>
  The stacks of a thread: their pages do not overlap, creating a thread maps exactly its stacks
  or changes nothing, and deallocating it unmaps and frees exactly them. What the platform's
  virtual memory does is the locale \<open>task_spaces\<close>.
\<close>

subsection \<open>Layout\<close>

lemma unat_kern_page:
  assumes "stack < 0x100000"
  shows "unat (kern_page stack) = 0x100000 + unat stack"
proof -
  have "unat stack < 0x100000" using assms by (simp add: word_less_nat_alt)
  then show ?thesis unfolding kern_page_def KERN_STACKS_PAGE_def by (subst unat_add_lem[THEN iffD1]) simp_all
qed

lemma unat_user_page:
  assumes "stack < 0x100000" and "i \<le> 0x100"
  shows "unat (user_page stack i) = 0x200000 + 0x100 * unat stack + i"
proof -
  have st: "unat stack < 0x100000" using assms by (simp add: word_less_nat_alt)
  have "push_bit 8 stack = stack * 0x100" by (simp add: push_bit_eq_mult)
  moreover have "unat (stack * 0x100) = unat stack * 0x100"
    using st by (subst unat_mult_lem[THEN iffD1]) simp_all
  ultimately have sh: "unat (push_bit 8 stack) = 0x100 * unat stack" by simp
  have "unat (USER_STACKS_PAGE + push_bit 8 stack) = 0x200000 + 0x100 * unat stack"
    using sh st unfolding USER_STACKS_PAGE_def by (subst unat_add_lem[THEN iffD1]) simp_all
  moreover have "unat (of_nat i :: u64) = i" using assms(2) by (simp add: unat_of_nat)
  ultimately show ?thesis
    using st assms(2) unfolding user_page_def by (subst unat_add_lem[THEN iffD1]) simp_all
qed

lemma user_page_inj:
  assumes "a < 0x100000" and "b < 0x100000" and "i < 0x100" and "j < 0x100"
  shows "user_page a i = user_page b j \<longleftrightarrow> a = b \<and> i = j"
proof
  assume eq: "user_page a i = user_page b j"
  have "0x100 * unat a + i = 0x100 * unat b + j"
    using unat_user_page[OF assms(1), of i] unat_user_page[OF assms(2), of j] assms(3,4) unfolding eq by simp
  moreover have "(0x100 * unat a + i) div 0x100 = unat a" "(0x100 * unat b + j) div 0x100 = unat b"
    using assms(3,4) by simp_all
  ultimately have "unat a = unat b \<and> i = j" by simp
  then show "a = b \<and> i = j" by (simp add: word_unat_eq_iff)
qed simp

lemma kern_page_user_page:
  assumes "a < 0x100000" and "b < 0x100000" and "j < 0x100"
  shows "kern_page a \<noteq> user_page b j"
proof
  assume "kern_page a = user_page b j"
  then have "0x100000 + unat a = 0x200000 + 0x100 * unat b + j"
    using unat_kern_page[OF assms(1)] unat_user_page[OF assms(2), of j] assms(3) by simp
  moreover have "unat a < 0x100000" using assms(1) by (simp add: word_less_nat_alt)
  ultimately show False by linarith
qed

lemma stack_page_bounds:
  assumes "stack < 0x100000" and "i < 0x100"
  shows "kern_page stack < 0x10200000" "user_page stack i < 0x10200000"
    "KERN_STACKS_PAGE \<le> kern_page stack" "kern_page stack < USER_STACKS_PAGE"
    "USER_STACKS_PAGE \<le> user_page stack i" "user_page stack i < DATA_PAGE"
proof -
  have st: "unat stack < 0x100000" using assms(1) by (simp add: word_less_nat_alt)
  note k = unat_kern_page[OF assms(1)] and u = unat_user_page[OF assms(1), of i]
  show "kern_page stack < 0x10200000" "user_page stack i < 0x10200000"
    "KERN_STACKS_PAGE \<le> kern_page stack" "kern_page stack < USER_STACKS_PAGE"
    "USER_STACKS_PAGE \<le> user_page stack i" "user_page stack i < DATA_PAGE"
    using st assms(2) k u
    by (simp_all add: word_less_nat_alt word_le_nat_alt KERN_STACKS_PAGE_def USER_STACKS_PAGE_def DATA_PAGE_def)
qed

text \<open>The top of a user stack is the end of its last page, and the address below it is in that page.\<close>

lemma drop_bit_top:
  assumes "unat p < 2 ^ 52 - 1"
  shows "drop_bit 12 (push_bit 12 (p + 1) - 1 :: u64) = p"
proof -
  have p1: "unat (p + 1) = unat p + 1" using assms by (subst unat_add_lem[THEN iffD1]) simp_all
  have "push_bit 12 (p + 1) = (p + 1) * 0x1000" by (simp add: push_bit_eq_mult)
  moreover have "unat ((p + 1) * 0x1000) = (unat p + 1) * 0x1000"
    using assms p1 by (subst unat_mult_lem[THEN iffD1]) simp_all
  ultimately have sh: "unat (push_bit 12 (p + 1)) = (unat p + 1) * 0x1000" by simp
  then have "(1 :: u64) \<le> push_bit 12 (p + 1)" by (simp add: word_le_nat_alt)
  then have "unat (push_bit 12 (p + 1) - 1) = (unat p + 1) * 0x1000 - 1" using sh by (simp add: unat_sub)
  then have "unat (drop_bit 12 (push_bit 12 (p + 1) - 1)) = unat p"
    by (simp add: drop_bit_eq_div unat_div)
  then show ?thesis by (simp add: word_unat_eq_iff)
qed

subsection \<open>Changes of an address space\<close>

text \<open>
  \<open>vm_upd P vp R v r m v'\<close>: from \<open>v\<close> to \<open>v'\<close> the address space \<open>r\<close> got the entries \<open>m\<close>, and nothing
  else changed in the address spaces \<open>R\<close>.
\<close>

definition vm_upd :: "'v plat \<Rightarrow> (u64 \<Rightarrow> bool) \<Rightarrow> addr set \<Rightarrow> 'v \<Rightarrow> addr \<Rightarrow> (u64 \<rightharpoonup> u64 \<times> u16) \<Rightarrow> 'v \<Rightarrow> bool" where
  "vm_upd P vp R v r m v' \<longleftrightarrow> (\<forall>root \<in> R. \<forall>q. vp q \<longrightarrow> pf_vm_lookup P v' root q =
     (case m q of Some e \<Rightarrow> if root = r then e else pf_vm_lookup P v root q | None \<Rightarrow> pf_vm_lookup P v root q))"

lemma vm_upd_refl: "vm_upd P vp R v r Map.empty v"
  by (simp add: vm_upd_def)

lemma vm_upd_at: "vm_upd P vp R v r m v' \<Longrightarrow> r \<in> R \<Longrightarrow> vp q \<Longrightarrow> m q = Some e \<Longrightarrow> pf_vm_lookup P v' r q = e"
  by (simp add: vm_upd_def)

lemma vm_upd_else:
  "vm_upd P vp R v r m v' \<Longrightarrow> r \<in> R \<Longrightarrow> vp q \<Longrightarrow> m q = None \<Longrightarrow> pf_vm_lookup P v' r q = pf_vm_lookup P v r q"
  by (simp add: vm_upd_def)

lemma vm_upd_trans:
  assumes "vm_upd P vp R v r m v'" and "vm_upd P vp R v' r m' v''"
  shows "vm_upd P vp R v r (m ++ m') v''"
  unfolding vm_upd_def
proof (intro ballI allI impI)
  fix root q assume "root \<in> R" "vp q"
  then show "pf_vm_lookup P v'' root q = (case (m ++ m') q of Some e \<Rightarrow> if root = r then e else pf_vm_lookup P v root q
      | None \<Rightarrow> pf_vm_lookup P v root q)"
    using assms unfolding vm_upd_def by (cases "m' q"; cases "m q") (simp_all add: map_add_def)
qed

context vm_platform
begin

lemma upd_map:
  assumes s: "spaces v R" "r \<in> R" and p: "vp p" "d < 2 ^ 52" "f < 0x1000"
    and u: "vm_upd P vp R v0 r m v" and m: "pf_vm_map P v r p d f = (ok, v')"
  shows "vm_upd P vp R v0 r (if ok then m(p \<mapsto> (d, f)) else m) v'" and "spaces v' R"
proof -
  show "spaces v' R" using map_spaces[OF s p(1), of d f] m by simp
  show "vm_upd P vp R v0 r (if ok then m(p \<mapsto> (d, f)) else m) v'"
    unfolding vm_upd_def
  proof (intro ballI allI impI)
    fix root q assume r: "root \<in> R" "vp q"
    have "pf_vm_lookup P v' root q = (if root = r \<and> q = p \<and> ok then (d, f) else pf_vm_lookup P v root q)"
      using map_lookup[OF s r(1) p(1) r(2) p(2,3)] m by simp
    moreover have "pf_vm_lookup P v root q = (case m q of Some e \<Rightarrow> if root = r then e else pf_vm_lookup P v0 root q
        | None \<Rightarrow> pf_vm_lookup P v0 root q)" using u r by (simp add: vm_upd_def)
    ultimately show "pf_vm_lookup P v' root q = (case (if ok then m(p \<mapsto> (d, f)) else m) q of
        Some e \<Rightarrow> if root = r then e else pf_vm_lookup P v0 root q | None \<Rightarrow> pf_vm_lookup P v0 root q)"
      by (cases "m q") auto
  qed
qed

text \<open>Unmapping a page that was not mapped at first takes its new entry back.\<close>

lemma upd_unmap:
  assumes s: "spaces v R" "r \<in> R" and p: "vp p" and u: "vm_upd P vp R v0 r m v" and z: "pf_vm_lookup P v0 r p = (0, 0)"
  shows "vm_upd P vp R v0 r (m(p := None)) (pf_vm_unmap P v r p)"
  unfolding vm_upd_def
proof (intro ballI allI impI)
  fix root q assume r: "root \<in> R" "vp q"
  have "pf_vm_lookup P (pf_vm_unmap P v r p) root q = (if root = r \<and> q = p then (0, 0) else pf_vm_lookup P v root q)"
    using unmap_lookup[OF s r(1) p r(2)] by simp
  moreover have "pf_vm_lookup P v root q = (case m q of Some e \<Rightarrow> if root = r then e else pf_vm_lookup P v0 root q
      | None \<Rightarrow> pf_vm_lookup P v0 root q)" using u r by (simp add: vm_upd_def)
  ultimately show "pf_vm_lookup P (pf_vm_unmap P v r p) root q = (case (m(p := None)) q of
      Some e \<Rightarrow> if root = r then e else pf_vm_lookup P v0 root q | None \<Rightarrow> pf_vm_lookup P v0 root q)"
    using z by (cases "m q") auto
qed

end

subsection \<open>Mapping the user stack\<close>

definition USER_FLAGS :: u16 where "USER_FLAGS = 0x206"

lemma user_flags: "PAGE_FLAG_UNALLOC OR PAGE_FLAG_USER OR PAGE_FLAG_WRITE = USER_FLAGS"
  by (simp add: USER_FLAGS_def PAGE_FLAG_UNALLOC_def PAGE_FLAG_USER_def PAGE_FLAG_WRITE_def)

text \<open>The entries of the first \<open>n\<close> pages of a user stack, and of the pages from \<open>j\<close> to \<open>n\<close>.\<close>

definition user_map :: "u64 \<Rightarrow> nat \<Rightarrow> nat \<Rightarrow> (u64 \<rightharpoonup> u64 \<times> u16)" where
  "user_map stack j n q = (if \<exists>i. j \<le> i \<and> i < n \<and> q = user_page stack i then Some (0, USER_FLAGS) else None)"

lemma user_map_empty [simp]: "user_map stack n n = Map.empty"
  by (auto simp: user_map_def)

lemma user_map_Suc: "(user_map stack 0 n)(user_page stack n \<mapsto> (0, USER_FLAGS)) = user_map stack 0 (Suc n)"
proof
  fix q
  show "((user_map stack 0 n)(user_page stack n \<mapsto> (0, USER_FLAGS))) q = user_map stack 0 (Suc n) q"
    by (cases "q = user_page stack n") (auto simp: user_map_def less_Suc_eq)
qed

lemma user_map_drop:
  assumes "stack < 0x100000" and "j < n" and "n \<le> 0x100"
  shows "(user_map stack j n)(user_page stack j := None) = user_map stack (Suc j) n"
proof
  fix q
  have inj: "i < n \<Longrightarrow> user_page stack j = user_page stack i \<longleftrightarrow> j = i" for i
    using user_page_inj[OF assms(1,1), of j i] assms(2,3) by simp
  show "((user_map stack j n)(user_page stack j := None)) q = user_map stack (Suc j) n q"
  proof (cases "q = user_page stack j")
    case True
    then have "\<not> (\<exists>i. Suc j \<le> i \<and> i < n \<and> q = user_page stack i)" using inj by auto
    then show ?thesis using True by (simp add: user_map_def)
  next
    case False
    then have "(\<exists>i. j \<le> i \<and> i < n \<and> q = user_page stack i) \<longleftrightarrow> (\<exists>i. Suc j \<le> i \<and> i < n \<and> q = user_page stack i)"
      by (metis Suc_leD Suc_leI order_le_less)
    then show ?thesis using False by (simp add: user_map_def)
  qed
qed

context task_spaces
begin

lemma unmap_user_loop:
  assumes st: "stack < 0x100000" and tk: "tasks s task = Some tk" and R: "t_vm tk \<in> R" "spaces (vmst s) R"
    and u: "vm_upd P vp R v0 (t_vm tk) (user_map stack 0 n) (vmst s)" and n: "n \<le> 0x100"
    and z: "\<And>i. i < 0x100 \<Longrightarrow> pf_vm_lookup P v0 (t_vm tk) (user_page stack i) = (0, 0)"
  shows "\<exists>v. kfor 0 n (\<lambda>j. bnd (rd_task task) (\<lambda>tk. anscheduler_vm_unmap P (t_vm tk) (user_page stack j))) s =
      Ret () (s\<lparr>vmst := v\<rparr>) \<and> spaces v R \<and> vm_upd P vp R v0 (t_vm tk) Map.empty v"
proof -
  let ?I = "\<lambda>j s'. \<exists>v. s' = s\<lparr>vmst := v\<rparr> \<and> spaces v R \<and> vm_upd P vp R v0 (t_vm tk) (user_map stack j n) v"
  let ?f = "\<lambda>j. bnd (rd_task task) (\<lambda>tk. anscheduler_vm_unmap P (t_vm tk) (user_page stack j))"
  have "\<exists>s'. kfor 0 n ?f s = Ret () s' \<and> ?I n s'"
  proof (rule kfor_invariant[where I = ?I])
    fix j s' assume j: "0 \<le> j" "j < n" and "?I j s'"
    then obtain v where v: "s' = s\<lparr>vmst := v\<rparr>" "spaces v R" "vm_upd P vp R v0 (t_vm tk) (user_map stack j n) v"
      by blast
    let ?v = "pf_vm_unmap P v (t_vm tk) (user_page stack j)"
    have vpj: "vp (user_page stack j)" using vp_task stack_page_bounds(2)[OF st, of j] j n by simp
    have "vm_upd P vp R v0 (t_vm tk) (user_map stack (Suc j) n) ?v"
      using upd_unmap[OF v(2) R(1) vpj v(3) z] j n user_map_drop[OF st j(2) n] by simp
    moreover have "spaces ?v R" by (rule unmap_spaces[OF v(2) R(1) vpj])
    moreover have "?f j s' = Ret () (s\<lparr>vmst := ?v\<rparr>)" using tk v(1) by (simp add: kern)
    ultimately show "\<exists>s''. ?f j s' = Ret () s'' \<and> ?I (Suc j) s''" by blast
  next
    show "?I 0 s" using R(2) u by (intro exI[of _ "vmst s"]) simp
  qed simp
  then show ?thesis by auto
qed

lemma map_user_loop:
  assumes st: "stack < 0x100000" and tk: "tasks s task = Some tk" and R: "t_vm tk \<in> R" "spaces (vmst s) R"
    and u: "vm_upd P vp R v0 (t_vm tk) (user_map stack 0 i) (vmst s)" and i: "i \<le> 0x100"
    and z: "\<And>i. i < 0x100 \<Longrightarrow> pf_vm_lookup P v0 (t_vm tk) (user_page stack i) = (0, 0)"
    and l: "VmLock task \<in> set (held s)" and k: "0x100 - i < k"
  shows "\<exists>ok v. kloop k Diverges (map_user_round P task stack) i s =
      Ret ok (s\<lparr>vmst := v, held := remove1 (VmLock task) (held s)\<rparr>) \<and> spaces v R \<and>
      vm_upd P vp R v0 (t_vm tk) (if ok then user_map stack 0 0x100 else Map.empty) v"
  using tk R u i l k
proof (induction k arbitrary: i s)
  case 0
  then show ?case by simp
next
  case (Suc k)
  show ?case
  proof (cases "i < 0x100")
    case False
    then have i: "i = 0x100" using Suc.prems(5) by simp
    have "map_user_round P task stack i s = Ret (Inr True) (s\<lparr>held := remove1 (VmLock task) (held s)\<rparr>)"
      using i Suc.prems(1,6) by (simp add: map_user_round_def kern)
    then have "kloop (Suc k) Diverges (map_user_round P task stack) i s =
      Ret True (s\<lparr>vmst := vmst s, held := remove1 (VmLock task) (held s)\<rparr>)" by (simp add: kloop_done)
    then show ?thesis using Suc.prems(3,4) i by (intro exI[of _ True] exI[of _ "vmst s"]) simp
  next
    case True
    obtain ok v where m: "pf_vm_map P (vmst s) (t_vm tk) (user_page stack i) 0 USER_FLAGS = (ok, v)" by fastforce
    have vpi: "vp (user_page stack i)" using vp_task stack_page_bounds(2)[OF st True] by simp
    note up = upd_map[OF Suc.prems(3,2) vpi _ _ Suc.prems(4) m]
    have uf: "USER_FLAGS < 0x1000" by (simp add: USER_FLAGS_def)
    show ?thesis
    proof (cases ok)
      case True
      let ?s = "s\<lparr>vmst := v\<rparr>"
      have "map_user_round P task stack i s = Ret (Inl (Suc i)) ?s"
        using \<open>i < 0x100\<close> True m Suc.prems(1) by (simp add: map_user_round_def user_flags anscheduler_vm_map_def kern)
      moreover have "vm_upd P vp R v0 (t_vm tk) (user_map stack 0 (Suc i)) (vmst ?s)" "spaces (vmst ?s) R"
        using up uf True by (simp_all add: user_map_Suc)
      ultimately show ?thesis
        using Suc.IH[of ?s "Suc i"] Suc.prems \<open>i < 0x100\<close> by (simp add: kloop_next)
    next
      case False
      let ?s = "s\<lparr>vmst := v\<rparr>"
      have "vm_upd P vp R v0 (t_vm tk) (user_map stack 0 i) (vmst ?s)" "spaces (vmst ?s) R" "tasks ?s task = Some tk"
        using up uf False Suc.prems(1) by simp_all
      from unmap_user_loop[OF st this(3) Suc.prems(2) this(2,1) Suc.prems(5) z] obtain v' where
        v': "kfor 0 i (\<lambda>j. bnd (rd_task task) (\<lambda>tk. anscheduler_vm_unmap P (t_vm tk) (user_page stack j))) ?s =
          Ret () (?s\<lparr>vmst := v'\<rparr>)" "spaces v' R" "vm_upd P vp R v0 (t_vm tk) Map.empty v'" by auto
      have "map_user_round P task stack i s = Ret (Inr False) (s\<lparr>vmst := v', held := remove1 (VmLock task) (held s)\<rparr>)"
        using \<open>i < 0x100\<close> False m Suc.prems(1,6) v'(1)
        by (simp add: map_user_round_def user_flags anscheduler_vm_map_def kern)
      then show ?thesis using v'(2,3) by (intro exI[of _ False] exI[of _ v']) (simp add: kloop_done)
    qed
  qed
qed

end

subsection \<open>Creating a thread\<close>

definition KERN_FLAGS :: u16 where "KERN_FLAGS = 3"

lemma kern_flags: "PAGE_FLAG_PRESENT OR PAGE_FLAG_WRITE = KERN_FLAGS" "KERN_FLAGS AND PAGE_FLAG_PRESENT \<noteq> 0"
  by (simp_all add: KERN_FLAGS_def PAGE_FLAG_PRESENT_def PAGE_FLAG_WRITE_def)

lemma given_back_idxset:
  "given_back ns root ps x ns' root' \<Longrightarrow> idxset ns root ps \<Longrightarrow> \<exists>ps'. idxset ns' root' ps'"
  by (auto simp: given_back_def)

lemma put_stack_runs:
  assumes P: "allocator P" and tk: "tasks s task = Some tk" and ix: "idxset (nodes s) (t_stacks tk) ps"
    and c: "cpu_locked s" and l: "StacksLock task \<notin> set (held s)"
  shows "\<exists>root ns n. put_stack P task x s =
      Ret () (s\<lparr>tasks := (tasks s)(task \<mapsto> tk\<lparr>t_stacks := root\<rparr>), nodes := ns, allocs := n\<rparr>) \<and>
    given_back (nodes s) (t_stacks tk) ps x ns root"
proof -
  let ?s = "s\<lparr>held := StacksLock task # held s\<rparr>"
  have "idxset (nodes ?s) (t_stacks tk) ps" "cpu_locked ?s" using ix c by simp_all
  from anidxset_put_frame[OF P this, of x] obtain ok root ns n where
    "anidxset_put P (t_stacks tk) x ?s = Ret (ok, root) (?s\<lparr>nodes := ns, allocs := n\<rparr>)"
    "given_back (nodes s) (t_stacks tk) ps x ns root" by auto
  then show ?thesis
    using tk l by (intro exI[of _ root] exI[of _ ns] exI[of _ n]) (simp add: put_stack_def kern sched_order)
qed

locale thread_platform = page_allocator + task_spaces
begin

lemma alloc_kernel_stack_runs:
  assumes c: "cpu_locked s" and th: "threads s thread = Some th" "th_stack th = stack" "stack < 0x100000"
    and tk: "tasks s task = Some tk" and R: "t_vm tk \<in> R" "spaces (vmst s) R" and l: "VmLock task \<notin> set (held s)"
  shows "\<exists>v. spaces v R \<and>
     ((alloc_kernel_stack P task thread s = Ret False (s\<lparr>allocs := Suc (allocs s), vmst := v\<rparr>) \<and>
       vm_upd P vp R (vmst s) (t_vm tk) Map.empty v) \<or>
      (\<exists>b. b \<noteq> NULL \<and> \<not> live s b \<and> push_bit 12 (drop_bit 12 b) = b \<and>
         alloc_kernel_stack P task thread s =
           Ret True (s\<lparr>raws := (raws s)(b \<mapsto> 0x1000), allocs := Suc (allocs s), vmst := v\<rparr>) \<and>
         vm_upd P vp R (vmst s) (t_vm tk) [kern_page stack \<mapsto> (pf_vm_physical P (drop_bit 12 b), KERN_FLAGS)] v))"
  using alloc_page_result[OF c, of "0x1000"]
proof (elim disjE exE conjE)
  assume "anscheduler_alloc P 0x1000 s = Ret NULL (s\<lparr>allocs := Suc (allocs s)\<rparr>)"
  then have "alloc_kernel_stack P task thread s = Ret False (s\<lparr>allocs := Suc (allocs s), vmst := vmst s\<rparr>)"
    by (simp add: alloc_kernel_stack_def kern)
  then show ?thesis using R(2) by (intro exI[of _ "vmst s"] conjI disjI1 vm_upd_refl)
next
  fix b
  assume b: "b \<noteq> NULL" "\<not> live s b" "push_bit 12 (drop_bit 12 b) = b"
    and al: "anscheduler_alloc P 0x1000 s = Ret b (s\<lparr>allocs := Suc (allocs s), raws := (raws s)(b \<mapsto> 0x1000)\<rparr>)"
  obtain ok v where m: "pf_vm_map P (vmst s) (t_vm tk) (kern_page stack) (pf_vm_physical P (drop_bit 12 b)) KERN_FLAGS = (ok, v)"
    by fastforce
  have kp: "vp (kern_page stack)" using vp_task stack_page_bounds(1)[OF th(3), of 0] by simp
  have up: "vm_upd P vp R (vmst s) (t_vm tk) (if ok then [kern_page stack \<mapsto> (pf_vm_physical P (drop_bit 12 b), KERN_FLAGS)]
      else Map.empty) v" "spaces v R"
    using upd_map[OF R(2,1) kp physical_block _ vm_upd_refl m] by (simp_all add: KERN_FLAGS_def)
  show ?thesis
  proof (cases ok)
    case True
    have "alloc_kernel_stack P task thread s =
           Ret True (s\<lparr>raws := (raws s)(b \<mapsto> 0x1000), allocs := Suc (allocs s), vmst := v\<rparr>)"
      using b(1) al th tk l m True
      by (simp add: alloc_kernel_stack_def kern_flags anscheduler_vm_map_def Let_def kern sched_order)
    then show ?thesis using up b True by (intro exI[of _ v] conjI disjI2 exI[of _ b]) simp_all
  next
    case False
    have raw: "(raws s)(b := None) = raws s" using not_live(1)[OF b(2)] by (simp add: fun_upd_idem)
    have "alloc_kernel_stack P task thread s = Ret False (s\<lparr>raws := (raws s)(b := None), allocs := Suc (allocs s), vmst := v\<rparr>)"
      using b(1) al th tk l m False c
      by (simp add: alloc_kernel_stack_def kern_flags anscheduler_vm_map_def Let_def kern sched_order)
    then have "alloc_kernel_stack P task thread s = Ret False (s\<lparr>allocs := Suc (allocs s), vmst := v\<rparr>)"
      unfolding raw by simp
    then show ?thesis using up False by (intro exI[of _ v] conjI disjI1) simp_all
  qed
qed

lemma map_user_stack_runs:
  assumes th: "threads s thread = Some th" "th_stack th = stack" "stack < 0x100000"
    and tk: "tasks s task = Some tk" and R: "t_vm tk \<in> R" "spaces (vmst s) R" and l: "VmLock task \<notin> set (held s)"
    and z: "\<And>i. i < 0x100 \<Longrightarrow> pf_vm_lookup P (vmst s) (t_vm tk) (user_page stack i) = (0, 0)"
  shows "\<exists>ok v. map_user_stack P task thread s = Ret ok (s\<lparr>vmst := v\<rparr>) \<and> spaces v R \<and>
     vm_upd P vp R (vmst s) (t_vm tk) (if ok then user_map stack 0 0x100 else Map.empty) v"
proof -
  let ?s = "s\<lparr>held := VmLock task # held s\<rparr>"
  have pre: "tasks ?s task = Some tk" "t_vm tk \<in> R" "spaces (vmst ?s) R"
    "vm_upd P vp R (vmst s) (t_vm tk) (user_map stack 0 0) (vmst ?s)" "VmLock task \<in> set (held ?s)" "0x100 - 0 < max_steps"
    using tk R by (simp_all add: vm_upd_refl max_steps_def)
  obtain ok v where "kloop max_steps Diverges (map_user_round P task stack) 0 ?s =
      Ret ok (?s\<lparr>vmst := v, held := remove1 (VmLock task) (held ?s)\<rparr>)" and v: "spaces v R"
      "vm_upd P vp R (vmst s) (t_vm tk) (if ok then user_map stack 0 0x100 else Map.empty) v"
    using map_user_loop[OF th(3) pre(1-4) _ z pre(5,6)] by auto
  then have "map_user_stack P task thread s = Ret ok (s\<lparr>vmst := v\<rparr>)"
    using th(1,2) tk l by (simp add: map_user_stack_def kwhile_def kern)
  with v show ?thesis by blast
qed

lemma dealloc_kernel_stack_runs:
  assumes c: "cpu_locked s" and th: "threads s thread = Some th" "th_stack th = stack" "stack < 0x100000"
    and tk: "tasks s task = Some tk" and R: "t_vm tk \<in> R" "spaces (vmst s) R" and l: "VmLock task \<notin> set (held s)"
    and b: "push_bit 12 (drop_bit 12 b) = b" "raws s b = Some n"
    and u: "vm_upd P vp R v0 (t_vm tk) [kern_page stack \<mapsto> (pf_vm_physical P (drop_bit 12 b), KERN_FLAGS)] (vmst s)"
    and z: "pf_vm_lookup P v0 (t_vm tk) (kern_page stack) = (0, 0)"
  shows "\<exists>v. dealloc_kernel_stack P task thread s = Ret () (s\<lparr>raws := (raws s)(b := None), vmst := v\<rparr>) \<and>
     spaces v R \<and> vm_upd P vp R v0 (t_vm tk) Map.empty v"
proof -
  let ?v = "pf_vm_unmap P (vmst s) (t_vm tk) (kern_page stack)"
  have kp: "vp (kern_page stack)" using vp_task stack_page_bounds(1)[OF th(3), of 0] by simp
  have lk: "pf_vm_lookup P (vmst s) (t_vm tk) (kern_page stack) = (pf_vm_physical P (drop_bit 12 b), KERN_FLAGS)"
    by (rule vm_upd_at[OF u R(1) kp]) simp
  have vb: "push_bit 12 (pf_vm_virtual P (pf_vm_physical P (drop_bit 12 b))) = b"
    using virtual_physical[OF drop_bit_page_less] b(1) by simp
  have "dealloc_kernel_stack P task thread s = Ret () (s\<lparr>raws := (raws s)(b := None), vmst := ?v\<rparr>)"
    using c th(1,2) tk l lk b(2) by (simp add: dealloc_kernel_stack_def kern_flags vb Let_def kern sched_order)
  moreover have "vm_upd P vp R v0 (t_vm tk) ([kern_page stack \<mapsto> (pf_vm_physical P (drop_bit 12 b), KERN_FLAGS)]
      (kern_page stack := None)) ?v" by (rule upd_unmap[OF R(2,1) kp u z])
  moreover have "spaces ?v R" by (rule unmap_spaces[OF R(2,1) kp])
  ultimately show ?thesis by (intro exI[of _ ?v]) (simp add: fun_upd_idem)
qed

end

text \<open>The struct that \<open>anscheduler_thread_create\<close> fills in, and the pages that it maps.\<close>

definition new_user_thread :: "addr \<Rightarrow> u64 \<Rightarrow> thread_t" where
  "new_user_thread task stack = zero_thread\<lparr>th_task := task, th_stack := stack\<rparr>"

definition stack_map :: "'v plat \<Rightarrow> u64 \<Rightarrow> addr \<Rightarrow> (u64 \<rightharpoonup> u64 \<times> u16)" where
  "stack_map P stack b = [kern_page stack \<mapsto> (pf_vm_physical P (drop_bit 12 b), KERN_FLAGS)] ++ user_map stack 0 0x100"

text \<open>
  The outcome of creating a thread with the index \<open>stack\<close>: the thread with its stacks, or nothing.
  The block of the kernel stack may be a page \<open>ps\<close> of the task's pool that became free.
\<close>

definition created ::
  "'v plat \<Rightarrow> (u64 \<Rightarrow> bool) \<Rightarrow> addr set \<Rightarrow> 'v sched \<Rightarrow> addr \<Rightarrow> task_t \<Rightarrow> addr list \<Rightarrow> u64 \<Rightarrow> addr \<Rightarrow> 'v sched \<Rightarrow> bool" where
  "created P vp R s task tk ps stack thread s' \<longleftrightarrow>
     (if thread = NULL then raws s' = raws s \<and> threads s' = threads s \<and>
        vm_upd P vp R (vmst s) (t_vm tk) Map.empty (vmst s')
      else stack < 0x100000 \<and> \<not> live s thread \<and> threads s' = (threads s)(thread \<mapsto> new_user_thread task stack) \<and>
        (\<exists>b. b \<noteq> NULL \<and> b \<noteq> thread \<and> (\<not> live s b \<or> b \<in> set ps) \<and> raws s' = (raws s)(b \<mapsto> 0x1000) \<and>
           vm_upd P vp R (vmst s) (t_vm tk) (stack_map P stack b) (vmst s')))"

text \<open>What setting up the stacks of the new thread \<open>p\<close> leaves behind, seen from the state before.\<close>

definition set_up ::
  "'v plat \<Rightarrow> (u64 \<Rightarrow> bool) \<Rightarrow> addr set \<Rightarrow> 'v sched \<Rightarrow> task_t \<Rightarrow> addr \<Rightarrow> u64 \<Rightarrow> addr \<Rightarrow> 'v sched \<Rightarrow> bool" where
  "set_up P vp R s tk p stack r s' \<longleftrightarrow>
     (if r = NULL then raws s' = raws s \<and> threads s' = (threads s)(p := None) \<and>
        vm_upd P vp R (vmst s) (t_vm tk) Map.empty (vmst s')
      else r = p \<and> threads s' = threads s \<and> (\<exists>b. b \<noteq> NULL \<and> \<not> live s b \<and> raws s' = (raws s)(b \<mapsto> 0x1000) \<and>
           vm_upd P vp R (vmst s) (t_vm tk) (stack_map P stack b) (vmst s')))"

text \<open>The error exits give the index back and free the struct.\<close>

lemma undo_create_runs:
  assumes "allocator P" and "tasks s task = Some tk" and ix: "idxset (nodes s) (t_stacks tk) ps" and c: "cpu_locked s"
    and "StacksLock task \<notin> set (held s)" and th: "threads s p = Some th"
  shows "\<exists>root ps' ns n. bnd (put_stack P task stack) (\<lambda>_. bnd (anscheduler_free_thread p) (\<lambda>_. ret NULL)) s =
      Ret NULL (s\<lparr>tasks := (tasks s)(task \<mapsto> tk\<lparr>t_stacks := root\<rparr>), nodes := ns, allocs := n, threads := (threads s)(p := None)\<rparr>) \<and>
    idxset ns root ps'"
proof -
  obtain root ns n where
    put: "put_stack P task stack s = Ret () (s\<lparr>tasks := (tasks s)(task \<mapsto> tk\<lparr>t_stacks := root\<rparr>), nodes := ns, allocs := n\<rparr>)"
    and gb: "given_back (nodes s) (t_stacks tk) ps stack ns root" using put_stack_runs[OF assms(1-5)] by blast
  obtain ps' where "idxset ns root ps'" using given_back_idxset[OF gb ix] by blast
  then show ?thesis using put c th by (intro exI[of _ root] exI[of _ ps'] exI[of _ ns] exI[of _ n]) (simp add: kern)
qed

context thread_platform
begin

text \<open>The user stack, when the kernel stack is the block \<open>b\<close>; it is released again if there is no user stack.\<close>

lemma setup_user_stack_runs:
  assumes c: "cpu_locked s" and th: "threads s p = Some (new_user_thread task stack)" "stack < 0x100000"
    and tk: "tasks s task = Some tk" and R: "t_vm tk \<in> R" and v: "spaces v R" and l: "VmLock task \<notin> set (held s)"
    and z: "pf_vm_lookup P (vmst s) (t_vm tk) (kern_page stack) = (0, 0)"
      "\<And>i. i < 0x100 \<Longrightarrow> pf_vm_lookup P (vmst s) (t_vm tk) (user_page stack i) = (0, 0)"
    and b: "\<not> live s b" "push_bit 12 (drop_bit 12 b) = b"
    and u: "vm_upd P vp R (vmst s) (t_vm tk) [kern_page stack \<mapsto> (pf_vm_physical P (drop_bit 12 b), KERN_FLAGS)] v"
  shows "\<exists>v'. spaces v' R \<and>
    (let s1 = s\<lparr>raws := (raws s)(b \<mapsto> 0x1000), allocs := n, vmst := v\<rparr>; s2 = s\<lparr>raws := (raws s)(b \<mapsto> 0x1000), allocs := n, vmst := v'\<rparr> in
     (map_user_stack P task p s1 = Ret True s2 \<and> vm_upd P vp R (vmst s) (t_vm tk) (stack_map P stack b) v') \<or>
     (bnd (map_user_stack P task p) (\<lambda>ok. bnd (cond (\<not> ok) (dealloc_kernel_stack P task p)) (\<lambda>_. ret ok)) s1 =
        Ret False (s\<lparr>allocs := n, vmst := v'\<rparr>) \<and> vm_upd P vp R (vmst s) (t_vm tk) Map.empty v'))"
proof -
  have st: "th_stack (new_user_thread task stack) = stack" by (simp add: new_user_thread_def)
  let ?s1 = "s\<lparr>raws := (raws s)(b \<mapsto> 0x1000), allocs := n, vmst := v\<rparr>"
  have s1: "threads ?s1 p = Some (new_user_thread task stack)" "tasks ?s1 task = Some tk" "spaces (vmst ?s1) R"
    "VmLock task \<notin> set (held ?s1)" using th(1) tk v l by simp_all
  have z1: "pf_vm_lookup P (vmst ?s1) (t_vm tk) (user_page stack i) = (0, 0)" if "i < 0x100" for i
    using vm_upd_else[OF u R, of "user_page stack i"] z(2)[OF that] kern_page_user_page[OF th(2,2) that]
      vp_task[OF stack_page_bounds(2)[OF th(2) that]] by simp
  obtain ok v2 where m: "map_user_stack P task p ?s1 = Ret ok (?s1\<lparr>vmst := v2\<rparr>)" "spaces v2 R"
    "vm_upd P vp R v (t_vm tk) (if ok then user_map stack 0 0x100 else Map.empty) v2"
    using map_user_stack_runs[OF s1(1) st th(2) s1(2) R s1(3,4) z1] by auto
  let ?s2 = "s\<lparr>raws := (raws s)(b \<mapsto> 0x1000), allocs := n, vmst := v2\<rparr>"
  show ?thesis
  proof (cases ok)
    case True
    then have "vm_upd P vp R (vmst s) (t_vm tk) (stack_map P stack b) v2"
      unfolding stack_map_def using vm_upd_trans[OF u m(3)] by simp
    then show ?thesis using m True unfolding Let_def by (intro exI[of _ v2]) simp
  next
    case False
    have u2: "vm_upd P vp R (vmst s) (t_vm tk) [kern_page stack \<mapsto> (pf_vm_physical P (drop_bit 12 b), KERN_FLAGS)] (vmst ?s2)"
      using vm_upd_trans[OF u m(3)] False by simp
    have s2: "cpu_locked ?s2" "threads ?s2 p = Some (new_user_thread task stack)" "tasks ?s2 task = Some tk"
      "spaces (vmst ?s2) R" "VmLock task \<notin> set (held ?s2)" "raws ?s2 b = Some 0x1000"
      using c th(1) tk m(2) l by simp_all
    obtain v3 where d: "dealloc_kernel_stack P task p ?s2 = Ret () (?s2\<lparr>raws := (raws ?s2)(b := None), vmst := v3\<rparr>)"
      "spaces v3 R" "vm_upd P vp R (vmst s) (t_vm tk) Map.empty v3"
      using dealloc_kernel_stack_runs[OF s2(1,2) st th(2) s2(3) R s2(4,5) b(2) s2(6) u2 z(1)] by blast
    have "(raws s)(b := None) = raws s" using not_live(1)[OF b(1)] by (simp add: fun_upd_idem)
    then show ?thesis using m(1) d False unfolding Let_def by (intro exI[of _ v3]) (simp add: kern cond_def)
  qed
qed

lemma setup_stacks_runs:
  assumes c: "cpu_locked s" and th: "threads s p = Some (new_user_thread task stack)" "stack < 0x100000"
    and tk: "tasks s task = Some tk" and R: "t_vm tk \<in> R" "spaces (vmst s) R"
    and l: "VmLock task \<notin> set (held s)" "StacksLock task \<notin> set (held s)"
    and ix: "idxset (nodes s) (t_stacks tk) ps" and p: "p \<noteq> NULL"
    and z: "pf_vm_lookup P (vmst s) (t_vm tk) (kern_page stack) = (0, 0)"
      "\<And>i. i < 0x100 \<Longrightarrow> pf_vm_lookup P (vmst s) (t_vm tk) (user_page stack i) = (0, 0)"
  shows "\<exists>r s' root ps'. setup_stacks P task p stack s = Ret r s' \<and>
    tasks s' = (tasks s)(task \<mapsto> tk\<lparr>t_stacks := root\<rparr>) \<and> idxset (nodes s') root ps' \<and> held s' = held s \<and>
    spaces (vmst s') R \<and> set_up P vp R s tk p stack r s'"
    (is "\<exists>r s' root ps'. ?run s = Ret r s' \<and> ?ok r s' root ps'")
proof -
  let ?n = "Suc (allocs s)"
  have fail: ?thesis
    if run: "?run s = bnd (put_stack P task stack) (\<lambda>_. bnd (anscheduler_free_thread p) (\<lambda>_. ret NULL)) (s\<lparr>allocs := ?n, vmst := v\<rparr>)"
      and v: "vm_upd P vp R (vmst s) (t_vm tk) Map.empty v" "spaces v R" for v
  proof -
    let ?s1 = "s\<lparr>allocs := ?n, vmst := v\<rparr>"
    have "tasks ?s1 task = Some tk" "idxset (nodes ?s1) (t_stacks tk) ps" "cpu_locked ?s1" "StacksLock task \<notin> set (held ?s1)"
      "threads ?s1 p = Some (new_user_thread task stack)" using tk ix c l th(1) by simp_all
    from undo_create_runs[OF allocator_axioms this, of stack] obtain root ps' ns n where
      r: "?run s = Ret NULL (?s1\<lparr>tasks := (tasks s)(task \<mapsto> tk\<lparr>t_stacks := root\<rparr>), nodes := ns, allocs := n, threads := (threads s)(p := None)\<rparr>)"
      and ps': "idxset ns root ps'" unfolding run by auto
    let ?s' = "?s1\<lparr>tasks := (tasks s)(task \<mapsto> tk\<lparr>t_stacks := root\<rparr>), nodes := ns, allocs := n, threads := (threads s)(p := None)\<rparr>"
    have "?ok NULL ?s' root ps'" using v ps' by (simp add: set_up_def)
    then show ?thesis using r by blast
  qed
  have st: "th_stack (new_user_thread task stack) = stack" by (simp add: new_user_thread_def)
  from alloc_kernel_stack_runs[OF c th(1) st th(2) tk R l(1)] show ?thesis
  proof (elim exE conjE disjE)
    fix v assume "spaces v R" "alloc_kernel_stack P task p s = Ret False (s\<lparr>allocs := ?n, vmst := v\<rparr>)"
      "vm_upd P vp R (vmst s) (t_vm tk) Map.empty v"
    then show ?thesis by (intro fail) (simp_all add: setup_stacks_def kern)
  next
    fix v b
    assume v: "spaces v R" and b: "b \<noteq> NULL" "\<not> live s b" "push_bit 12 (drop_bit 12 b) = b"
      and k: "alloc_kernel_stack P task p s = Ret True (s\<lparr>raws := (raws s)(b \<mapsto> 0x1000), allocs := ?n, vmst := v\<rparr>)"
      and u: "vm_upd P vp R (vmst s) (t_vm tk) [kern_page stack \<mapsto> (pf_vm_physical P (drop_bit 12 b), KERN_FLAGS)] v"
    let ?s1 = "s\<lparr>raws := (raws s)(b \<mapsto> 0x1000), allocs := ?n, vmst := v\<rparr>"
    from setup_user_stack_runs[OF c th tk R(1) v l(1) z b(2,3) u, of ?n] obtain v' where v': "spaces v' R" and
      res: "(map_user_stack P task p ?s1 = Ret True (s\<lparr>raws := (raws s)(b \<mapsto> 0x1000), allocs := ?n, vmst := v'\<rparr>) \<and>
          vm_upd P vp R (vmst s) (t_vm tk) (stack_map P stack b) v') \<or>
        (bnd (map_user_stack P task p) (\<lambda>ok. bnd (cond (\<not> ok) (dealloc_kernel_stack P task p)) (\<lambda>_. ret ok)) ?s1 =
          Ret False (s\<lparr>allocs := ?n, vmst := v'\<rparr>) \<and> vm_upd P vp R (vmst s) (t_vm tk) Map.empty v')"
      unfolding Let_def by blast
    from res show ?thesis
    proof (elim disjE conjE)
      assume m: "map_user_stack P task p ?s1 = Ret True (s\<lparr>raws := (raws s)(b \<mapsto> 0x1000), allocs := ?n, vmst := v'\<rparr>)"
        and u': "vm_upd P vp R (vmst s) (t_vm tk) (stack_map P stack b) v'"
      let ?s2 = "s\<lparr>raws := (raws s)(b \<mapsto> 0x1000), allocs := ?n, vmst := v'\<rparr>"
      have "?run s = Ret p ?s2" using k m by (simp add: setup_stacks_def kern)
      moreover have "?ok p ?s2 (t_stacks tk) ps" using tk ix v' p b(1,2) u' by (auto simp: map_upd_triv set_up_def)
      ultimately show ?thesis by blast
    next
      assume m: "bnd (map_user_stack P task p) (\<lambda>ok. bnd (cond (\<not> ok) (dealloc_kernel_stack P task p)) (\<lambda>_. ret ok)) ?s1 =
          Ret False (s\<lparr>allocs := ?n, vmst := v'\<rparr>)" and u': "vm_upd P vp R (vmst s) (t_vm tk) Map.empty v'"
      then obtain s2 where "map_user_stack P task p ?s1 = Ret False s2" "dealloc_kernel_stack P task p s2 = Ret () (s\<lparr>allocs := ?n, vmst := v'\<rparr>)"
        by (auto simp: bnd_def ret_def cond_def skip_def split: outcome.split_asm if_split_asm)
      then show ?thesis using k v' u' by (intro fail) (simp_all add: setup_stacks_def kern)
    qed
  qed
qed

end

text \<open>The part of \<open>anscheduler_thread_create\<close> up to the stacks: the struct and the index.\<close>

lemma thread_create_starts:
  assumes P: "page_allocator P" and c: "cpu_locked s" and tk: "tasks s task = Some tk" and l: "StacksLock task \<notin> set (held s)"
    and ix: "idxset (nodes s) (t_stacks tk) ps"
    and get: "idx_get (chain_stack (nodes s) ps, ix_used (t_stacks tk)) = (stack, rest)"
  shows "anscheduler_thread_create P task s = Ret NULL (s\<lparr>allocs := Suc (allocs s)\<rparr>) \<or>
    (\<exists>p root ps' ns. p \<noteq> NULL \<and> \<not> live s p \<and> idxset ns root ps' \<and> (\<forall>q. q \<notin> set ps \<longrightarrow> ns q = nodes s q) \<and>
      anscheduler_thread_create P task s = (if 0x100000 \<le> stack
        then Ret NULL (s\<lparr>tasks := (tasks s)(task \<mapsto> tk\<lparr>t_stacks := root\<rparr>), nodes := ns, allocs := Suc (allocs s)\<rparr>)
        else setup_stacks P task p stack (s\<lparr>tasks := (tasks s)(task \<mapsto> tk\<lparr>t_stacks := root\<rparr>), nodes := ns,
          allocs := Suc (allocs s), threads := (threads s)(p \<mapsto> new_user_thread task stack)\<rparr>)))"
  using page_allocator.alloc_page_result[OF P c, of "sizeof_thread_t P"]
proof (elim disjE exE conjE)
  assume "anscheduler_alloc P (sizeof_thread_t P) s = Ret NULL (s\<lparr>allocs := Suc (allocs s)\<rparr>)"
  then show ?thesis by (simp add: anscheduler_thread_create_def kern)
next
  fix p
  let ?s1 = "s\<lparr>allocs := Suc (allocs s), raws := (raws s)(p \<mapsto> sizeof_thread_t P)\<rparr>"
  assume p: "p \<noteq> NULL" "\<not> live s p" and al: "anscheduler_alloc P (sizeof_thread_t P) s = Ret p ?s1"
  let ?s2 = "?s1\<lparr>held := StacksLock task # held s\<rparr>"
  have "idxset (nodes ?s2) (t_stacks tk) ps" "cpu_locked ?s2" using c ix by simp_all
  from anidxset_get_refines[OF this] obtain x root ps' s3 where
    g: "anidxset_get (t_stacks tk) ?s2 = Ret (x, root) s3" "s3 = ?s2\<lparr>nodes := nodes s3\<rparr>"
      "idxset (nodes s3) root ps'" "\<forall>q. q \<notin> set ps \<longrightarrow> nodes s3 q = nodes s q"
      "(x, chain_stack (nodes s3) ps', ix_used root) = idx_get (chain_stack (nodes s) ps, ix_used (t_stacks tk))"
    by auto
  have x: "x = stack" using g(5) get by simp
  let ?tk = "tk\<lparr>t_stacks := root\<rparr>" and ?ns = "nodes s3"
  have raw: "(raws s)(p := None) = raws s" using not_live(1)[OF p(2)] by (simp add: fun_upd_idem)
  have gs: "anidxset_get (t_stacks tk) ?s2 = Ret (stack, root) (?s2\<lparr>nodes := ?ns\<rparr>)"
    using g(1) unfolding x by (subst (asm) g(2))
  let ?r = "s\<lparr>raws := (raws s)(p := None), tasks := (tasks s)(task \<mapsto> ?tk), nodes := ?ns, allocs := Suc (allocs s)\<rparr>"
  have "anscheduler_thread_create P task s = (if 0x100000 \<le> stack then Ret NULL ?r
      else setup_stacks P task p stack (?r\<lparr>threads := (threads s)(p \<mapsto> new_user_thread task stack)\<rparr>))"
    using p(1) al gs c tk l by (simp add: anscheduler_thread_create_def new_user_thread_def kern sched_order)
  moreover have "?r = s\<lparr>tasks := (tasks s)(task \<mapsto> ?tk), nodes := ?ns, allocs := Suc (allocs s)\<rparr>" unfolding raw by simp
  ultimately show ?thesis
    using p g(3,4) by (intro disjI2 exI[of _ p] exI[of _ root] exI[of _ ps'] exI[of _ ?ns]) simp
qed

lemma set_up_created:
  assumes res: "set_up P vp R (s\<lparr>tasks := (tasks s)(task \<mapsto> tk\<lparr>t_stacks := root\<rparr>), nodes := ns, allocs := n,
      threads := (threads s)(p \<mapsto> new_user_thread task stack)\<rparr>) (tk\<lparr>t_stacks := root\<rparr>) p stack r s'"
    and p: "\<not> live s p" "p \<noteq> NULL" and ns: "\<forall>q. q \<notin> set ps \<longrightarrow> ns q = nodes s q" and st: "stack < 0x100000"
  shows "created P vp R s task tk ps stack r s'"
proof (cases "r = NULL")
  case True
  have "(threads s)(p := None) = threads s" using not_live(3)[OF p(1)] by (simp add: fun_upd_idem)
  then show ?thesis using res True by (simp add: set_up_def created_def)
next
  case False
  let ?s = "s\<lparr>tasks := (tasks s)(task \<mapsto> tk\<lparr>t_stacks := root\<rparr>), nodes := ns, allocs := n,
      threads := (threads s)(p \<mapsto> new_user_thread task stack)\<rparr>"
  obtain b where b: "r = p" "threads s' = threads ?s" "b \<noteq> NULL" "\<not> live ?s b" "raws s' = (raws s)(b \<mapsto> 0x1000)"
    "vm_upd P vp R (vmst s) (t_vm tk) (stack_map P stack b) (vmst s')" using res False by (auto simp: set_up_def)
  note dead = not_live[OF b(4)]
  have bp: "b \<noteq> p" and bt: "b \<noteq> task" using dead(2,3) by auto
  have "\<not> live s b" if "b \<notin> set ps"
  proof -
    have "nodes s b = None" using dead(9) ns that by simp
    then show ?thesis using dead bp bt unfolding live_def by simp
  qed
  then show ?thesis using False st b p bp unfolding created_def by auto
qed

subsection \<open>Properties\<close>

text \<open>C39: the stacks of the threads of a task do not overlap. For thread indexes below the limit that
  \<open>anscheduler_thread_create\<close> enforces, the user stack pages of two threads are different, and
  so are their kernel stack pages; kernel stacks lie between the kernel and the user stack area,
  user stacks between the user stack and the data area, without wrap-around; and the stack
  pointers that the code hands out are the end of the last page of the thread's own stack.\<close>

theorem stack_pages_disjoint:
  assumes "a < 0x100000" and "b < 0x100000" and "i < 0x100" and "j < 0x100"
    and "threads s thread = Some th" and "th_stack th = a"
  shows "(user_page a i = user_page b j \<longleftrightarrow> a = b \<and> i = j) \<and> (kern_page a = kern_page b \<longleftrightarrow> a = b) \<and>
    kern_page a \<noteq> user_page b j \<and>
    KERN_STACKS_PAGE \<le> kern_page a \<and> kern_page a < USER_STACKS_PAGE \<and>
    USER_STACKS_PAGE \<le> user_page a i \<and> user_page a i < DATA_PAGE \<and>
    (\<exists>top. anscheduler_thread_user_stack thread s = Ret top s \<and> drop_bit 12 (top - 1) = user_page a 255) \<and>
    (\<exists>top. anscheduler_thread_interrupt_stack thread s = Ret top s \<and> drop_bit 12 (top - 1) = kern_page a)"
proof (intro conjI)
  note top = drop_bit_top and st = assms(1)[unfolded word_less_nat_alt]
  have "push_bit 8 a + USER_STACKS_PAGE + 0x100 = user_page a 255 + 1"
    by (simp add: user_page_def)
  moreover have "unat (user_page a 255) < 2 ^ 52 - 1"
    using unat_user_page[OF assms(1), of 255] st by simp
  ultimately have "drop_bit 12 (push_bit 12 (push_bit 8 a + USER_STACKS_PAGE + 0x100) - 1) = user_page a 255"
    using top by (simp only:)
  then show "\<exists>top. anscheduler_thread_user_stack thread s = Ret top s \<and> drop_bit 12 (top - 1) = user_page a 255"
    using assms(5,6) by (simp add: anscheduler_thread_user_stack_def kern Let_def)
  have "unat (kern_page a) < 2 ^ 52 - 1" using unat_kern_page[OF assms(1)] st by simp
  then have "drop_bit 12 (push_bit 12 (a + KERN_STACKS_PAGE + 1) - 1) = kern_page a"
    using top[of "kern_page a"] by (simp only: kern_page_def add.commute[of a])
  then show "\<exists>top. anscheduler_thread_interrupt_stack thread s = Ret top s \<and> drop_bit 12 (top - 1) = kern_page a"
    using assms(5,6) by (simp add: anscheduler_thread_interrupt_stack_def kern Let_def)
qed (use user_page_inj[OF assms(1-4)] kern_page_user_page[OF assms(1,2,4)] stack_page_bounds[OF assms(1,3)]
    in \<open>simp_all add: kern_page_def\<close>)

theorem stack_pages_disjoint_witness:
  "user_page 3 0 \<noteq> user_page 2 255 \<and>
   (\<exists>top. anscheduler_thread_user_stack 0xB0000 (intd_ex False) = Ret top (intd_ex False) \<and>
      drop_bit 12 (top - 1) = user_page 0 255)"
proof -
  have "threads (intd_ex False) 0xB0000 = Some (zero_thread\<lparr>th_task := 0xA0000, th_isPolling := False\<rparr>)"
    by (simp add: intd_ex_def)
  moreover have "th_stack (zero_thread\<lparr>th_task := 0xA0000, th_isPolling := False\<rparr>) = 0" by (simp add: zero_thread_def)
  ultimately have "\<exists>top. anscheduler_thread_user_stack 0xB0000 (intd_ex False) = Ret top (intd_ex False) \<and>
      drop_bit 12 (top - 1) = user_page 0 255"
    using stack_pages_disjoint[of 0 0 0 0 "intd_ex False" "0xB0000"] by simp
  moreover have "user_page 3 0 \<noteq> user_page 2 255"
    using user_page_inj[of 3 2 0 255] by simp
  ultimately show ?thesis by simp
qed


interpretation flat_threads: thread_platform flat_plat flat_spaces "\<lambda>_. True" ..

interpretation env_threads: thread_platform env_plat forest "\<lambda>p. p < 2 ^ 36" ..

definition thread_ex :: "flatvm sched" where
  "thread_ex = flat_boot\<lparr>tasks := [0xA0000 \<mapsto> zero_task\<lparr>t_refCount := 1, t_vm := 0x9000, t_stacks := small_root\<rparr>],
     nodes := [0x1000 \<mapsto> small_node], vmst := (0x9000, \<lambda>_ _. (0, 0))\<rparr>"


end
