(* ===== verification/Task_Create.thy ===== *)
theory Task_Create
  imports Task Thread_Stacks
begin

unbundle bit_operations_syntax

text \<open>
  Creating a task (\<open>anscheduler_task_create\<close>): a task with an address space of its own, in which the first
  4MB are mapped, with pools of stack and descriptor indexes and with a fresh PID; or no task, and
  then everything that was allocated on the way is released again.
\<close>

text \<open>
  A platform that also takes address spaces back: what is freed is no space any more, and the other
  spaces read as before.
\<close>

locale task_platform = page_allocator + task_spaces +
  assumes root_free: "spaces v (insert r R) \<Longrightarrow> r \<notin> R \<Longrightarrow> spaces (pf_vm_root_free P v r) R \<and>
    (\<forall>root \<in> R. \<forall>q. vp q \<longrightarrow> pf_vm_lookup P (pf_vm_root_free P v r) root q = pf_vm_lookup P v root q)"

interpretation flat_task: task_platform flat_plat flat_spaces "\<lambda>_. True"
  by unfold_locales (simp add: flat_plat_def flat_spaces_def)

interpretation env_task: task_platform env_plat forest "\<lambda>p. p < 2 ^ 36"
proof
  fix m :: ptmem and r R
  assume h: "forest m (insert r R)" "r \<notin> R"
  have "forest m R" using h(1) unfolding forest_def by blast
  then show "forest (pf_vm_root_free env_plat m r) R \<and> (\<forall>root \<in> R. \<forall>q. q < 2 ^ 36 \<longrightarrow>
      pf_vm_lookup env_plat (pf_vm_root_free env_plat m r) root q = pf_vm_lookup env_plat m root q)"
    using vm_root_free_ok[OF h] by (cases "vm_root_free m r") (auto simp: env_plat_def try_vm_def)
qed

subsection \<open>The first 4MB\<close>

definition FIRST_FLAGS :: u16 where "FIRST_FLAGS = 0x103"

lemma first_flags: "PAGE_FLAG_PRESENT OR PAGE_FLAG_WRITE OR PAGE_FLAG_GLOBAL = FIRST_FLAGS"
  by (simp add: FIRST_FLAGS_def PAGE_FLAG_PRESENT_def PAGE_FLAG_WRITE_def PAGE_FLAG_GLOBAL_def)

definition first_map :: "nat \<Rightarrow> u64 \<rightharpoonup> u64 \<times> u16" where
  "first_map n q = (if unat q < n then Some (q, FIRST_FLAGS) else None)"

lemma first_map_0 [simp]: "first_map 0 = Map.empty"
  by (simp add: first_map_def fun_eq_iff)

lemma first_map_Suc:
  assumes "n < 0x400"
  shows "first_map (Suc n) = (first_map n)(of_nat n \<mapsto> (of_nat n, FIRST_FLAGS))"
proof
  fix q :: u64
  have "unat (of_nat n :: u64) = n" using assms by (simp add: unat_of_nat)
  then have "unat q = n \<longleftrightarrow> q = of_nat n" by (auto simp: word_unat_eq_iff)
  then show "first_map (Suc n) q = ((first_map n)(of_nat n \<mapsto> (of_nat n, FIRST_FLAGS))) q"
    by (auto simp: first_map_def less_Suc_eq)
qed

context task_spaces
begin

lemma map_first_loop:
  assumes "tasks s task = Some tk" and "t_vm tk \<in> R" and "spaces (vmst s) R"
    and "vm_upd P vp R v0 (t_vm tk) (first_map i) (vmst s)" and "i \<le> 0x400" and "0x400 - i < k"
  shows "\<exists>ok v. kloop k Diverges (map_first_round P task) i s = Ret ok (s\<lparr>vmst := v\<rparr>) \<and> spaces v R \<and>
    (\<exists>n. vm_upd P vp R v0 (t_vm tk) (first_map n) v \<and> (ok \<longrightarrow> n = 0x400))"
  using assms
proof (induction k arbitrary: i s)
  case 0
  then show ?case by simp
next
  case (Suc k)
  show ?case
  proof (cases "i < 0x400")
    case False
    then have i: "i = 0x400" using Suc.prems(5) by simp
    have "map_first_round P task i s = Ret (Inr True) (s\<lparr>vmst := vmst s\<rparr>)"
      using i by (simp add: map_first_round_def kern)
    then have "kloop (Suc k) Diverges (map_first_round P task) i s = Ret True (s\<lparr>vmst := vmst s\<rparr>)" by (rule kloop_done)
    then show ?thesis using Suc.prems(3,4) i by blast
  next
    case True
    let ?p = "of_nat i :: u64"
    obtain ok v where m: "pf_vm_map P (vmst s) (t_vm tk) ?p ?p FIRST_FLAGS = (ok, v)" by fastforce
    have p: "unat ?p = i" using True by (simp add: unat_of_nat)
    have b: "vp ?p" "?p < 2 ^ 52" "FIRST_FLAGS < 0x1000"
      using vp_task[of ?p] p True by (simp_all add: word_less_nat_alt FIRST_FLAGS_def)
    note up = upd_map[OF Suc.prems(3,2) b Suc.prems(4) m]
    show ?thesis
    proof (cases ok)
      case ok: True
      have "map_first_round P task i s = Ret (Inl (Suc i)) (s\<lparr>vmst := v\<rparr>)"
        using True ok m Suc.prems(1) by (simp add: map_first_round_def first_flags anscheduler_vm_map_def kern)
      moreover have "vm_upd P vp R v0 (t_vm tk) (first_map (Suc i)) v" using up ok first_map_Suc[OF True] by simp
      ultimately show ?thesis
        using Suc.IH[of "s\<lparr>vmst := v\<rparr>" "Suc i"] Suc.prems up(2) True by (simp add: kloop_next)
    next
      case False
      have "map_first_round P task i s = Ret (Inr False) (s\<lparr>vmst := v\<rparr>)"
        using True False m Suc.prems(1) by (simp add: map_first_round_def first_flags anscheduler_vm_map_def kern)
      then have "kloop (Suc k) Diverges (map_first_round P task) i s = Ret False (s\<lparr>vmst := v\<rparr>)" by (rule kloop_done)
      then show ?thesis using up False by auto
    qed
  qed
qed

lemma map_first_runs:
  assumes "tasks s task = Some tk" and "t_vm tk \<in> R" and "spaces (vmst s) R"
  shows "\<exists>ok v. map_first_4mb P task s = Ret ok (s\<lparr>vmst := v\<rparr>) \<and> spaces v R \<and>
    (\<exists>n. vm_upd P vp R (vmst s) (t_vm tk) (first_map n) v \<and> (ok \<longrightarrow> n = 0x400))"
  unfolding map_first_4mb_def kwhile_def
  by (rule map_first_loop[OF assms]) (simp_all add: vm_upd_refl max_steps_def)

end

subsection \<open>The stages of the creation\<close>

text \<open>The code from the mapping of the first 4MB on, from the second index pool on, and from the first one on.\<close>

definition create_mapped :: "'v plat \<Rightarrow> addr \<Rightarrow> ('v, addr) kern" where
  "create_mapped P task =
     bnd (map_first_4mb P task) (\<lambda>ok.
     if \<not> ok then
       bnd (rd_task task) (\<lambda>tk.
       bnd (anidxset_free (t_descriptors tk)) (\<lambda>_.
       bnd (anidxset_free (t_stacks tk)) (\<lambda>_.
       bnd (anscheduler_vm_root_free P (t_vm tk)) (\<lambda>_.
       bnd (anscheduler_free_task task) (\<lambda>_.
       ret NULL)))))
     else
       bnd (anscheduler_pidmap_alloc_pid P) (\<lambda>pid.
       bnd (wr_task task (\<lambda>t. t\<lparr>t_pid := pid\<rparr>)) (\<lambda>_.
       ret task)))"

definition create_stacks :: "'v plat \<Rightarrow> addr \<Rightarrow> ('v, addr) kern" where
  "create_stacks P task =
     bnd (anscheduler_idxset_init P) (\<lambda>(ok, root).
     bnd (wr_task task (\<lambda>t. t\<lparr>t_stacks := root\<rparr>)) (\<lambda>_.
     if \<not> ok then
       bnd (rd_task task) (\<lambda>tk.
       bnd (anidxset_free (t_descriptors tk)) (\<lambda>_.
       bnd (anscheduler_vm_root_free P (t_vm tk)) (\<lambda>_.
       bnd (anscheduler_free_task task) (\<lambda>_.
       ret NULL))))
     else create_mapped P task))"

definition create_pools :: "'v plat \<Rightarrow> addr \<Rightarrow> ('v, addr) kern" where
  "create_pools P task =
     bnd (anscheduler_idxset_init P) (\<lambda>(ok, root).
     bnd (wr_task task (\<lambda>t. t\<lparr>t_descriptors := root\<rparr>)) (\<lambda>_.
     if \<not> ok then
       bnd (rd_task task) (\<lambda>tk.
       bnd (anscheduler_vm_root_free P (t_vm tk)) (\<lambda>_.
       bnd (anscheduler_free_task task) (\<lambda>_.
       ret NULL)))
     else create_stacks P task))"

lemma task_create_stages:
  "anscheduler_task_create P =
     bnd (anscheduler_alloc P (sizeof_task_t P)) (\<lambda>task.
     if task = NULL then ret NULL
     else
       bnd (new_task task zero_task) (\<lambda>_.
       bnd (wr_task task (\<lambda>t. t\<lparr>t_refCount := 1\<rparr>)) (\<lambda>_.
       bnd (anscheduler_vm_root_alloc P) (\<lambda>vm.
       bnd (wr_task task (\<lambda>t. t\<lparr>t_vm := vm\<rparr>)) (\<lambda>_.
       if vm = NULL then bnd (anscheduler_free_task task) (\<lambda>_. ret NULL)
       else create_pools P task)))))"
  unfolding anscheduler_task_create_def create_pools_def create_stacks_def create_mapped_def by (rule refl)

definition same_spaces :: "'v plat \<Rightarrow> (u64 \<Rightarrow> bool) \<Rightarrow> addr set \<Rightarrow> 'v \<Rightarrow> 'v \<Rightarrow> bool" where
  "same_spaces P vp R v v' \<longleftrightarrow> (\<forall>root \<in> R. \<forall>q. vp q \<longrightarrow> pf_vm_lookup P v' root q = pf_vm_lookup P v root q)"

text \<open>A pool that has handed out nothing yet.\<close>

definition fresh_pool :: "(addr \<rightharpoonup> anidxset_node_t) \<Rightarrow> anidxset_root_t \<Rightarrow> addr \<Rightarrow> bool" where
  "fresh_pool ns root d \<longleftrightarrow> idxset ns root [d] \<and> ix_used root = of_nat NODE_CAPACITY \<and>
     chain_stack ns [d] = map of_nat [0..<NODE_CAPACITY]"

text \<open>
  The PID pool of a state: its nodes and the next PID. \<open>pid_taken\<close>: the PID is handed out and nothing but
  the nodes of the pool has changed in the nodes.
\<close>

definition pid_pool :: "'v sched \<Rightarrow> addr list \<Rightarrow> bool" where
  "pid_pool s ps \<longleftrightarrow> cpu_locked s \<and> ppInitialized s \<and> PpLock \<notin> set (held s) \<and> idxset (nodes s) (pidPool s) ps"

definition pid_taken ::
  "(addr \<rightharpoonup> anidxset_node_t) \<Rightarrow> anidxset_root_t \<Rightarrow> addr list \<Rightarrow> u64 \<Rightarrow> (addr \<rightharpoonup> anidxset_node_t) \<Rightarrow> anidxset_root_t \<Rightarrow> bool" where
  "pid_taken ns root ps pid ns' root' \<longleftrightarrow> (\<forall>q. q \<notin> set ps \<longrightarrow> ns' q = ns q) \<and> (\<exists>ps'. set ps' \<subseteq> set ps \<and>
     idxset ns' root' ps' \<and> (pid, chain_stack ns' ps', ix_used root') = idx_get (chain_stack ns ps, ix_used root))"

lemma alloc_pid_takes:
  assumes "pid_pool s ps"
  shows "\<exists>pid ns pool. anscheduler_pidmap_alloc_pid P s = Ret pid (s\<lparr>nodes := ns, pidPool := pool\<rparr>) \<and>
    pid_taken (nodes s) (pidPool s) ps pid ns pool"
proof -
  let ?s = "s\<lparr>held := PpLock # held s\<rparr>"
  have "idxset (nodes ?s) (pidPool s) ps" "cpu_locked ?s" using assms by (simp_all add: pid_pool_def)
  from anidxset_get_refines[OF this] obtain x root' ps' s' where
    g: "anidxset_get (pidPool s) ?s = Ret (x, root') s'" "s' = ?s\<lparr>nodes := nodes s'\<rparr>"
      "\<forall>q. q \<notin> set ps \<longrightarrow> nodes s' q = nodes s q" "set ps' \<subseteq> set ps" "idxset (nodes s') root' ps'"
      "(x, chain_stack (nodes s') ps', ix_used root') = idx_get (chain_stack (nodes s) ps, ix_used (pidPool s))"
    by auto
  have h: "held s' = PpLock # held s" by (subst g(2)) simp
  have "anscheduler_pidmap_alloc_pid P s = Ret x (s'\<lparr>pidPool := root', held := held s\<rparr>)"
    using assms by (intro alloc_pid_runs[OF _ _ g(1) h]) (simp_all add: pid_pool_def)
  also have "s'\<lparr>pidPool := root', held := held s\<rparr> = s\<lparr>nodes := nodes s', pidPool := root'\<rparr>"
    by (subst g(2)) (rule sched.equality; simp)
  finally show ?thesis using g(3-6) unfolding pid_taken_def by blast
qed

lemma free_pool_runs:
  assumes "idxset (nodes s) root [d]" and "cpu_locked s"
  shows "anidxset_free root s = Ret () (s\<lparr>nodes := (nodes s)(d := None)\<rparr>)"
proof -
  have "(\<lambda>p. if p \<in> set [d] then None else nodes s p) = (nodes s)(d := None)" by auto
  then show ?thesis using anidxset_free_releases[OF assms] by simp
qed

lemma idxset_other:
  assumes "idxset ns root [e]" and "d \<noteq> e"
  shows "idxset (ns(d := x)) root [e]"
  using assms(1) by (subst idxset_cong[of "[e]" _ ns]) (use assms(2) in auto)

lemma pid_taken_frame:
  assumes "\<And>q. q \<in> set ps \<Longrightarrow> ns q = ns0 q" and "pid_taken ns root ps pid ns' root'"
  shows "\<exists>ps'. idxset ns' root' ps' \<and> (pid, chain_stack ns' ps', ix_used root') = idx_get (chain_stack ns0 ps, ix_used root)"
  using assms(2) chain_stack_cong[of ps ns ns0] assms(1) unfolding pid_taken_def by auto

text \<open>
  How the address space \<open>r\<close> of the state \<open>v0\<close> is given back: some of the first pages may have been mapped into it,
  then the platform frees it. The other spaces read as before.
\<close>

definition discarded :: "'v plat \<Rightarrow> ('v \<Rightarrow> addr set \<Rightarrow> bool) \<Rightarrow> (u64 \<Rightarrow> bool) \<Rightarrow> addr set \<Rightarrow> addr \<Rightarrow> 'v \<Rightarrow> 'v \<Rightarrow> bool" where
  "discarded P spaces vp R r v0 v \<longleftrightarrow> spaces v R \<and> same_spaces P vp R v0 v \<and>
     (\<exists>n w. spaces w (insert r R) \<and> vm_upd P vp (insert r R) v0 r (first_map n) w \<and> v = pf_vm_root_free P w r)"

text \<open>
  What a complete task has: its address space with the first 4MB, two fresh pools of indexes apart from
  each other, and the PID that was next in the pool \<open>pool0\<close> on the nodes \<open>ps\<close>.
\<close>

definition built ::
  "'v plat \<Rightarrow> ('v \<Rightarrow> addr set \<Rightarrow> bool) \<Rightarrow> (u64 \<Rightarrow> bool) \<Rightarrow> addr set \<Rightarrow> 'v \<Rightarrow> (addr \<rightharpoonup> anidxset_node_t) \<Rightarrow> anidxset_root_t \<Rightarrow>
   addr list \<Rightarrow> task_t \<Rightarrow> (addr \<rightharpoonup> anidxset_node_t) \<Rightarrow> 'v \<Rightarrow> anidxset_root_t \<Rightarrow> bool" where
  "built P spaces vp R v0 ns0 pool0 ps tk ns v pool \<longleftrightarrow>
     spaces v (insert (t_vm tk) R) \<and> vm_upd P vp (insert (t_vm tk) R) v0 (t_vm tk) (first_map 0x400) v \<and>
     (\<exists>d e. d \<noteq> e \<and> fresh_pool ns (t_descriptors tk) d \<and> fresh_pool ns (t_stacks tk) e) \<and>
     (\<exists>ps'. idxset ns pool ps' \<and> (t_pid tk, chain_stack ns ps', ix_used pool) = idx_get (chain_stack ns0 ps, ix_used pool0))"

lemma fresh_pool_cong: "ns d = ns' d \<Longrightarrow> fresh_pool ns root d = fresh_pool ns' root d"
  using idxset_cong[of "[d]" ns ns' root] chain_stack_cong[of "[d]" ns ns'] by (simp add: fresh_pool_def)

lemma built_frame:
  assumes "built P spaces vp R v0 ns1 pool0 ps tk ns v pool" and "\<And>q. q \<in> set ps \<Longrightarrow> ns1 q = ns0 q"
  shows "built P spaces vp R v0 ns0 pool0 ps tk ns v pool"
  using assms(1) chain_stack_cong[OF assms(2)] unfolding built_def by simp

lemma idxset_nodes: "idxset ns root ps \<Longrightarrow> q \<in> set ps \<Longrightarrow> ns q \<noteq> None"
  by (cases ps) (auto simp: idxset_def node_full_def)

context task_platform
begin

lemma upd_same_spaces:
  "vm_upd P vp (insert r R) v0 r m v \<Longrightarrow> r \<notin> R \<Longrightarrow> same_spaces P vp R v0 v"
  unfolding vm_upd_def same_spaces_def by (auto split: option.splits)

lemma free_root_discards:
  assumes "spaces v (insert r R)" and "r \<notin> R" and "vm_upd P vp (insert r R) v0 r (first_map n) v"
  shows "discarded P spaces vp R r v0 (pf_vm_root_free P v r)"
  using root_free[OF assms(1,2)] upd_same_spaces[OF assms(3,2)] assms(1,3)
  unfolding discarded_def same_spaces_def by auto

lemma create_mapped_runs:
  assumes tk: "tasks s task = Some tk" "task \<noteq> NULL" and vm: "t_vm tk = r" "r \<notin> R" "spaces (vmst s) (insert r R)"
    and pools: "idxset (nodes s) (t_descriptors tk) [d]" "idxset (nodes s) (t_stacks tk) [e]" "d \<noteq> e"
    and pp: "pid_pool s ps"
  shows "(\<exists>v. create_mapped P task s =
        Ret NULL (s\<lparr>tasks := (tasks s)(task := None), nodes := (nodes s)(d := None, e := None), vmst := v\<rparr>) \<and>
        discarded P spaces vp R r (vmst s) v) \<or>
    (\<exists>pid ns pool v. create_mapped P task s = Ret task
        (s\<lparr>tasks := (tasks s)(task \<mapsto> tk\<lparr>t_pid := pid\<rparr>), nodes := ns, vmst := v, pidPool := pool\<rparr>) \<and>
      spaces v (insert r R) \<and> vm_upd P vp (insert r R) (vmst s) r (first_map 0x400) v \<and>
      pid_taken (nodes s) (pidPool s) ps pid ns pool)"
proof -
  have c: "cpu_locked s" using pp by (simp add: pid_pool_def)
  from map_first_runs[OF tk(1) _ vm(3)] vm(1) obtain ok v n where
    m: "map_first_4mb P task s = Ret ok (s\<lparr>vmst := v\<rparr>)" "spaces v (insert r R)"
      "vm_upd P vp (insert r R) (vmst s) r (first_map n) v" "ok \<longrightarrow> n = 0x400" by auto
  show ?thesis
  proof (cases ok)
    case False
    let ?s1 = "s\<lparr>vmst := v\<rparr>" let ?s2 = "?s1\<lparr>nodes := (nodes s)(d := None)\<rparr>"
    have f1: "anidxset_free (t_descriptors tk) ?s1 = Ret () ?s2" using free_pool_runs[of ?s1] pools(1) c by simp
    have f2: "anidxset_free (t_stacks tk) ?s2 = Ret () (?s2\<lparr>nodes := (nodes s)(d := None, e := None)\<rparr>)"
      using free_pool_runs[of ?s2 "t_stacks tk" e] idxset_other[OF pools(2,3)] c by simp
    have "create_mapped P task s = Ret NULL (s\<lparr>tasks := (tasks s)(task := None),
        nodes := (nodes s)(d := None, e := None), vmst := pf_vm_root_free P v r\<rparr>)"
      using False m(1) f1 f2 tk(1) vm(1) c by (simp add: create_mapped_def kern sched_order)
    moreover have "discarded P spaces vp R r (vmst s) (pf_vm_root_free P v r)"
      by (rule free_root_discards[OF m(2) vm(2) m(3)])
    ultimately show ?thesis by blast
  next
    case True
    let ?s1 = "s\<lparr>vmst := v\<rparr>"
    have "pid_pool ?s1 ps" using pp by (simp add: pid_pool_def)
    from alloc_pid_takes[OF this, of P] obtain pid ns pool where
      a: "anscheduler_pidmap_alloc_pid P ?s1 = Ret pid (?s1\<lparr>nodes := ns, pidPool := pool\<rparr>)"
        "pid_taken (nodes s) (pidPool s) ps pid ns pool" by auto
    have "create_mapped P task s = Ret task
        (?s1\<lparr>nodes := ns, pidPool := pool, tasks := (tasks s)(task \<mapsto> tk\<lparr>t_pid := pid\<rparr>)\<rparr>)"
      using True m(1) a(1) tk(1) by (simp add: create_mapped_def kern)
    also have "?s1\<lparr>nodes := ns, pidPool := pool, tasks := (tasks s)(task \<mapsto> tk\<lparr>t_pid := pid\<rparr>)\<rparr> =
        s\<lparr>tasks := (tasks s)(task \<mapsto> tk\<lparr>t_pid := pid\<rparr>), nodes := ns, vmst := v, pidPool := pool\<rparr>"
      by (rule sched.equality; simp)
    finally show ?thesis using m(2,3,4) a(2) True by blast
  qed
qed

lemma create_stacks_runs:
  assumes tk: "tasks s task = Some tk" "task \<noteq> NULL" and vm: "t_vm tk = r" "r \<notin> R" "spaces (vmst s) (insert r R)"
    and d: "fresh_pool (nodes s) (t_descriptors tk) d" "d \<notin> set ps" and pp: "pid_pool s ps"
  shows "(\<exists>n v. create_stacks P task s =
        Ret NULL (s\<lparr>tasks := (tasks s)(task := None), nodes := (nodes s)(d := None), allocs := n, vmst := v\<rparr>) \<and>
        discarded P spaces vp R r (vmst s) v) \<or>
    (\<exists>pid st ns n pool v. create_stacks P task s = Ret task
        (s\<lparr>tasks := (tasks s)(task \<mapsto> tk\<lparr>t_stacks := st, t_pid := pid\<rparr>), nodes := ns, allocs := n, vmst := v, pidPool := pool\<rparr>) \<and>
      built P spaces vp R (vmst s) (nodes s) (pidPool s) ps (tk\<lparr>t_stacks := st, t_pid := pid\<rparr>) ns v pool)"
proof -
  have c: "cpu_locked s" and ix: "idxset (nodes s) (pidPool s) ps" using pp by (simp_all add: pid_pool_def)
  have dx: "idxset (nodes s) (t_descriptors tk) [d]" using d(1) by (simp add: fresh_pool_def)
  from anidxset_initialize_refines[OF allocator_axioms c] show ?thesis
  proof (elim disjE exE conjE)
    fix root assume i: "anidxset_initialize P s = Ret (False, root) (s\<lparr>allocs := Suc (allocs s)\<rparr>)"
    let ?s1 = "s\<lparr>tasks := (tasks s)(task \<mapsto> tk\<lparr>t_stacks := root\<rparr>), allocs := Suc (allocs s)\<rparr>"
    have f: "anidxset_free (t_descriptors tk) ?s1 = Ret () (?s1\<lparr>nodes := (nodes s)(d := None)\<rparr>)"
      using free_pool_runs[of ?s1 "t_descriptors tk" d] dx c by simp
    have "create_stacks P task s = Ret NULL (s\<lparr>tasks := (tasks s)(task := None), nodes := (nodes s)(d := None),
        allocs := Suc (allocs s), vmst := pf_vm_root_free P (vmst s) r\<rparr>)"
      using i f tk(1) vm(1) c by (simp add: create_stacks_def anscheduler_idxset_init_def kern sched_order)
    moreover have "discarded P spaces vp R r (vmst s) (pf_vm_root_free P (vmst s) r)"
      by (rule free_root_discards[OF vm(3,2), of _ 0]) (simp add: vm_upd_refl)
    ultimately show ?thesis by blast
  next
    fix root s1 e
    assume i: "anidxset_initialize P s = Ret (True, root) s1" and e: "\<not> live s e"
      and s1: "s1 = s\<lparr>nodes := nodes s1, allocs := allocs s1\<rparr>" and n1: "\<forall>q. q \<noteq> e \<longrightarrow> nodes s1 q = nodes s q"
      and ex: "idxset (nodes s1) root [e]" "ix_used root = of_nat NODE_CAPACITY"
        "chain_stack (nodes s1) [e] = map of_nat [0..<NODE_CAPACITY]"
    have ne: "nodes s e = None" using e by simp
    then have de: "d \<noteq> e" and eps: "e \<notin> set ps" using idxset_nodes[OF dx, of d] idxset_nodes[OF ix, of e] by auto
    let ?tk = "tk\<lparr>t_stacks := root\<rparr>"
    let ?s2 = "s\<lparr>tasks := (tasks s)(task \<mapsto> ?tk), nodes := nodes s1, allocs := allocs s1\<rparr>"
    have s2: "s1\<lparr>tasks := (tasks s)(task \<mapsto> ?tk)\<rparr> = ?s2" by (subst s1) (rule sched.equality; simp)
    have t1: "tasks s1 = tasks s" by (subst s1) simp
    have run: "create_stacks P task s = create_mapped P task ?s2"
      using i tk(1) unfolding s2[symmetric] by (simp add: create_stacks_def anscheduler_idxset_init_def kern t1)
    have old: "nodes s1 q = nodes s q" if "q \<in> set ps" for q using that n1 eps by auto
    have px: "pid_pool ?s2 ps" using pp idxset_cong[of ps "nodes s1" "nodes s" "pidPool s", OF old] by (simp add: pid_pool_def)
    have "idxset (nodes ?s2) (t_descriptors ?tk) [d]" "idxset (nodes ?s2) (t_stacks ?tk) [e]"
      using idxset_cong[of "[d]" "nodes s" "nodes s1" "t_descriptors tk"] dx n1 de ex(1) by auto
    with create_mapped_runs[of ?s2 task ?tk r R d e ps] tk(2) vm px de
    consider (fail) v where "create_mapped P task ?s2 = Ret NULL (?s2\<lparr>tasks := (tasks ?s2)(task := None),
        nodes := (nodes ?s2)(d := None, e := None), vmst := v\<rparr>)" "discarded P spaces vp R r (vmst s) v"
      | (ok) pid ns pool v where "create_mapped P task ?s2 = Ret task (?s2\<lparr>tasks := (tasks ?s2)(task \<mapsto> ?tk\<lparr>t_pid := pid\<rparr>),
          nodes := ns, vmst := v, pidPool := pool\<rparr>)" "spaces v (insert r R)"
        "vm_upd P vp (insert r R) (vmst s) r (first_map 0x400) v" "pid_taken (nodes s1) (pidPool s) ps pid ns pool"
      by auto
    then show ?thesis
    proof cases
      case fail
      have "(nodes s1)(d := None, e := None) = (nodes s)(d := None)" using n1 ne by (auto simp: fun_eq_iff)
      then have "create_stacks P task s = Ret NULL (s\<lparr>tasks := (tasks s)(task := None), nodes := (nodes s)(d := None),
          allocs := allocs s1, vmst := v\<rparr>)" using fail(1) run by (simp add: sched_order)
      then show ?thesis using fail(2) by blast
    next
      case ok
      have "create_stacks P task s = Ret task (s\<lparr>tasks := (tasks s)(task \<mapsto> ?tk\<lparr>t_pid := pid\<rparr>), nodes := ns,
          allocs := allocs s1, vmst := v, pidPool := pool\<rparr>)" using ok(1) run by (simp add: sched_order)
      moreover have "built P spaces vp R (vmst s) (nodes s) (pidPool s) ps (?tk\<lparr>t_pid := pid\<rparr>) ns v pool"
      proof -
        have "ns d = nodes s d" "ns e = nodes s1 e" using ok(4) d(2) eps n1 de by (auto simp: pid_taken_def)
        then have "fresh_pool ns (t_descriptors tk) d" "fresh_pool ns root e"
          using d(1) ex fresh_pool_cong[of ns d "nodes s"] fresh_pool_cong[of ns e "nodes s1"]
          by (auto simp: fresh_pool_def)
        then show ?thesis
          using ok(2,3) pid_taken_frame[of ps "nodes s1" "nodes s", OF old ok(4)] de vm(1) unfolding built_def by auto
      qed
      ultimately show ?thesis by auto
    qed
  qed
qed

lemma create_pools_runs:
  assumes tk: "tasks s task = Some tk" "task \<noteq> NULL" and vm: "t_vm tk = r" "r \<notin> R" "spaces (vmst s) (insert r R)"
    and pp: "pid_pool s ps"
  shows "(\<exists>n v. create_pools P task s =
        Ret NULL (s\<lparr>tasks := (tasks s)(task := None), allocs := n, vmst := v\<rparr>) \<and> discarded P spaces vp R r (vmst s) v) \<or>
    (\<exists>pid ds st ns n pool v. create_pools P task s = Ret task
        (s\<lparr>tasks := (tasks s)(task \<mapsto> tk\<lparr>t_descriptors := ds, t_stacks := st, t_pid := pid\<rparr>), nodes := ns, allocs := n,
           vmst := v, pidPool := pool\<rparr>) \<and>
      built P spaces vp R (vmst s) (nodes s) (pidPool s) ps (tk\<lparr>t_descriptors := ds, t_stacks := st, t_pid := pid\<rparr>) ns v pool)"
proof -
  have c: "cpu_locked s" and ix: "idxset (nodes s) (pidPool s) ps" using pp by (simp_all add: pid_pool_def)
  from anidxset_initialize_refines[OF allocator_axioms c] show ?thesis
  proof (elim disjE exE conjE)
    fix root assume i: "anidxset_initialize P s = Ret (False, root) (s\<lparr>allocs := Suc (allocs s)\<rparr>)"
    have "create_pools P task s = Ret NULL (s\<lparr>tasks := (tasks s)(task := None),
        allocs := Suc (allocs s), vmst := pf_vm_root_free P (vmst s) r\<rparr>)"
      using i tk(1) vm(1) c by (simp add: create_pools_def anscheduler_idxset_init_def kern sched_order)
    moreover have "discarded P spaces vp R r (vmst s) (pf_vm_root_free P (vmst s) r)"
      by (rule free_root_discards[OF vm(3,2), of _ 0]) (simp add: vm_upd_refl)
    ultimately show ?thesis by blast
  next
    fix root s1 d
    assume i: "anidxset_initialize P s = Ret (True, root) s1" and d: "\<not> live s d"
      and s1: "s1 = s\<lparr>nodes := nodes s1, allocs := allocs s1\<rparr>" and n1: "\<forall>q. q \<noteq> d \<longrightarrow> nodes s1 q = nodes s q"
      and dx: "idxset (nodes s1) root [d]" "ix_used root = of_nat NODE_CAPACITY"
        "chain_stack (nodes s1) [d] = map of_nat [0..<NODE_CAPACITY]"
    have nd: "nodes s d = None" using d by simp
    then have dps: "d \<notin> set ps" using idxset_nodes[OF ix, of d] by auto
    let ?tk = "tk\<lparr>t_descriptors := root\<rparr>"
    let ?s2 = "s\<lparr>tasks := (tasks s)(task \<mapsto> ?tk), nodes := nodes s1, allocs := allocs s1\<rparr>"
    have s2: "s1\<lparr>tasks := (tasks s)(task \<mapsto> ?tk)\<rparr> = ?s2" by (subst s1) (rule sched.equality; simp)
    have t1: "tasks s1 = tasks s" by (subst s1) simp
    have run: "create_pools P task s = create_stacks P task ?s2"
      using i tk(1) unfolding s2[symmetric] by (simp add: create_pools_def anscheduler_idxset_init_def kern t1)
    have old: "nodes s1 q = nodes s q" if "q \<in> set ps" for q using that n1 dps by auto
    have px: "pid_pool ?s2 ps" using pp idxset_cong[of ps "nodes s1" "nodes s" "pidPool s", OF old] by (simp add: pid_pool_def)
    have "fresh_pool (nodes ?s2) (t_descriptors ?tk) d" using dx by (simp add: fresh_pool_def)
    with create_stacks_runs[of ?s2 task ?tk r R d ps] tk(2) vm px dps
    consider (fail) n v where "create_stacks P task ?s2 = Ret NULL (?s2\<lparr>tasks := (tasks ?s2)(task := None),
        nodes := (nodes ?s2)(d := None), allocs := n, vmst := v\<rparr>)" "discarded P spaces vp R r (vmst s) v"
      | (ok) pid st ns n pool v where "create_stacks P task ?s2 = Ret task
          (?s2\<lparr>tasks := (tasks ?s2)(task \<mapsto> ?tk\<lparr>t_stacks := st, t_pid := pid\<rparr>), nodes := ns, allocs := n, vmst := v, pidPool := pool\<rparr>)"
        "built P spaces vp R (vmst s) (nodes s1) (pidPool s) ps (?tk\<lparr>t_stacks := st, t_pid := pid\<rparr>) ns v pool"
      by auto
    then show ?thesis
    proof cases
      case fail
      have "(nodes s1)(d := None) = nodes s" using n1 nd by (auto simp: fun_eq_iff)
      moreover have "s\<lparr>nodes := nodes s\<rparr> = s" by simp
      ultimately have "create_pools P task s = Ret NULL (s\<lparr>tasks := (tasks s)(task := None), allocs := n, vmst := v\<rparr>)"
        using fail(1) run by (simp add: sched_order)
      then show ?thesis using fail(2) by blast
    next
      case ok
      have "create_pools P task s = Ret task (s\<lparr>tasks := (tasks s)(task \<mapsto> ?tk\<lparr>t_stacks := st, t_pid := pid\<rparr>), nodes := ns,
          allocs := n, vmst := v, pidPool := pool\<rparr>)" using ok(1) run by (simp add: sched_order)
      then show ?thesis using built_frame[OF ok(2) old] by blast
    qed
  qed
qed

end

subsection \<open>Creating a task\<close>

text \<open>
  The state of a new task: nobody refers to it but its creator, it has no threads and no sockets, in its own address
  space exactly the first 4MB are mapped (page to page, for the kernel), its pools of indexes are fresh, and
  its PID is the one that the PID pool had next.
\<close>

definition created_task ::
  "'v plat \<Rightarrow> ('v \<Rightarrow> addr set \<Rightarrow> bool) \<Rightarrow> (u64 \<Rightarrow> bool) \<Rightarrow> addr set \<Rightarrow> 'v sched \<Rightarrow> addr list \<Rightarrow> task_t \<Rightarrow>
   (addr \<rightharpoonup> anidxset_node_t) \<Rightarrow> 'v \<Rightarrow> anidxset_root_t \<Rightarrow> bool" where
  "created_task P spaces vp R s ps tk ns v pool \<longleftrightarrow>
     tk = zero_task\<lparr>t_refCount := 1, t_vm := t_vm tk, t_descriptors := t_descriptors tk, t_stacks := t_stacks tk, t_pid := t_pid tk\<rparr> \<and>
     t_vm tk \<notin> R \<and> spaces v (insert (t_vm tk) R) \<and> same_spaces P vp R (vmst s) v \<and>
     (\<forall>q. vp q \<longrightarrow> pf_vm_lookup P v (t_vm tk) q =
        (if q < 0x400 then (q, PAGE_FLAG_PRESENT OR PAGE_FLAG_WRITE OR PAGE_FLAG_GLOBAL) else (0, 0))) \<and>
     (\<exists>d e. d \<noteq> e \<and> fresh_pool ns (t_descriptors tk) d \<and> fresh_pool ns (t_stacks tk) e) \<and>
     (\<exists>ps'. idxset ns pool ps' \<and>
        (t_pid tk, chain_stack ns ps', ix_used pool) = idx_get (chain_stack (nodes s) ps, ix_used (pidPool s)))"

lemma built_created:
  assumes b: "built P spaces vp R v1 (nodes s) (pidPool s) ps tk ns v pool"
    and tk: "tk = zero_task\<lparr>t_refCount := 1, t_vm := r, t_descriptors := ds, t_stacks := st, t_pid := pid\<rparr>"
    and r: "r \<notin> R" "\<forall>q. vp q \<longrightarrow> pf_vm_lookup P v1 r q = (0, 0)" and s1: "same_spaces P vp R (vmst s) v1"
  shows "created_task P spaces vp R s ps tk ns v pool"
proof -
  have vm: "t_vm tk = r" unfolding tk by simp
  have u: "vm_upd P vp (insert r R) v1 r (first_map 0x400) v" using b vm by (simp add: built_def)
  have lt: "unat q < 0x400 \<longleftrightarrow> q < 0x400" for q :: u64 by (simp add: word_less_nat_alt)
  have "pf_vm_lookup P v r q = (if q < 0x400 then (q, FIRST_FLAGS) else (0, 0))" if "vp q" for q
    using u that r(2) by (simp add: vm_upd_def first_map_def lt)
  moreover have "same_spaces P vp R (vmst s) v"
    using u r(1) s1 unfolding vm_upd_def same_spaces_def by (auto split: option.split)
  moreover have "tk = zero_task\<lparr>t_refCount := 1, t_vm := t_vm tk, t_descriptors := t_descriptors tk,
      t_stacks := t_stacks tk, t_pid := t_pid tk\<rparr>" unfolding tk by (simp add: zero_task_def)
  ultimately show ?thesis
    using b r(1) unfolding created_task_def built_def vm first_flags by blast
qed


text \<open>A state whose PID pool has handed out 0, on the page tables of the reference port.\<close>

definition task_ex :: "ptmem sched" where
  "task_ex = (boot empty_vm)\<lparr>nodes := [0x1000 \<mapsto> small_node], pidPool := small_root, ppInitialized := True\<rparr>"


end
