(* ===== verification/Thread_Exit.thy ===== *)
theory Thread_Exit
  imports Thread_Stacks
begin

unbundle bit_operations_syntax

text \<open>
  \<open>anscheduler_thread_deallocate\<close>: the user stack of a thread is unmapped and its memory freed in
  two passes over its 256 pages. The first pass takes the pages out of use without forgetting
  their memory, the second frees it.
\<close>

definition page_present :: "u16 \<Rightarrow> bool" where
  "page_present f \<longleftrightarrow> f AND PAGE_FLAG_PRESENT \<noteq> 0"

text \<open>What the first pass does to the entry of a page.\<close>

definition released :: "u64 \<times> u16 \<Rightarrow> u64 \<times> u16" where
  "released e = (fst e, if page_present (snd e) then (snd e XOR PAGE_FLAG_PRESENT) OR PAGE_FLAG_UNALLOC else snd e)"

definition in_stack :: "u64 \<Rightarrow> nat \<Rightarrow> u64 \<Rightarrow> bool" where
  "in_stack stack n q \<longleftrightarrow> (\<exists>i < n. q = user_page stack i)"

text \<open>The entries after \<open>j\<close> rounds of the first and of the second pass.\<close>

definition release_map :: "(u64 \<Rightarrow> u64 \<times> u16) \<Rightarrow> u64 \<Rightarrow> nat \<Rightarrow> (u64 \<rightharpoonup> u64 \<times> u16)" where
  "release_map lk stack j q = (if in_stack stack j q then Some (released (lk q)) else None)"

definition free_map :: "(u64 \<Rightarrow> u64 \<times> u16) \<Rightarrow> u64 \<Rightarrow> nat \<Rightarrow> (u64 \<rightharpoonup> u64 \<times> u16)" where
  "free_map lk stack j q = (if in_stack stack j q then Some (0, 0)
     else if in_stack stack 0x100 q then Some (released (lk q)) else None)"

text \<open>The memory of page \<open>i\<close> of a stack, and of the allocated ones among the first \<open>j\<close> pages.\<close>

definition page_block :: "'v plat \<Rightarrow> (u64 \<Rightarrow> u64 \<times> u16) \<Rightarrow> u64 \<Rightarrow> nat \<Rightarrow> addr" where
  "page_block P lk stack i = push_bit 12 (pf_vm_virtual P (fst (lk (user_page stack i))))"

definition stack_blocks :: "'v plat \<Rightarrow> (u64 \<Rightarrow> u64 \<times> u16) \<Rightarrow> u64 \<Rightarrow> nat \<Rightarrow> addr set" where
  "stack_blocks P lk stack j = {page_block P lk stack i | i. i < j \<and> page_present (snd (lk (user_page stack i)))}"

text \<open>
  A well-formed user stack: the entry of each page is a page number and flags; a page that is
  present has a block of its own, one that is not present has none.
\<close>

definition stack_ok :: "'v plat \<Rightarrow> (addr \<rightharpoonup> u64) \<Rightarrow> (u64 \<Rightarrow> u64 \<times> u16) \<Rightarrow> u64 \<Rightarrow> bool" where
  "stack_ok P raw lk stack \<longleftrightarrow>
     (\<forall>i < 0x100. fst (lk (user_page stack i)) < 2 ^ 52 \<and> snd (lk (user_page stack i)) < 0x1000 \<and>
        (if page_present (snd (lk (user_page stack i)))
         then fst (lk (user_page stack i)) \<noteq> 0 \<and> raw (page_block P lk stack i) \<noteq> None
         else fst (lk (user_page stack i)) = 0)) \<and>
     (\<forall>i < 0x100. \<forall>j < 0x100. page_present (snd (lk (user_page stack i))) \<longrightarrow>
        page_present (snd (lk (user_page stack j))) \<longrightarrow> page_block P lk stack i = page_block P lk stack j \<longrightarrow> i = j)"

lemma stack_ok_inj:
  assumes "stack_ok P raw lk stack" and "i < 0x100" and "j < 0x100" and "page_present (snd (lk (user_page stack i)))"
    and "page_present (snd (lk (user_page stack j)))" and "page_block P lk stack i = page_block P lk stack j"
  shows "i = j"
  using assms unfolding stack_ok_def by blast

subsection \<open>Flags\<close>

lemma take_bit_flags: "take_bit 12 (f :: u16) = f \<longleftrightarrow> f < 0x1000"
  by (simp add: word_unat_eq_iff unsigned_take_bit_eq take_bit_nat_eq_self_iff word_less_nat_alt)

lemma released_flags:
  assumes "f < (0x1000 :: u16)"
  shows "(f XOR PAGE_FLAG_PRESENT) OR PAGE_FLAG_UNALLOC < 0x1000"
    and "((f XOR PAGE_FLAG_PRESENT) OR PAGE_FLAG_UNALLOC) AND PAGE_FLAG_UNALLOC \<noteq> 0"
proof -
  let ?g = "(f XOR PAGE_FLAG_PRESENT) OR PAGE_FLAG_UNALLOC"
  have f: "take_bit 12 f = f" using assms by (simp add: take_bit_flags)
  have "take_bit 12 ?g = ?g"
    by (simp add: take_bit_or take_bit_xor f PAGE_FLAG_PRESENT_def PAGE_FLAG_UNALLOC_def)
  then show "?g < 0x1000" by (simp only: take_bit_flags)
  have "bit (?g AND PAGE_FLAG_UNALLOC) 9" by (simp add: bit_and_iff bit_or_iff PAGE_FLAG_UNALLOC_def)
  then show "?g AND PAGE_FLAG_UNALLOC \<noteq> 0" by auto
qed

lemma in_stack_Suc: "in_stack stack (Suc j) q \<longleftrightarrow> q = user_page stack j \<or> in_stack stack j q"
  by (auto simp: in_stack_def less_Suc_eq)

lemma in_stack_self:
  assumes "stack < 0x100000" and "i < 0x100" and "j \<le> 0x100"
  shows "in_stack stack j (user_page stack i) \<longleftrightarrow> i < j"
proof
  assume "in_stack stack j (user_page stack i)"
  then obtain k where "k < j" "user_page stack i = user_page stack k" by (auto simp: in_stack_def)
  then show "i < j" using user_page_inj[OF assms(1,1,2), of k] assms(3) by simp
qed (auto simp: in_stack_def)

lemma release_map_0 [simp]: "release_map lk stack 0 = Map.empty"
  by (simp add: release_map_def in_stack_def fun_eq_iff)

lemma release_map_Suc:
  "release_map lk stack (Suc j) = (release_map lk stack j)(user_page stack j \<mapsto> released (lk (user_page stack j)))"
  by (simp add: release_map_def in_stack_Suc fun_eq_iff)

lemma free_map_0: "free_map lk stack 0 = release_map lk stack 0x100"
  by (simp add: free_map_def release_map_def in_stack_def fun_eq_iff)

lemma free_map_Suc: "free_map lk stack (Suc j) = (free_map lk stack j)(user_page stack j \<mapsto> (0, 0))"
  by (simp add: free_map_def in_stack_Suc fun_eq_iff)

lemma stack_blocks_Suc:
  "stack_blocks P lk stack (Suc j) = (if page_present (snd (lk (user_page stack j)))
     then insert (page_block P lk stack j) (stack_blocks P lk stack j) else stack_blocks P lk stack j)"
  by (auto simp: stack_blocks_def less_Suc_eq)

lemma restrict_insert: "m |` (- insert b B) = (m |` (- B))(b := None)"
  by (rule ext) (simp add: restrict_map_def)

lemma vm_upd_idem:
  assumes "vm_upd P vp R v0 r m v" and "r \<in> R" and "vp p" and "pf_vm_lookup P v r p = e"
  shows "vm_upd P vp R v0 r (m(p \<mapsto> e)) v"
  unfolding vm_upd_def
proof (intro ballI allI impI)
  fix root q assume "root \<in> R" "vp q"
  then show "pf_vm_lookup P v root q = (case (m(p \<mapsto> e)) q of Some e \<Rightarrow> if root = r then e else pf_vm_lookup P v0 root q
      | None \<Rightarrow> pf_vm_lookup P v0 root q)"
    using assms unfolding vm_upd_def by (cases "q = p"; cases "m q"; cases "root = r") auto
qed

context vm_platform
begin

lemma upd_unmap_to:
  assumes s: "spaces v R" "r \<in> R" and p: "vp p" and u: "vm_upd P vp R v0 r m v"
  shows "vm_upd P vp R v0 r (m(p \<mapsto> (0, 0))) (pf_vm_unmap P v r p)"
  unfolding vm_upd_def
proof (intro ballI allI impI)
  fix root q assume r: "root \<in> R" "vp q"
  have "pf_vm_lookup P (pf_vm_unmap P v r p) root q = (if root = r \<and> q = p then (0, 0) else pf_vm_lookup P v root q)"
    using unmap_lookup[OF s r(1) p r(2)] by simp
  moreover have "pf_vm_lookup P v root q = (case m q of Some e \<Rightarrow> if root = r then e else pf_vm_lookup P v0 root q
      | None \<Rightarrow> pf_vm_lookup P v0 root q)" using u r by (simp add: vm_upd_def)
  ultimately show "pf_vm_lookup P (pf_vm_unmap P v r p) root q = (case (m(p \<mapsto> (0, 0))) q of
      Some e \<Rightarrow> if root = r then e else pf_vm_lookup P v0 root q | None \<Rightarrow> pf_vm_lookup P v0 root q)"
    by (cases "m q"; cases "root = r") auto
qed

end

context task_spaces
begin

lemma release_step:
  assumes st: "stack < 0x100000" and j: "j < 0x100" and tk: "tasks s task = Some tk" and R: "t_vm tk \<in> R" "spaces (vmst s) R"
    and lk: "lk = pf_vm_lookup P v0 (t_vm tk)" and ok: "stack_ok P raw lk stack"
    and u: "vm_upd P vp R v0 (t_vm tk) (release_map lk stack j) (vmst s)"
    and c: "\<not> cpu_locked s" and l: "VmLock task \<notin> set (held s)"
  shows "\<exists>v. release_page P task stack j s = Ret () (s\<lparr>vmst := v\<rparr>) \<and> spaces v R \<and>
    vm_upd P vp R v0 (t_vm tk) (release_map lk stack (Suc j)) v"
proof -
  let ?p = "user_page stack j"
  have vpj: "vp ?p" using vp_task stack_page_bounds(2)[OF st j] by simp
  have "release_map lk stack j ?p = None" using in_stack_self[OF st j, of j] j by (simp add: release_map_def)
  then have cur: "pf_vm_lookup P (vmst s) (t_vm tk) ?p = lk ?p"
    using vm_upd_else[OF u R(1) vpj] lk by simp
  obtain d f where df: "lk ?p = (d, f)" by fastforce
  have lim: "d < 2 ^ 52" "f < 0x1000" using ok j df unfolding stack_ok_def by (metis fst_conv snd_conv)+
  have nz: "?p \<noteq> 0" using stack_page_bounds(5)[OF st j] by (auto simp: USER_STACKS_PAGE_def)
  have unlock: "s\<lparr>cpu_locked := False\<rparr> = s" using c by (intro sched.equality) simp_all
  show ?thesis
  proof (cases "page_present f")
    case True
    let ?f = "(f XOR PAGE_FLAG_PRESENT) OR PAGE_FLAG_UNALLOC"
    obtain ok' v where m: "pf_vm_map P (vmst s) (t_vm tk) ?p d ?f = (ok', v)" by fastforce
    have "lk ?p \<noteq> (0, 0)" using True df by (auto simp: page_present_def)
    then have ok': ok' using remap[OF R(2,1) vpj, of d ?f] cur m by simp
    have rel: "released (lk ?p) = (d, ?f)" using True df by (simp add: released_def)
    have "release_page P task stack j s = Ret () (s\<lparr>vmst := v, cpu_locked := False\<rparr>)"
      using c l tk cur df True m by (simp add: release_page_def Let_def anscheduler_vm_map_def page_present_def kern cpu_order)
    moreover have "s\<lparr>vmst := v, cpu_locked := False\<rparr> = s\<lparr>vmst := v\<rparr>" using c by (intro sched.equality) simp_all
    ultimately show ?thesis
      using upd_map[OF R(2,1) vpj lim(1) released_flags(1)[OF lim(2)] u m] ok' rel release_map_Suc[of lk stack j]
      by (intro exI[of _ v]) simp
  next
    case False
    then have rel: "released (lk ?p) = lk ?p" using df by (simp add: released_def)
    have "release_page P task stack j s = Ret () (s\<lparr>cpu_locked := False\<rparr>)"
      using c l tk cur df False nz by (simp add: release_page_def Let_def page_present_def kern cpu_order)
    then have "release_page P task stack j s = Ret () (s\<lparr>vmst := vmst s\<rparr>)" unfolding unlock by simp
    moreover have "vm_upd P vp R v0 (t_vm tk) (release_map lk stack (Suc j)) (vmst s)"
      unfolding release_map_Suc rel by (rule vm_upd_idem[OF u R(1) vpj cur])
    ultimately show ?thesis using R(2) by blast
  qed
qed

lemma free_step:
  assumes st: "stack < 0x100000" and j: "j < 0x100" and tk: "tasks s task = Some tk" and R: "t_vm tk \<in> R" "spaces (vmst s) R"
    and lk: "lk = pf_vm_lookup P v0 (t_vm tk)" and ok: "stack_ok P raw lk stack"
    and u: "vm_upd P vp R v0 (t_vm tk) (free_map lk stack j) (vmst s)"
    and raws: "raws s = raw |` (- stack_blocks P lk stack j)"
    and c: "\<not> cpu_locked s" and l: "VmLock task \<notin> set (held s)"
  shows "\<exists>v. free_page P task stack j s = Ret () (s\<lparr>raws := raw |` (- stack_blocks P lk stack (Suc j)), vmst := v\<rparr>) \<and>
    spaces v R \<and> vm_upd P vp R v0 (t_vm tk) (free_map lk stack (Suc j)) v"
proof -
  let ?p = "user_page stack j" and ?b = "page_block P lk stack j"
  have vpj: "vp ?p" using vp_task stack_page_bounds(2)[OF st j] by simp
  have "free_map lk stack j ?p = Some (released (lk ?p))"
    using in_stack_self[OF st j, of j] in_stack_self[OF st j, of "0x100"] j by (simp add: free_map_def)
  then have cur: "pf_vm_lookup P (vmst s) (t_vm tk) ?p = released (lk ?p)" by (rule vm_upd_at[OF u R(1) vpj])
  obtain d f where df: "lk ?p = (d, f)" by fastforce
  let ?v = "pf_vm_unmap P (vmst s) (t_vm tk) ?p"
  have up: "vm_upd P vp R v0 (t_vm tk) (free_map lk stack (Suc j)) ?v"
    unfolding free_map_Suc by (rule upd_unmap_to[OF R(2,1) vpj u])
  have spv: "spaces ?v R" by (rule unmap_spaces[OF R(2,1) vpj])
  have lim: "f < 0x1000" using ok j df unfolding stack_ok_def by (metis snd_conv)
  show ?thesis
  proof (cases "page_present f")
    case True
    have pr: "d \<noteq> 0" "raw ?b \<noteq> None" using ok j df True unfolding stack_ok_def by (metis fst_conv snd_conv)+
    have "?b \<notin> stack_blocks P lk stack j"
    proof
      assume "?b \<in> stack_blocks P lk stack j"
      then obtain i where i: "i < j" "page_present (snd (lk (user_page stack i)))" "?b = page_block P lk stack i"
        by (auto simp: stack_blocks_def)
      then have "j = i" using stack_ok_inj[OF ok j _ _ i(2,3)] j True df by simp
      then show False using i(1) by simp
    qed
    then obtain n where n: "raws s ?b = Some n" using pr(2) unfolding raws by auto
    have b: "?b = push_bit 12 (pf_vm_virtual P d)" using df by (simp add: page_block_def)
    let ?f = "(f XOR PAGE_FLAG_PRESENT) OR PAGE_FLAG_UNALLOC"
    have cur': "pf_vm_lookup P (vmst s) (t_vm tk) ?p = (d, ?f)" using cur df True by (simp add: released_def)
    have "free_page P task stack j s = Ret () (s\<lparr>raws := (raws s)(?b := None), vmst := ?v, cpu_locked := False\<rparr>)"
      using c l tk cur' pr(1) released_flags(2)[OF lim] n unfolding b
      by (simp add: free_page_def Let_def kern sched_order cpu_order)
    moreover have "(raws s)(?b := None) = raw |` (- stack_blocks P lk stack (Suc j))"
      using True df restrict_insert[of raw ?b] unfolding raws stack_blocks_Suc by simp
    moreover have "s\<lparr>raws := x, vmst := ?v, cpu_locked := False\<rparr> = s\<lparr>raws := x, vmst := ?v\<rparr>" for x
      using c by (intro sched.equality) simp_all
    ultimately show ?thesis using up spv by (intro exI[of _ ?v] conjI) (simp_all only:)
  next
    case False
    then have d: "d = 0" using ok j df unfolding stack_ok_def by (metis fst_conv snd_conv)
    have cur': "pf_vm_lookup P (vmst s) (t_vm tk) ?p = (0, f)" using cur df False d by (simp add: released_def)
    have blocks: "raw |` (- stack_blocks P lk stack (Suc j)) = raws s"
      using False df unfolding raws stack_blocks_Suc by simp
    have same: "s\<lparr>cpu_locked := False\<rparr> = s" "s\<lparr>vmst := ?v, cpu_locked := False\<rparr> = s\<lparr>vmst := ?v\<rparr>"
      "s\<lparr>raws := raws s, vmst := x\<rparr> = s\<lparr>vmst := x\<rparr>" for x
      using c by (intro sched.equality; simp)+
    show ?thesis
    proof (cases "f = 0")
      case True
      have "free_page P task stack j s = Ret () (s\<lparr>cpu_locked := False\<rparr>)"
        using c l tk cur' True by (simp add: free_page_def Let_def kern cpu_order)
      then have "free_page P task stack j s = Ret () (s\<lparr>raws := raws s, vmst := vmst s\<rparr>)" unfolding same by simp
      moreover have "vm_upd P vp R v0 (t_vm tk) (free_map lk stack (Suc j)) (vmst s)"
        unfolding free_map_Suc by (rule vm_upd_idem[OF u R(1) vpj]) (simp add: cur' True)
      ultimately show ?thesis using R(2) unfolding blocks by blast
    next
      case False
      have "free_page P task stack j s = Ret () (s\<lparr>vmst := ?v, cpu_locked := False\<rparr>)"
        using c l tk cur' False by (simp add: free_page_def Let_def kern sched_order cpu_order)
      then have "free_page P task stack j s = Ret () (s\<lparr>raws := raws s, vmst := ?v\<rparr>)" unfolding same by simp
      then show ?thesis using up spv unfolding blocks by blast
    qed
  qed
qed

end

context task_spaces
begin

lemma release_loop:
  assumes st: "st < 0x100000" and tk: "tasks s task = Some tk" and R: "t_vm tk \<in> R" "spaces (vmst s) R" and c: "\<not> cpu_locked s"
    and l: "VmLock task \<notin> set (held s)" and lk: "lk = pf_vm_lookup P (vmst s) (t_vm tk)" and ok: "stack_ok P (raws s) lk st"
  shows "\<exists>v. kfor 0 0x100 (release_page P task st) s = Ret () (s\<lparr>vmst := v\<rparr>) \<and> spaces v R \<and>
    vm_upd P vp R (vmst s) (t_vm tk) (release_map lk st 0x100) v"
proof -
  let ?I = "\<lambda>j s'. \<exists>v. s' = s\<lparr>vmst := v\<rparr> \<and> spaces v R \<and> vm_upd P vp R (vmst s) (t_vm tk) (release_map lk st j) v"
  have "\<exists>s'. kfor 0 0x100 (release_page P task st) s = Ret () s' \<and> ?I 0x100 s'"
  proof (rule kfor_invariant[where I = ?I])
    fix j s' assume j: "0 \<le> j" "j < 0x100" and "?I j s'"
    then obtain v where v: "s' = s\<lparr>vmst := v\<rparr>" "spaces v R" "vm_upd P vp R (vmst s) (t_vm tk) (release_map lk st j) v"
      by blast
    have "tasks s' task = Some tk" "spaces (vmst s') R" "vm_upd P vp R (vmst s) (t_vm tk) (release_map lk st j) (vmst s')"
      "\<not> cpu_locked s'" "VmLock task \<notin> set (held s')" using v tk c l by simp_all
    from release_step[OF st j(2) this(1) R(1) this(2) lk ok this(3-5)] obtain v' where
      "release_page P task st j s' = Ret () (s'\<lparr>vmst := v'\<rparr>)" "spaces v' R"
      "vm_upd P vp R (vmst s) (t_vm tk) (release_map lk st (Suc j)) v'" by blast
    moreover have "s'\<lparr>vmst := v'\<rparr> = s\<lparr>vmst := v'\<rparr>" using v(1) by simp
    ultimately show "\<exists>s''. release_page P task st j s' = Ret () s'' \<and> ?I (Suc j) s''" by blast
  next
    show "?I 0 s" using R(2) vm_upd_refl[of P vp R "vmst s" "t_vm tk"] by (intro exI[of _ "vmst s"]) simp
  qed simp
  then show ?thesis by blast
qed

lemma free_loop:
  assumes st: "st < 0x100000" and tk: "tasks s task = Some tk" and R: "t_vm tk \<in> R" and c: "\<not> cpu_locked s"
    and l: "VmLock task \<notin> set (held s)" and lk: "lk = pf_vm_lookup P (vmst s) (t_vm tk)" and ok: "stack_ok P (raws s) lk st"
    and v1: "spaces v1 R" "vm_upd P vp R (vmst s) (t_vm tk) (release_map lk st 0x100) v1"
  shows "\<exists>v. kfor 0 0x100 (free_page P task st) (s\<lparr>vmst := v1\<rparr>) =
      Ret () (s\<lparr>raws := (raws s) |` (- stack_blocks P lk st 0x100), vmst := v\<rparr>) \<and> spaces v R \<and>
    vm_upd P vp R (vmst s) (t_vm tk) (free_map lk st 0x100) v"
proof -
  let ?I = "\<lambda>j s'. \<exists>v. s' = s\<lparr>raws := (raws s) |` (- stack_blocks P lk st j), vmst := v\<rparr> \<and> spaces v R \<and>
    vm_upd P vp R (vmst s) (t_vm tk) (free_map lk st j) v"
  have "\<exists>s'. kfor 0 0x100 (free_page P task st) (s\<lparr>vmst := v1\<rparr>) = Ret () s' \<and> ?I 0x100 s'"
  proof (rule kfor_invariant[where I = ?I])
    fix j s' assume j: "0 \<le> j" "j < 0x100" and "?I j s'"
    then obtain v where v: "s' = s\<lparr>raws := (raws s) |` (- stack_blocks P lk st j), vmst := v\<rparr>" "spaces v R"
      "vm_upd P vp R (vmst s) (t_vm tk) (free_map lk st j) v" by blast
    have "tasks s' task = Some tk" "spaces (vmst s') R" "vm_upd P vp R (vmst s) (t_vm tk) (free_map lk st j) (vmst s')"
      "raws s' = (raws s) |` (- stack_blocks P lk st j)"
      "\<not> cpu_locked s'" "VmLock task \<notin> set (held s')" using v tk c l by simp_all
    from free_step[OF st j(2) this(1) R this(2) lk ok this(3-6)] obtain v' where
      "free_page P task st j s' = Ret () (s'\<lparr>raws := (raws s) |` (- stack_blocks P lk st (Suc j)), vmst := v'\<rparr>)" "spaces v' R"
      "vm_upd P vp R (vmst s) (t_vm tk) (free_map lk st (Suc j)) v'" by blast
    moreover have "s'\<lparr>raws := x, vmst := v'\<rparr> = s\<lparr>raws := x, vmst := v'\<rparr>" for x using v(1) by simp
    ultimately show "\<exists>s''. free_page P task st j s' = Ret () s'' \<and> ?I (Suc j) s''" by metis
  next
    have "(raws s) |` (- stack_blocks P lk st 0) = raws s" by (simp add: stack_blocks_def restrict_map_def)
    then have "s\<lparr>vmst := v1\<rparr> = s\<lparr>raws := (raws s) |` (- stack_blocks P lk st 0), vmst := v1\<rparr>" by simp
    then show "?I 0 (s\<lparr>vmst := v1\<rparr>)" using v1 unfolding free_map_0 by blast
  qed simp
  then show ?thesis by blast
qed

lemma deallocate_runs:
  assumes th: "threads s thread = Some th" "th_stack th < 0x100000" and tk: "tasks s task = Some tk"
    and R: "t_vm tk \<in> R" "spaces (vmst s) R" and c: "\<not> cpu_locked s"
    and l: "VmLock task \<notin> set (held s)" "IntdLock \<notin> set (held s)"
    and lk: "lk = pf_vm_lookup P (vmst s) (t_vm tk)" and ok: "stack_ok P (raws s) lk (th_stack th)"
  shows "\<exists>v. anscheduler_thread_deallocate P task thread s = Ret ()
      (s\<lparr>raws := (raws s) |` (- stack_blocks P lk (th_stack th) 0x100), vmst := v,
         interruptThread := (if interruptThread s = thread then NULL else interruptThread s)\<rparr>) \<and>
    spaces v R \<and> vm_upd P vp R (vmst s) (t_vm tk) (free_map lk (th_stack th) 0x100) v"
proof -
  let ?st = "th_stack th" and ?i = "if interruptThread s = thread then NULL else interruptThread s"
  let ?s1 = "s\<lparr>interruptThread := ?i\<rparr>"
  have s1: "tasks ?s1 task = Some tk" "spaces (vmst ?s1) R" "\<not> cpu_locked ?s1" "VmLock task \<notin> set (held ?s1)"
    "lk = pf_vm_lookup P (vmst ?s1) (t_vm tk)" "stack_ok P (raws ?s1) lk ?st" using tk R c l lk ok by simp_all
  from release_loop[OF th(2) s1(1) R(1) s1(2-6)] obtain v1 where
    first: "kfor 0 0x100 (release_page P task ?st) ?s1 = Ret () (?s1\<lparr>vmst := v1\<rparr>)"
    "spaces v1 R" "vm_upd P vp R (vmst ?s1) (t_vm tk) (release_map lk ?st 0x100) v1" by blast
  from free_loop[OF th(2) s1(1) R(1) s1(3-6) first(2,3)] obtain v2 where
    second: "kfor 0 0x100 (free_page P task ?st) (?s1\<lparr>vmst := v1\<rparr>) =
      Ret () (?s1\<lparr>raws := (raws s) |` (- stack_blocks P lk ?st 0x100), vmst := v2\<rparr>)"
    "spaces v2 R" "vm_upd P vp R (vmst s) (t_vm tk) (free_map lk ?st 0x100) v2" by auto
  have cmp: "anscheduler_intd_cmpnull thread (s\<lparr>cpu_locked := True\<rparr>) = Ret () (?s1\<lparr>cpu_locked := True\<rparr>)"
    using l(2) by (cases "interruptThread s = thread") (simp_all add: anscheduler_intd_cmpnull_def kern)
  have u: "?s1\<lparr>cpu_locked := False\<rparr> = ?s1" "?s1\<lparr>vmst := v1, cpu_locked := False\<rparr> = ?s1\<lparr>vmst := v1\<rparr>"
    using c by (intro sched.equality; simp)+
  have "anscheduler_thread_deallocate P task thread s =
      bnd (rd_thread thread) (\<lambda>th.
      bnd (kfor 0 0x100 (release_page P task (th_stack th))) (\<lambda>_.
      bnd anscheduler_cpu_lock (\<lambda>_.
      bnd anscheduler_cpu_unlock (\<lambda>_.
      kfor 0 0x100 (free_page P task (th_stack th)))))) (?s1\<lparr>cpu_locked := False\<rparr>)"
    using c cmp by (simp add: anscheduler_thread_deallocate_def kern)
  also have "\<dots> = kfor 0 0x100 (free_page P task ?st) (?s1\<lparr>vmst := v1, cpu_locked := False\<rparr>)"
    using th(1) first(1) c unfolding u(1) by (simp add: kern)
  finally have "anscheduler_thread_deallocate P task thread s =
      Ret () (?s1\<lparr>raws := (raws s) |` (- stack_blocks P lk ?st 0x100), vmst := v2\<rparr>)"
    unfolding u(2) second(1) .
  then show ?thesis using second(2,3) by (intro exI[of _ v2]) simp
qed

end

subsection \<open>Properties\<close>

text \<open>C20: deallocating a thread ends and gives back exactly its user stack. All 256 pages of the
  stack are unmapped, the memory of the pages that were allocated is freed, each block once, and
  no other block, page or address space changes; if the thread was the interrupt thread there is
  none any more.\<close>

theorem thread_deallocate_frees:
  assumes "task_spaces P spaces vp" and "threads s thread = Some th" and "th_stack th < 0x100000"
    and "tasks s task = Some tk" and "t_vm tk \<in> R" and "spaces (vmst s) R" and "\<not> cpu_locked s"
    and "VmLock task \<notin> set (held s)" and "IntdLock \<notin> set (held s)"
    and "stack_ok P (raws s) (pf_vm_lookup P (vmst s) (t_vm tk)) (th_stack th)"
  shows "\<exists>v. anscheduler_thread_deallocate P task thread s = Ret ()
      (s\<lparr>raws := (raws s) |` (- stack_blocks P (pf_vm_lookup P (vmst s) (t_vm tk)) (th_stack th) 0x100), vmst := v,
         interruptThread := (if interruptThread s = thread then NULL else interruptThread s)\<rparr>) \<and>
    spaces v R \<and> (\<forall>root \<in> R. \<forall>q. vp q \<longrightarrow> pf_vm_lookup P v root q =
      (if root = t_vm tk \<and> (\<exists>i < 0x100. q = user_page (th_stack th) i) then (0, 0)
       else pf_vm_lookup P (vmst s) root q))"
proof -
  let ?lk = "pf_vm_lookup P (vmst s) (t_vm tk)"
  obtain v where v: "anscheduler_thread_deallocate P task thread s = Ret ()
      (s\<lparr>raws := (raws s) |` (- stack_blocks P ?lk (th_stack th) 0x100), vmst := v,
         interruptThread := (if interruptThread s = thread then NULL else interruptThread s)\<rparr>)" "spaces v R"
    "vm_upd P vp R (vmst s) (t_vm tk) (free_map ?lk (th_stack th) 0x100) v"
    using task_spaces.deallocate_runs[OF assms(1-9) refl assms(10)] by blast
  have "\<forall>root \<in> R. \<forall>q. vp q \<longrightarrow> pf_vm_lookup P v root q =
      (if root = t_vm tk \<and> (\<exists>i < 0x100. q = user_page (th_stack th) i) then (0, 0)
       else pf_vm_lookup P (vmst s) root q)"
    using v(3) unfolding vm_upd_def free_map_def in_stack_def[symmetric]
    by (simp add: if_splits split: if_split)
  then show ?thesis using v(1,2) by blast
qed

text \<open>A thread with the index 1 whose user stack has one page in use.\<close>

definition stack_ex :: "flatvm sched" where
  "stack_ex = flat_boot\<lparr>raws := [0x77000 \<mapsto> 0x1000],
     tasks := [0xA0000 \<mapsto> zero_task\<lparr>t_refCount := 1, t_vm := 0x9000, t_firstThread := 0xB0000\<rparr>],
     threads := [0xB0000 \<mapsto> new_user_thread 0xA0000 1], cpu_locked := False,
     vmst := (0x9000, \<lambda>_ q. if q = user_page 1 255 then (0x77, 7) else if in_stack 1 0x100 q then (0, 0x206) else (0, 0))\<rparr>"

lemma stack_ex_ok: "stack_ok flat_plat (raws stack_ex) (pf_vm_lookup flat_plat (vmst stack_ex) 0x9000) 1"
proof -
  have lk: "pf_vm_lookup flat_plat (vmst stack_ex) 0x9000 (user_page 1 i) = (if i = 255 then (0x77, 7) else (0, 0x206))"
    if "i < 0x100" for i
    using that user_page_inj[of 1 1 i 255] in_stack_self[of 1 i "0x100"] by (simp add: flat_plat_def stack_ex_def)
  have "page_block flat_plat (pf_vm_lookup flat_plat (vmst stack_ex) 0x9000) 1 255 = 0x77000"
    using lk[of 255] by (simp add: page_block_def flat_plat_def)
  moreover have "raws stack_ex 0x77000 = Some 0x1000" by (simp add: stack_ex_def)
  moreover have "page_present 7" "\<not> page_present 0x206" by (simp_all add: page_present_def PAGE_FLAG_PRESENT_def)
  ultimately show ?thesis unfolding stack_ok_def by (simp add: lk)
qed

theorem thread_deallocate_frees_witness:
  "\<exists>s'. anscheduler_thread_deallocate flat_plat 0xA0000 0xB0000 stack_ex = Ret () s' \<and>
     pf_vm_lookup flat_plat (vmst s') 0x9000 (user_page 1 255) = (0, 0)"
proof -
  let ?tk = "zero_task\<lparr>t_refCount := 1, t_vm := 0x9000, t_firstThread := 0xB0000\<rparr>"
  have s: "threads stack_ex 0xB0000 = Some (new_user_thread 0xA0000 1)" "tasks stack_ex 0xA0000 = Some ?tk"
    "flat_spaces (vmst stack_ex) {0x9000}" "\<not> cpu_locked stack_ex" "held stack_ex = []"
    by (simp_all add: stack_ex_def flat_spaces_def flat_boot_def boot_def)
  have st: "th_stack (new_user_thread 0xA0000 1) = 1" by (simp add: new_user_thread_def)
  note w = thread_deallocate_frees[OF flat_tasks.task_spaces_axioms s(1) _ s(2) _ s(3,4), unfolded st s(5)]
  have "\<exists>i < 0x100. user_page 1 255 = user_page 1 i" by (rule exI[of _ 255]) simp
  then show ?thesis using w stack_ex_ok by auto
qed

end
