(* ===== verification/Vm_Free.thy ===== *)
theory Vm_Free
  imports Vm_Env
begin

text \<open>
  Freeing an address space of the reference port (\<open>_table_free\<close> and \<open>_table_free_async\<close> in \<open>test/env/vm.c\<close>): the
  recursion over the tables ends without touching a table that is already freed, and frees the tables of
  the address space and no others.
\<close>

subsection \<open>Trees of tables\<close>

text \<open>The index sequences that the loops go through, and the tables they lead to.\<close>

definition idx :: "nat \<Rightarrow> nat list set" where
  "idx k = {js. length js \<le> k \<and> set js \<subseteq> {..<0x200}}"

definition tabs :: "ptmem \<Rightarrow> nat \<Rightarrow> addr \<Rightarrow> addr set" where
  "tabs m k p = {x. \<exists>js \<in> idx k. path m p js = Some x}"

definition subtabs :: "ptmem \<Rightarrow> nat \<Rightarrow> addr \<Rightarrow> nat set \<Rightarrow> addr set" where
  "subtabs m k p I = {x. \<exists>i \<in> I. \<exists>js \<in> idx k. path m p (i # js) = Some x}"

definition tree :: "ptmem \<Rightarrow> nat \<Rightarrow> addr \<Rightarrow> bool" where
  "tree m k p \<longleftrightarrow> (\<forall>js \<in> idx k. \<forall>x. path m p js = Some x \<longrightarrow> pt_tables m x \<noteq> None) \<and>
     (\<forall>js \<in> idx k. \<forall>ks \<in> idx k. \<forall>x. path m p js = Some x \<longrightarrow> path m p ks = Some x \<longrightarrow> js = ks)"

definition cut :: "ptmem \<Rightarrow> addr set \<Rightarrow> ptmem" where
  "cut m D = m\<lparr>pt_tables := (pt_tables m) |` (- D)\<rparr>"

lemma idx_Nil [simp]: "[] \<in> idx k"
  by (simp add: idx_def)

lemma idx_Cons: "i # js \<in> idx (Suc k) \<longleftrightarrow> i < 0x200 \<and> js \<in> idx k"
  by (auto simp: idx_def)

lemma idx_0: "js \<in> idx 0 \<longleftrightarrow> js = []"
  by (auto simp: idx_def)

lemma idx_Suc: "js \<in> idx (Suc k) \<longleftrightarrow> js = [] \<or> (\<exists>i ks. js = i # ks \<and> i < 0x200 \<and> ks \<in> idx k)"
  by (cases js) (simp_all add: idx_Cons)

lemma treeD:
  assumes "tree m k p"
  shows "js \<in> idx k \<Longrightarrow> path m p js = Some x \<Longrightarrow> pt_tables m x \<noteq> None"
    and "js \<in> idx k \<Longrightarrow> ks \<in> idx k \<Longrightarrow> path m p js = Some x \<Longrightarrow> path m p ks = Some x \<Longrightarrow> js = ks"
  using assms by (auto simp: tree_def)

lemma tabs_0: "tabs m 0 p = {p}"
  by (auto simp: tabs_def idx_0)

lemma tabs_Suc: "tabs m (Suc k) p = insert p (subtabs m k p {..<0x200})"
proof -
  have "(\<exists>js \<in> idx (Suc k). path m p js = Some x) \<longleftrightarrow> x = p \<or> (\<exists>i < 0x200. \<exists>js \<in> idx k. path m p (i # js) = Some x)" for x
    unfolding Bex_def idx_Suc by (auto simp del: path.simps(2))
  then show ?thesis by (auto simp: tabs_def subtabs_def simp del: path.simps(2))
qed

lemma subtabs_insert:
  "subtabs m k p (insert i I) = subtabs m k p I \<union> (case child m p i of None \<Rightarrow> {} | Some q \<Rightarrow> tabs m k q)"
  by (auto simp: subtabs_def tabs_def split: option.split option.split_asm)

lemma cut_empty: "cut m {} = m"
  by (simp add: cut_def restrict_map_def)

lemma cut_cut: "cut (cut m D) T = cut m (D \<union> T)"
  by (simp add: cut_def Int_commute)

lemma cut_free: "pt_tables m p \<noteq> None \<Longrightarrow> p \<notin> D \<Longrightarrow> pt_free p (cut m D) = Some (cut m (insert p D))"
  by (auto simp: pt_free_def cut_def restrict_map_def fun_eq_iff)

lemma child_cut: "p \<notin> D \<Longrightarrow> child (cut m D) p = child m p"
  by (simp add: child_def cut_def fun_eq_iff)

subsection \<open>Removing other tables\<close>

lemma path_cut:
  assumes "js \<in> idx k" and "tabs m k p \<inter> D = {}"
  shows "path (cut m D) p js = path m p js"
  using assms
proof (induction k arbitrary: p js)
  case 0
  then show ?case by (simp add: idx_0)
next
  case (Suc k)
  show ?case
  proof (cases js)
    case (Cons i ks)
    have p: "p \<notin> D" and i: "i < 0x200" "ks \<in> idx k" using Suc.prems Cons by (auto simp: tabs_Suc idx_Cons)
    have "path (cut m D) q ks = path m q ks" if "child m p i = Some q" for q
    proof (rule Suc.IH[OF i(2)])
      have "tabs m k q \<subseteq> tabs m (Suc k) p"
        using subtabs_insert[of m k p i "{..<0x200}"] i(1) that by (auto simp: tabs_Suc insert_absorb)
      then show "tabs m k q \<inter> D = {}" using Suc.prems(2) by blast
    qed
    then show ?thesis using Cons child_cut[OF p] by (simp split: option.split)
  qed simp
qed

lemma tree_cut:
  assumes "tree m k p" and "tabs m k p \<inter> D = {}"
  shows "tree (cut m D) k p" and "tabs (cut m D) k p = tabs m k p"
proof -
  note path = path_cut[OF _ assms(2)]
  show "tabs (cut m D) k p = tabs m k p" using path by (auto simp: tabs_def)
  have "pt_tables (cut m D) x = pt_tables m x" if "js \<in> idx k" "path m p js = Some x" for js x
    using that assms(2) by (auto simp: cut_def tabs_def restrict_map_def)
  then show "tree (cut m D) k p" using assms(1) path unfolding tree_def by metis
qed

lemma tree_child:
  assumes "tree m (Suc k) p" and "i < 0x200" and "child m p i = Some q"
  shows "tree m k q"
  unfolding tree_def
proof (intro conjI ballI allI impI)
  fix js x assume "js \<in> idx k" "path m q js = Some x"
  then show "pt_tables m x \<noteq> None" using treeD(1)[OF assms(1), of "i # js"] assms(2,3) by (simp add: idx_Cons)
next
  fix js ks x assume "js \<in> idx k" "ks \<in> idx k" "path m q js = Some x" "path m q ks = Some x"
  then show "js = ks" using treeD(2)[OF assms(1), of "i # js" "i # ks" x] assms(2,3) by (simp add: idx_Cons)
qed

text \<open>The tables below different entries are different, and none of them is the table itself.\<close>

lemma subtabs_apart:
  assumes T: "tree m (Suc k) p" and I: "I \<subseteq> {..<0x200}"
  shows "p \<notin> subtabs m k p I"
    and "i < 0x200 \<Longrightarrow> i \<notin> I \<Longrightarrow> child m p i = Some q \<Longrightarrow> tabs m k q \<inter> subtabs m k p I = {}"
proof -
  show "p \<notin> subtabs m k p I"
  proof
    assume "p \<in> subtabs m k p I"
    then obtain i js where "i \<in> I" "js \<in> idx k" "path m p (i # js) = Some p" by (auto simp: subtabs_def)
    then show False using treeD(2)[OF T, of "i # js" "[]" p] I by (auto simp: idx_Cons)
  qed
  assume i: "i < 0x200" "i \<notin> I" "child m p i = Some q"
  show "tabs m k q \<inter> subtabs m k p I = {}"
  proof (rule ccontr)
    assume "tabs m k q \<inter> subtabs m k p I \<noteq> {}"
    then obtain x js j ks where x: "js \<in> idx k" "path m q js = Some x" "j \<in> I" "ks \<in> idx k" "path m p (j # ks) = Some x"
      unfolding tabs_def subtabs_def by blast
    have "path m p (i # js) = Some x" using x(2) i(3) by simp
    then have "i # js = j # ks" using treeD(2)[OF T _ _ _ x(5), of "i # js"] x i(1) I by (auto simp: idx_Cons)
    then show False using x(3) i(2) by simp
  qed
qed

subsection \<open>The recursion\<close>

lemma table_free_cut: "tree m k p \<Longrightarrow> table_free k p m = Some (cut m (tabs m k p))"
proof (induction k arbitrary: p m)
  case 0
  have "pt_tables m p \<noteq> None" using treeD(1)[OF "0.prems", of "[]"] by simp
  then show ?case using cut_free[of m p "{}"] by (simp add: tabs_0 cut_empty)
next
  case (Suc k)
  note T = Suc.prems
  have loop: "foldl (\<lambda>r i. Option.bind r (free_entry k p i)) (Some m) is = Some (cut m (subtabs m k p (set is)))"
    if "distinct is" "set is \<subseteq> {..<0x200}" for "is"
    using that
  proof (induction "is" rule: rev_induct)
    case Nil
    show ?case by (simp add: subtabs_def cut_empty)
  next
    case (snoc i "is")
    let ?D = "subtabs m k p (set is)"
    have i: "i < 0x200" "i \<notin> set is" "set is \<subseteq> {..<0x200}" using snoc.prems by auto
    note apart = subtabs_apart[OF T i(3)]
    have "free_entry k p i (cut m ?D) = Some (cut m (subtabs m k p (insert i (set is))))"
    proof (cases "child m p i")
      case None
      have "pt_tables m p \<noteq> None" using treeD(1)[OF T, of "[]"] by simp
      then show ?thesis using None apart(1) unfolding subtabs_insert
        by (auto simp: free_entry_def child_def cut_def split: option.split_asm if_split_asm)
    next
      case (Some q)
      have "free_entry k p i (cut m ?D) = table_free k q (cut m ?D)"
        using Some apart(1) by (auto simp: free_entry_def child_def cut_def split: option.split_asm if_split_asm)
      also have "\<dots> = Some (cut (cut m ?D) (tabs m k q))"
        using Suc.IH[OF tree_cut(1)] tree_cut(2) tree_child[OF T i(1) Some] apart(2)[OF i(1,2) Some] by metis
      finally show ?thesis using Some unfolding subtabs_insert cut_cut by simp
    qed
    then show ?case using snoc by simp
  qed
  have "pt_tables m p \<noteq> None" using treeD(1)[OF T, of "[]"] by simp
  then have "pt_free p (cut m (subtabs m k p {..<0x200})) = Some (cut m (tabs m (Suc k) p))"
    unfolding tabs_Suc by (rule cut_free) (rule subtabs_apart(1)[OF T order_refl])
  moreover have "set [0..<0x200] = {..<0x200}" by (rule atLeast_upt[symmetric])
  ultimately show ?case
    unfolding table_free_Suc using loop[OF distinct_upt, of 0 "0x200"] by (simp only: order_refl simp_thms Option.bind.simps)
qed

lemma forest_tree:
  assumes "forest m R" and "r \<in> R"
  shows "tree m 3 r"
proof -
  have "length js \<le> 3" if "js \<in> idx 3" for js using that by (simp add: idx_def)
  then show ?thesis using assms unfolding tree_def forest_def by blast
qed

lemma forest_apart:
  assumes "forest m (insert r R)" and "r \<notin> R" and "r' \<in> R"
  shows "tabs m 3 r' \<inter> tabs m 3 r = {}"
proof (rule ccontr)
  assume "tabs m 3 r' \<inter> tabs m 3 r \<noteq> {}"
  then obtain js ks x where "js \<in> idx 3" "ks \<in> idx 3" "path m r' js = Some x" "path m r ks = Some x" by (auto simp: tabs_def)
  then show False using forest_inj[OF assms(1), of r' r js ks x] assms(2,3) by (auto simp: idx_def)
qed

subsection \<open>Properties\<close>

text \<open>C24: freeing an address space ends and frees its tables exactly. The tables that the root reaches through the 512 entries of
  each of the three upper levels are freed, each one once, and no other table is; so every table and
  every translation of the other address spaces stays. Freeing outside of a critical section
  frees the same tables, and ends outside of one.\<close>

theorem vm_root_free_exact:
  assumes "forest m (insert root R)" and "root \<notin> R"
  shows "\<exists>m'. vm_root_free m root = Some m' \<and> vm_root_free_async (m, False) root = Some (m', False) \<and>
    pt_tables m' = (pt_tables m) |` (- tabs m 3 root) \<and> root \<in> tabs m 3 root \<and> tabs m 3 root \<subseteq> dom (pt_tables m) \<and> forest m' R \<and>
    (\<forall>r \<in> R. tabs m' 3 r = tabs m 3 r \<and> tabs m 3 r \<inter> tabs m 3 root = {} \<and> (\<forall>q. vm_lookup m' r q = vm_lookup m r q))"
proof -
  have T: "tree m 3 root" by (rule forest_tree[OF assms(1) insertI1])
  have free: "vm_root_free m root = Some (cut m (tabs m 3 root))"
    using table_free_cut[OF T] by (simp add: vm_root_free_def)
  note ok = vm_root_free_ok[OF assms free]
  have "tabs (cut m (tabs m 3 root)) 3 r = tabs m 3 r" "tabs m 3 r \<inter> tabs m 3 root = {}" if "r \<in> R" for r
    using tree_cut(2)[OF forest_tree[OF assms(1)] forest_apart[OF assms that]] forest_apart[OF assms that] that by simp_all
  moreover have "tabs m 3 root \<subseteq> dom (pt_tables m)" using treeD(1)[OF T] by (auto simp: tabs_def)
  moreover have "root \<in> tabs m 3 root" by (auto simp: tabs_def intro: bexI[of _ "[]"])
  ultimately show ?thesis
    using free ok by (intro exI[of _ "cut m (tabs m 3 root)"]) (simp add: vm_root_free_async_same cut_def)
qed

theorem vm_root_free_exact_witness:
  "\<exists>root m0 m1 m2. vm_root_alloc env_tables empty_vm = Some (root, m0) \<and> vm_map env_tables m0 root 5 7 3 = Some m1 \<and>
     vm_root_free m1 root = Some m2 \<and> vm_root_free_async (m1, False) root = Some (m2, False) \<and> pt_tables m2 root = None"
proof -
  have F: "forest empty_vm {}" by (simp add: forest_def)
  obtain m0 where r: "vm_root_alloc env_tables empty_vm = Some (0x1000, m0)"
    and m0: "m0 = \<lparr>pt_tables = [0x1000 \<mapsto> (\<lambda>_. 0)], pt_allocs = 1\<rparr>"
    by (simp add: vm_root_alloc_def table_alloc_def empty_vm_def env_tables_def flat_alloc_def)
  obtain m1 where m1: "vm_map env_tables m0 0x1000 5 7 3 = Some m1"
    by (simp add: m0 vm_map_def upper_indices_def pt_index_def map_level_def table_alloc_def env_tables_def
        flat_alloc_def pt_write_def page_base_def drop_bit_eq_div Let_def)
  have "forest m0 {0x1000}" using env_tables.vm_root_alloc_ok(2)[OF F r] by simp
  then have "forest m1 {0x1000}" using env_tables.vm_map_ok(1)[OF _ _ m1] by simp
  then show ?thesis using vm_root_free_exact[of m1 "0x1000" "{}"] r m1 by (auto simp: restrict_map_def)
qed

end
