(* ===== verification/Spec2Isabelle.thy ===== *)
theory Spec2Isabelle
  imports Anlock Wakeups Field_Ranges Socket_Hangup Task_Create Thread_Exit Vm_Free
begin

text \<open>
  Verification of anscheduler, a scheduler for the tasks, threads and sockets of an operating system
  kernel, written in C.

  \<^bold>\<open>The program.\<close> The scheduler is a library that a kernel links and calls. Its parts are
  \<^item> the run queue and the scheduler loop (\<open>src/loop.c\<close>): which thread a CPU runs next, and how a thread
    gives up the CPU;
  \<^item> tasks (\<open>src/task.c\<close>) with reference counts, found by PID (\<open>src/pidmap.c\<close>), killed at any time and
    freed by a kernel thread when nobody refers to them any more;
  \<^item> threads (\<open>src/thread.c\<close>) with a kernel and a user stack in the address space of their task;
  \<^item> sockets (\<open>src/socket.c\<close>) between two tasks, which a task finds by descriptor number and by the list of
    sockets with pending messages (\<open>src/socketlist.c\<close>);
  \<^item> interrupts, handed to one interrupt thread (\<open>src/interrupts.c\<close>), and page faults, handed to one pager
    thread (\<open>src/paging.c\<close>);
  \<^item> two small libraries: a ticket spinlock (\<open>lib/anlock\<close>) and a pool of indexes (\<open>lib/anidxset\<close>, wrapped by
    \<open>src/util.c\<close>) for PIDs, stacks and descriptors;
  \<^item> the platform (\<open>include/anscheduler/functions.h\<close>), which a port implements: memory, virtual memory,
    locks, the context of the CPU, the timer. \<open>test/env\<close> is a reference port that runs on POSIX threads.

  \<^bold>\<open>The model.\<close> A C function is a function on the state with the results \<open>Ret\<close> (it returned), \<open>Stop\<close> (control
  left the call stack for another thread, the idle loop or an abort) and \<open>Crash\<close> (undefined behaviour or a hang); theory
  \<open>Prelude\<close> has the combinators. The structs of \<open>types.h\<close> are the records of theory \<open>Kernel_State\<close>, memory is one
  partial map per struct, integers are words of their width, and the static variables of the C files are
  fields of the state \<open>'v sched\<close>, where \<open>'v\<close> is the state of the platform's virtual memory. A pointer that
  points to no live object, an allocation outside a critical section, a lock that the CPU holds already and
  an index out of range are all crashes, so that a theorem which says that a function returns also says
  that none of this happens. The functions are total: loops are \<open>kwhile\<close>, which runs at most \<open>2 ^ 64\<close> rounds and is
  \<open>Crash Diverges\<close> after that. A loop along a list visits different non-null 64-bit addresses, so this
  bound is never what ends it on a well formed list (\<open>distinct_addr_length\<close>), and a loop that is still running after
  so many rounds on an unchanged state never ends (\<open>kloop_stuck\<close>). The counting loops are \<open>kfor\<close>.

  The model is that of one CPU between two points where it gives up control. The locks that the CPU holds are in the
  state, by name; that a lock excludes the other CPUs is shown for the lock word itself in \<open>Anlock\<close>.

  \<^bold>\<open>The theories.\<close> Definitions have the names of the C functions (static functions lose their underscore).
  \<^item> \<open>Prelude\<close>, \<open>Linked_Lists\<close>, \<open>Intrusive\<close>, \<open>Fifo\<close>: outcomes, loops, singly and doubly linked lists in memory, and the
    locales for lists threaded through structs and for first-in first-out queues.
  \<^item> \<open>Step_Rules\<close>, \<open>Simulation\<close>: the locale \<open>step_logic\<close> lifts a relation between the states before and after from the
    primitives to every function; the locale \<open>simulation\<close> lifts the simulation of one call by an abstract step to
    sequences of calls.
  \<^item> \<open>Kernel_State\<close>, \<open>Platform\<close>: the data and its accesses; the platform as the record \<open>'v plat\<close> of functions, with what the
    headers promise as the locales \<open>allocator\<close>, \<open>page_allocator\<close>, \<open>vm_platform\<close> and \<open>task_spaces\<close>. All models take the
    platform as an argument.
  \<^item> \<open>Vm_Env\<close>, \<open>Vm_Free\<close>: the page tables of the reference port (\<open>test/env/vm.c\<close>). They satisfy the contracts, and are
    equivalent to flat maps from pages to entries; freeing an address space, in one critical section or in
    many, frees exactly its tables.
  \<^item> \<open>Anlock\<close>: the lock word with its atomic steps and any number of clients that interleave: mutual exclusion,
    first come first served, hand-over.
  \<^item> \<open>Anidxset\<close>: the pool refines a stack of free indexes and a counter; no index is in use twice.
  \<^item> \<open>Run_Queue\<close>, \<open>Loop\<close>: the queue is a list of threads; pushing appends, deleting removes; the next
    thread is the first that is due and whose task lives; resigning is round robin.
  \<^item> \<open>Task_Life\<close>: references, kills and releases in any order free a task exactly once. \<open>Pidmap\<close>: the PID table is
    a finite map. \<open>Task\<close>, \<open>Task_Create\<close>: creating a task is all or nothing; launching and freeing are modelled.
  \<^item> \<open>Socket_List\<close>, \<open>Socket\<close>, \<open>Socket_Queue\<close>: the descriptor table is a finite map, the pending list holds every
    socket at most once, message queues are first in first out and bounded, freeing releases everything.
  \<^item> \<open>Socket_Life\<close>, \<open>Socket_Traffic\<close>, \<open>Socket_Hangup\<close>: references, releases and closes of an end in any order hang it up
    exactly once, and take it off the table and the pending list of its task; a message that is sent is in the inbox of the other end, which is pending, and a polling
    thread there runs at once; a refused message changes nothing; hanging up delivers the close code and ends the kernel thread, and the last
    end to hang up frees the socket.
  \<^item> \<open>Interrupts\<close>, \<open>Paging\<close>: no interrupt is lost while the interrupt thread is busy, a polling one is
    switched to at once; faults reach the pager in order; pages are allocated on demand.
  \<^item> \<open>Thread\<close>, \<open>Thread_Stacks\<close>, \<open>Thread_Exit\<close>: the stacks of different threads do not overlap; creating a thread is all or
    nothing; deallocating one frees exactly its memory.
  \<^item> \<open>Lock_Rules\<close>, \<open>Lock_Discipline\<close>: a logic for the locks that code holds and for critical sections, applied to
    every function. All calls together are the type \<open>api\<close>, and with the method that frees a task the type \<open>entry\<close>; their
    runs are the relation \<open>kernel_run\<close>. Each call returns with the locks and in the kind of critical section that it
    was entered with. A run leaves the locks as they were, but for the lock of the socket list of a task that is being freed: the
    freeing thread can give up the CPU with that lock held, and then nobody can look up a socket of the task any more.
  \<^item> \<open>Wakeup_Rules\<close>, \<open>Wakeups\<close>: in any such run a polling interrupt thread has no interrupt pending and a polling
    pager has no fault waiting, so no wake-up is lost.
  \<^item> \<open>Field_Ranges\<close>: in any such run a message has one of the three types with the payload length that belongs to it, a thread of a
    task has a stack index inside the areas for stacks, and the truth values of all structs are 0 or 1.

  \<^bold>\<open>Contracts.\<close> Code that is not part of the scheduler enters as the locales above and as \<open>thread_platform\<close>,
  \<open>task_platform\<close> and \<open>table_allocator\<close>; they are interpreted on a small platform with flat address spaces
  (\<open>flat_plat\<close>) and on the reference port (\<open>env_plat\<close>), and the witnesses evaluate the models on these two.

  \<^bold>\<open>Where the code differs from its intent.\<close> Some theorems state behaviour that the authors cannot have wanted: a
  descriptor that is not the first of its bucket cannot be looked up, a task that was never launched takes
  others out of the PID table when it is freed, a connection that failed for lack of memory cannot be tried again, deleting a thread from the queue twice makes the count wrong, a write fault on a page that another
  thread has mapped meanwhile is not retried, a socket stays on the pending list after it is freed, and freeing
  a task with a socket that is still in use gives up the CPU with a lock held.

  \<^bold>\<open>Not modelled.\<close> The interleaving of several CPUs inside one function (except for the lock word); the
  timer interrupt that cuts in between two instructions; the contents of machine contexts beyond entry point, stack and
  lock flag; the notifications to other CPUs, which have no effect on the state of this one; the files of
  the reference port other than \<open>vm.c\<close>, which are inline assembly and POSIX calls; the test programs.
\<close>

end
